(* ===== verification/Prelude.thy ===== *)
theory Prelude
  imports Main "HOL-Library.Word" "HOL-Library.AList" "HOL-Library.Sublist"
begin

text \<open>
  Shared vocabulary of the development: the machine types of the Rust sources, the
  arithmetic of its standard library that the sources call (saturating and checked
  subtraction, saturating addition), results as sums, shared references with an
  identity, and the generic lemmas on lists, options and association lists that the
  component theories use. Release builds of the node have no overflow checks, so
  \<open>+\<close> and \<open>-\<close> on the unsigned machine types wrap, as they do on words.
\<close>

section \<open>Machine types\<close>

type_synonym u8 = "8 word"
type_synonym u64 = "64 word"
type_synonym u128 = "128 word"
type_synonym u256 = "256 word"
type_synonym b256 = "256 word"
type_synonym address = "160 word"
type_synonym bytes = "8 word list"
type_synonym bloom = "2048 word"

text \<open>A \<open>Duration\<close> and an \<open>Instant\<close> are counted in nanoseconds.\<close>

type_synonym duration = nat
type_synonym instant = nat

definition from_secs :: "nat \<Rightarrow> duration" where
  "from_secs s = s * 1000000000"

definition from_millis :: "nat \<Rightarrow> duration" where
  "from_millis s = s * 1000000"

definition sat_sub :: "'a::len word \<Rightarrow> 'a word \<Rightarrow> 'a word" where
  "sat_sub a b = (if b \<le> a then a - b else 0)"

definition checked_sub :: "'a::len word \<Rightarrow> 'a word \<Rightarrow> 'a word option" where
  "checked_sub a b = (if b \<le> a then Some (a - b) else None)"

definition sat_add :: "'a::len word \<Rightarrow> 'a word \<Rightarrow> 'a word" where
  "sat_add a b = (if a \<le> a + b then a + b else - 1)"

section \<open>Results and shared references\<close>

text \<open>\<open>Result<T, E>\<close> is \<open>'e + 'a\<close>, with \<open>Inl\<close> for \<open>Err\<close>.\<close>

definition ok_or :: "'a option \<Rightarrow> 'e \<Rightarrow> 'e + 'a" where
  "ok_or x e = (case x of None \<Rightarrow> Inl e | Some y \<Rightarrow> Inr y)"

definition map_err :: "('e \<Rightarrow> 'f) \<Rightarrow> 'e + 'a \<Rightarrow> 'f + 'a" where
  "map_err f r = (case r of Inl e \<Rightarrow> Inl (f e) | Inr y \<Rightarrow> Inr y)"

definition res_bind :: "'e + 'a \<Rightarrow> ('a \<Rightarrow> 'e + 'b) \<Rightarrow> 'e + 'b" where
  "res_bind r f = (case r of Inl e \<Rightarrow> Inl e | Inr y \<Rightarrow> f y)"

definition res_ok :: "'e + 'a \<Rightarrow> 'a option" where
  "res_ok r = (case r of Inl _ \<Rightarrow> None | Inr y \<Rightarrow> Some y)"

text \<open>
  \<open>map(f).collect::<Result<Vec<_>, _>>()\<close>: the results in order, or the first error.
\<close>

fun map_res :: "('a \<Rightarrow> 'e + 'b) \<Rightarrow> 'a list \<Rightarrow> 'e + 'b list" where
  "map_res f [] = Inr []"
| "map_res f (x # xs) =
     (case f x of Inl e \<Rightarrow> Inl e
      | Inr y \<Rightarrow> (case map_res f xs of Inl e \<Rightarrow> Inl e | Inr ys \<Rightarrow> Inr (y # ys)))"

text \<open>
  An \<open>Arc<T>\<close> is a value with the identity of its allocation: \<open>Arc::ptr_eq\<close> compares
  identities only.
\<close>

record 'a arc =
  arc_id :: nat
  arc_val :: 'a

definition ptr_eq :: "'a arc \<Rightarrow> 'a arc \<Rightarrow> bool" where
  "ptr_eq a b \<longleftrightarrow> arc_id a = arc_id b"

text \<open>
  One identity, one value: while a reference is held, no other value is allocated in its
  place.
\<close>

definition arcs_coherent :: "'a arc set \<Rightarrow> bool" where
  "arcs_coherent as \<longleftrightarrow> (\<forall>x \<in> as. \<forall>y \<in> as. ptr_eq x y \<longrightarrow> arc_val x = arc_val y)"

lemma arcs_coherent_mono: "arcs_coherent as \<Longrightarrow> bs \<subseteq> as \<Longrightarrow> arcs_coherent bs"
  by (auto simp: arcs_coherent_def)

lemma arcs_coherentD: "arcs_coherent as \<Longrightarrow> x \<in> as \<Longrightarrow> y \<in> as \<Longrightarrow> arc_id x = arc_id y \<Longrightarrow> x = y"
  by (cases x; cases y) (auto simp: arcs_coherent_def ptr_eq_def)

lemma arcs_coherent_empty [simp]: "arcs_coherent {}"
  by (simp add: arcs_coherent_def)

text \<open>A new allocation has an identity above all that are in use.\<close>

lemma arcs_coherent_alloc:
  assumes "arcs_coherent as" and "\<And>x. x \<in> as \<Longrightarrow> arc_id x < n" and "\<And>x. x \<in> ns \<Longrightarrow> arc_id x = n"
    and "\<And>x y. x \<in> ns \<Longrightarrow> y \<in> ns \<Longrightarrow> x = y"
  shows "arcs_coherent (as \<union> ns)"
proof -
  have apart: "arc_id x \<noteq> arc_id y" if "x \<in> as" "y \<in> ns" for x y
    using assms(2) [OF that(1)] assms(3) [OF that(2)] by simp
  have "x = y" if "x \<in> as \<union> ns" "y \<in> as \<union> ns" "arc_id x = arc_id y" for x y
    using that apart [of x y] apart [of y x] arcs_coherentD [OF assms(1)] assms(4) by (elim UnE) simp_all
  then show ?thesis unfolding arcs_coherent_def ptr_eq_def by blast
qed

section \<open>Lemma collections\<close>

named_theorems res_simps "unfolding of the result combinators"
named_theorems arith_defs "unfolding of the Rust arithmetic"

lemma ok_or_simps [simp]: "ok_or None e = Inl e" "ok_or (Some x) e = Inr x"
  by (simp_all add: ok_or_def)

lemma map_err_simps [simp]: "map_err f (Inl e) = Inl (f e)" "map_err f (Inr x) = Inr x"
  by (simp_all add: map_err_def)

lemma res_bind_simps [simp]: "res_bind (Inl e) f = Inl e" "res_bind (Inr x) f = f x"
  by (simp_all add: res_bind_def)

lemma res_ok_simps [simp]: "res_ok (Inl e) = None" "res_ok (Inr x) = Some x"
  by (simp_all add: res_ok_def)

lemma ok_or_eq_Inr [simp]: "ok_or x e = Inr y \<longleftrightarrow> x = Some y"
  by (cases x) auto

lemma map_err_eq_Inr [simp]: "map_err f r = Inr y \<longleftrightarrow> r = Inr y"
  by (cases r) auto

lemma res_bind_eq_Inr: "res_bind r f = Inr y \<longleftrightarrow> (\<exists>x. r = Inr x \<and> f x = Inr y)"
  by (cases r) auto

declare ok_or_def [res_simps] map_err_def [res_simps] res_bind_def [res_simps]

lemma map_res_Inr: "map_res f xs = Inr ys \<longleftrightarrow> list_all2 (\<lambda>x y. f x = Inr y) xs ys"
proof (induction xs arbitrary: ys)
  case Nil
  then show ?case by auto
next
  case (Cons x xs)
  show ?case
    by (cases "f x"; cases "map_res f xs"; cases ys) (auto simp: Cons.IH [symmetric])
qed

lemma map_res_length: "map_res f xs = Inr ys \<Longrightarrow> length ys = length xs"
  by (auto simp: map_res_Inr dest: list_all2_lengthD)

lemma map_res_Inl:
  "map_res f xs = Inl e \<Longrightarrow>
     \<exists>us x vs. xs = us @ x # vs \<and> f x = Inl e \<and> (\<forall>u \<in> set us. \<exists>y. f u = Inr y)"
proof (induction xs)
  case (Cons x xs)
  show ?case
  proof (cases "f x")
    case (Inl a)
    with Cons.prems have "x # xs = [] @ x # xs \<and> f x = Inl e" by simp
    then show ?thesis by (metis empty_iff list.set(1))
  next
    case (Inr b)
    with Cons.prems have "map_res f xs = Inl e" by (auto split: sum.splits)
    then obtain us z vs where "xs = us @ z # vs" "f z = Inl e" "\<forall>u \<in> set us. \<exists>y. f u = Inr y"
      using Cons.IH by blast
    with Inr have "x # xs = (x # us) @ z # vs \<and> f z = Inl e \<and> (\<forall>u \<in> set (x # us). \<exists>y. f u = Inr y)"
      by simp
    then show ?thesis by blast
  qed
qed simp

lemma map_res_Inl_iff:
  "map_res f xs = Inl e \<longleftrightarrow>
     (\<exists>us x vs. xs = us @ x # vs \<and> (\<forall>u \<in> set us. \<exists>y. f u = Inr y) \<and> f x = Inl e)"
proof -
  have "map_res f (us @ x # vs) = Inl e" if "f x = Inl e" "\<forall>u \<in> set us. \<exists>y. f u = Inr y" for us x vs
    using that by (induction us) auto
  then show ?thesis by (blast dest: map_res_Inl)
qed

lemma map_res_ok_or_Inr:
  "map_res (\<lambda>x. ok_or (g x) (err x)) xs = Inr ys \<longleftrightarrow> map g xs = map Some ys"
proof -
  have "list_all2 (\<lambda>x y. g x = Some y) xs ys \<longleftrightarrow> map g xs = map Some ys"
    by (induction xs arbitrary: ys) (auto simp: list_all2_Cons1 Cons_eq_map_conv)
  then show ?thesis by (simp add: map_res_Inr)
qed

section \<open>Arithmetic\<close>

lemma unat_sat_sub: "unat (sat_sub a b) = unat a - unat b"
  by (auto simp: sat_sub_def unat_sub word_le_nat_alt)

lemma sat_sub_le_iff: "sat_sub a b \<le> c \<longleftrightarrow> unat a \<le> unat b + unat c"
  by (simp add: word_le_nat_alt unat_sat_sub le_diff_conv add.commute)

lemma less_sat_sub_iff: "c < sat_sub a b \<longleftrightarrow> unat b + unat c < unat a"
  by (simp add: word_less_nat_alt unat_sat_sub less_diff_conv add.commute)

lemma checked_sub_Some: "checked_sub a b = Some c \<Longrightarrow> unat c = unat a - unat b \<and> unat b \<le> unat a"
  by (auto simp: checked_sub_def unat_sub word_le_nat_alt split: if_splits)

lemma checked_sub_None: "checked_sub a b = None \<longleftrightarrow> unat a < unat b"
  by (auto simp: checked_sub_def word_le_nat_alt)

lemma unat_sat_add:
  fixes a b :: "'a::len word"
  shows "unat (sat_add a b) = min (unat a + unat b) (2 ^ LENGTH('a) - 1)"
proof (cases "unat a + unat b < 2 ^ LENGTH('a)")
  case True
  then have "unat (a + b) = unat a + unat b" by (simp add: unat_word_ariths)
  with True show ?thesis by (simp add: sat_add_def word_le_nat_alt)
next
  case False
  then have "\<not> a \<le> a + b"
    using no_olen_add_nat [of a b] by (simp add: add.commute word_le_nat_alt)
  moreover have "\<not> unat a + unat b \<le> 2 ^ LENGTH('a) - 1"
    using False zero_less_power [of "2::nat" "LENGTH('a)"] by linarith
  moreover have "unat (- 1 :: 'a word) = 2 ^ LENGTH('a) - 1"
    by (simp add: unsigned_minus_1_eq_mask mask_eq_exp_minus_1)
  ultimately show ?thesis
    by (simp add: sat_add_def min_def del: unsigned_minus_1_eq_mask)
qed

lemma unat_add_small:
  fixes a b :: "'a::len word"
  shows "unat a + unat b < 2 ^ LENGTH('a) \<Longrightarrow> unat (a + b) = unat a + unat b"
  by (simp add: unat_word_ariths)

lemma word_less_succ:
  fixes x :: "'a::len word"
  assumes "x \<noteq> - 1"
  shows "x < x + 1"
proof -
  have m: "unat (- 1 :: 'a word) = 2 ^ LENGTH('a) - 1"
    by (simp add: unsigned_minus_1_eq_mask mask_eq_exp_minus_1)
  have "unat x \<noteq> unat (- 1 :: 'a word)" using assms by (simp only: word_unat_eq_iff not_False_eq_True)
  moreover have "unat x < 2 ^ LENGTH('a)" by (rule unsigned_less)
  moreover have "unat (1 :: 'a word) = 1" by simp
  ultimately have "unat x + unat (1 :: 'a word) < 2 ^ LENGTH('a)" using m by linarith
  then show ?thesis by (simp add: word_less_nat_alt unat_add_small)
qed

section \<open>Association lists as hash maps\<close>

text \<open>
  A \<open>HashMap\<close> whose iteration order or size the code reads is an association list with
  distinct keys; every statement about one holds for each order of its entries.
\<close>

lemma map_of_filter_key:
  "map_of (filter (\<lambda>kv. P (fst kv)) xs) k = (if P k then map_of xs k else None)"
  by (induction xs) auto

lemma distinct_keys_filter: "distinct (map fst xs) \<Longrightarrow> distinct (map fst (filter P xs))"
  by (induction xs) auto

lemma set_update:
  "distinct (map fst xs) \<Longrightarrow>
     set (AList.update k v xs) = insert (k, v) {kv \<in> set xs. fst kv \<noteq> k}"
proof (induction xs)
  case (Cons a xs)
  then have "fst a = k \<Longrightarrow> \<forall>kv \<in> set xs. fst kv \<noteq> k" by (auto simp: image_iff)
  with Cons show ?case by (cases a) auto
qed simp

lemma fst_set_update: "fst ` set (AList.update k v xs) = insert k (fst ` set xs)"
  by (simp add: update_conv' flip: dom_map_of_conv_image_fst)

lemma set_delete: "set (AList.delete k xs) = {kv \<in> set xs. fst kv \<noteq> k}"
  by (auto simp: AList.delete_eq)

lemma map_of_mem: "distinct (map fst xs) \<Longrightarrow> map_of xs k = Some v \<longleftrightarrow> (k, v) \<in> set xs"
  by (rule map_of_eq_Some_iff)

section \<open>Lists\<close>

lemma sorted_distinct_map_strict:
  "sorted (map f xs) \<Longrightarrow> distinct (map f xs) \<Longrightarrow> sorted_wrt (\<lambda>a b. f a < f b) xs"
proof (induction xs)
  case (Cons a xs)
  then show ?case by (auto simp: order.strict_iff_order image_iff)
qed simp

lemma find_rev_Some_last:
  "find P (rev xs) = Some x \<longleftrightarrow> filter P xs \<noteq> [] \<and> x = last (filter P xs)"
  by (induction xs rule: rev_induct) auto

lemma find_rev_None: "find P (rev xs) = None \<longleftrightarrow> filter P xs = []"
  by (auto simp: find_None_iff filter_empty_conv)

lemma drop_length_sum:
  "drop (sum_list (map length (butlast xss))) (concat xss) = (if xss = [] then [] else last xss)"
proof (cases xss rule: rev_cases)
  case (snoc yss ys)
  have "sum_list (map length yss) = length (concat yss)" by (simp add: length_concat)
  with snoc show ?thesis by simp
qed simp

text \<open>A list of states each related to the one before it, from a first state.\<close>

fun chained :: "('s \<Rightarrow> 's \<Rightarrow> bool) \<Rightarrow> 's \<Rightarrow> 's list \<Rightarrow> bool" where
  "chained R s [] = True"
| "chained R s (t # ts) = (R s t \<and> chained R t ts)"

section \<open>Transition systems\<close>

text \<open>
  A component with state: its initial states, its steps, an invariant every step keeps.
  The lemmas are proved once here; each component with a step relation interprets the
  locale on its own relation and invariant.
\<close>

locale transition_system =
  fixes init :: "'s \<Rightarrow> bool"
    and step :: "'s \<Rightarrow> 's \<Rightarrow> bool"
    and inv :: "'s \<Rightarrow> bool"
  assumes init_inv: "init s \<Longrightarrow> inv s"
    and step_inv: "inv s \<Longrightarrow> step s t \<Longrightarrow> inv t"
begin

lemma steps_inv: "inv s \<Longrightarrow> step\<^sup>*\<^sup>* s t \<Longrightarrow> inv t"
proof -
  assume "step\<^sup>*\<^sup>* s t" and "inv s"
  then show ?thesis by (induction rule: rtranclp_induct) (auto intro: step_inv)
qed

lemma reachable_inv: "init s \<Longrightarrow> step\<^sup>*\<^sup>* s t \<Longrightarrow> inv t"
  by (blast intro: init_inv steps_inv)

end

end
