(* ===== verification/Payload.thy ===== *)
theory Payload
  imports Prelude
begin

text \<open>
  The flashblock wire types of \<open>payload.rs\<close>. The types of other crates that they contain
  (withdrawals, receipts, requests) are records of the public fields the node reads; a
  payload id is its eight bytes, an EIP-7685 requests list is the list of its entries.
\<close>

type_synonym payload_id = u64
type_synonym requests = "bytes list"

record withdrawal =
  wd_index :: u64
  wd_validator_index :: u64
  wd_address :: address
  wd_amount :: u64

record plog =
  log_address :: address
  log_topics :: "b256 list"
  log_data :: bytes

record receipt =
  rc_tx_type :: u8
  rc_success :: bool
  rc_cumulative_gas_used :: u64
  rc_logs :: "plog list"

record InclusionFee =
  priority_fee :: u256

record ExecutionPayloadBaseV1 =
  base_parent_beacon_block_root :: b256
  base_parent_hash :: b256
  base_fee_recipient :: address
  base_prev_randao :: b256
  base_block_number :: u64
  base_gas_limit :: u64
  base_timestamp :: u64
  base_extra_data :: bytes
  base_base_fee_per_gas :: u256
  base_slot_number :: "u64 option"

record ExecutionPayloadFlashblockDeltaV1 =
  diff_state_root :: b256
  diff_receipts_root :: b256
  diff_logs_bloom :: bloom
  diff_gas_used :: u64
  diff_block_hash :: b256
  diff_transactions :: "bytes list"
  diff_withdrawals :: "withdrawal list"
  diff_blob_gas_used :: u64
  diff_excess_blob_gas :: u64
  diff_requests :: "requests option"

record Metadata =
  md_block_number :: u64
  md_new_account_balances :: "address \<rightharpoonup> u256"
  md_receipts :: "b256 \<rightharpoonup> receipt"
  md_inclusion_fee :: "InclusionFee option"

record FlashBlock =
  fb_payload_id :: payload_id
  fb_index :: u64
  fb_base :: "ExecutionPayloadBaseV1 option"
  fb_diff :: ExecutionPayloadFlashblockDeltaV1
  fb_metadata :: Metadata

definition block_number_of :: "FlashBlock \<Rightarrow> u64" where
  "block_number_of fb = md_block_number (fb_metadata fb)"

definition parent_hash_of :: "FlashBlock \<Rightarrow> b256 option" where
  "parent_hash_of fb = map_option base_parent_hash (fb_base fb)"

text \<open>The \<open>Default\<close> values the derives give; the witnesses of the development build on them.\<close>

definition default_diff :: ExecutionPayloadFlashblockDeltaV1 where
  "default_diff = \<lparr>diff_state_root = 0, diff_receipts_root = 0, diff_logs_bloom = 0,
     diff_gas_used = 0, diff_block_hash = 0, diff_transactions = [], diff_withdrawals = [],
     diff_blob_gas_used = 0, diff_excess_blob_gas = 0, diff_requests = None\<rparr>"

definition default_metadata :: Metadata where
  "default_metadata = \<lparr>md_block_number = 0, md_new_account_balances = Map.empty,
     md_receipts = Map.empty, md_inclusion_fee = None\<rparr>"

definition default_base :: ExecutionPayloadBaseV1 where
  "default_base = \<lparr>base_parent_beacon_block_root = 0, base_parent_hash = 0,
     base_fee_recipient = 0, base_prev_randao = 0, base_block_number = 0, base_gas_limit = 0,
     base_timestamp = 0, base_extra_data = [], base_base_fee_per_gas = 0,
     base_slot_number = None\<rparr>"

definition default_flashblock :: FlashBlock where
  "default_flashblock = \<lparr>fb_payload_id = 0, fb_index = 0, fb_base = None,
     fb_diff = default_diff, fb_metadata = default_metadata\<rparr>"

definition make_flashblock :: "u64 \<Rightarrow> u64 \<Rightarrow> FlashBlock" where
  "make_flashblock bn i =
     default_flashblock\<lparr>fb_index := i, fb_metadata := default_metadata\<lparr>md_block_number := bn\<rparr>\<rparr>"

lemmas flashblock_defaults =
  make_flashblock_def default_flashblock_def default_metadata_def default_diff_def
  default_base_def block_number_of_def

lemma make_flashblock_simps [simp]:
  "block_number_of (make_flashblock bn i) = bn"
  "fb_index (make_flashblock bn i) = i"
  "fb_base (make_flashblock bn i) = None"
  "fb_payload_id (make_flashblock bn i) = 0"
  "fb_diff (make_flashblock bn i) = default_diff"
  by (simp_all add: flashblock_defaults)

end
