(* ===== verification/Chain.thy ===== *)
theory Chain
  imports Payload
begin

text \<open>
  The data of other crates that the node passes around (headers, blocks, transactions, RPC
  objects, the execution bundle), as records of the fields the node reads or writes. The
  behaviour of those crates (decoding, hashing, execution) is not here: it enters the model
  as arguments of the definitions that call it.
\<close>

record Header =
  hd_parent_hash :: b256
  hd_ommers_hash :: b256
  hd_beneficiary :: address
  hd_state_root :: b256
  hd_transactions_root :: b256
  hd_receipts_root :: b256
  hd_logs_bloom :: bloom
  hd_difficulty :: u256
  hd_number :: u64
  hd_gas_limit :: u64
  hd_gas_used :: u64
  hd_timestamp :: u64
  hd_extra_data :: bytes
  hd_mix_hash :: b256
  hd_nonce :: u64
  hd_base_fee_per_gas :: "u64 option"
  hd_withdrawals_root :: "b256 option"
  hd_blob_gas_used :: "u64 option"
  hd_excess_blob_gas :: "u64 option"
  hd_parent_beacon_block_root :: "b256 option"
  hd_requests_hash :: "b256 option"
  hd_block_access_list_hash :: "b256 option"
  hd_slot_number :: "u64 option"

text \<open>\<open>Sealed<Header>\<close>: a header with a hash that sealing supplied.\<close>

record SealedHeader =
  sh_header :: Header
  sh_hash :: b256

definition sh_number :: "SealedHeader \<Rightarrow> u64" where
  "sh_number h = hd_number (sh_header h)"

record TransactionSigned =
  tx_hash :: b256
  tx_to :: "address option"
  tx_value :: u256
  tx_input :: bytes
  tx_chain_id :: "u64 option"
  tx_nonce :: u64
  tx_gas_limit :: u64
  tx_max_fee_per_gas :: u128

record Block =
  blk_header :: Header
  blk_transactions :: "TransactionSigned list"
  blk_withdrawals :: "withdrawal list option"

text \<open>\<open>RecoveredBlock<Block>\<close>: the sealed block and its senders, in block order.\<close>

record RecoveredBlock =
  rb_block :: Block
  rb_hash :: b256
  rb_senders :: "address list"

definition rb_number :: "RecoveredBlock \<Rightarrow> u64" where
  "rb_number b = hd_number (blk_header (rb_block b))"

text \<open>The RPC objects of \<open>alloy_rpc_types\<close>.\<close>

record Transaction =
  rt_inner :: TransactionSigned
  rt_from :: address
  rt_block_hash :: "b256 option"
  rt_block_number :: "u64 option"
  rt_transaction_index :: "u64 option"
  rt_effective_gas_price :: "u128 option"
  rt_block_timestamp :: "u64 option"

definition rt_hash :: "Transaction \<Rightarrow> b256" where
  "rt_hash t = tx_hash (rt_inner t)"

record Log =
  rl_inner :: plog
  rl_block_hash :: "b256 option"
  rl_block_number :: "u64 option"
  rl_block_timestamp :: "u64 option"
  rl_transaction_hash :: "b256 option"
  rl_transaction_index :: "u64 option"
  rl_log_index :: "u64 option"
  rl_removed :: bool

text \<open>A receipt whose logs are RPC logs, with the bloom over them.\<close>

record ReceiptWithBloom =
  rwb_tx_type :: u8
  rwb_status :: bool
  rwb_cumulative_gas_used :: u64
  rwb_logs :: "Log list"
  rwb_bloom :: bloom

record TransactionReceipt =
  tr_inner :: ReceiptWithBloom
  tr_transaction_hash :: b256
  tr_transaction_index :: "u64 option"
  tr_block_hash :: "b256 option"
  tr_block_number :: "u64 option"
  tr_gas_used :: u64
  tr_effective_gas_price :: u128
  tr_from :: address
  tr_to :: "address option"
  tr_contract_address :: "address option"

text \<open>The state changes of execution, \<open>revm\<close>'s \<open>BundleState\<close>.\<close>

record AccountInfo =
  ai_balance :: u256
  ai_nonce :: u64
  ai_code_hash :: b256

record StorageSlot =
  ss_previous_value :: u256
  ss_present_value :: u256

record BundleAccount =
  ba_info :: "AccountInfo option"
  ba_original_info :: "AccountInfo option"
  ba_storage :: "u256 \<rightharpoonup> StorageSlot"
  ba_was_destroyed :: bool

record BundleState =
  bs_state :: "(address \<times> BundleAccount) list"
  bs_contracts :: "b256 \<rightharpoonup> bytes"

definition bundle_default :: BundleState where
  "bundle_default = \<lparr>bs_state = [], bs_contracts = Map.empty\<rparr>"

definition bundle_account :: "BundleState \<Rightarrow> address \<Rightarrow> BundleAccount option" where
  "bundle_account b a = map_of (bs_state b) a"

text \<open>\<open>BlockNumberOrTag\<close> and \<open>BlockId\<close>.\<close>

datatype BlockNumberOrTag = Latest | Finalized | Safe | Earliest | PendingTag | Number u64

datatype BlockId = IdHash b256 | IdNumber BlockNumberOrTag

text \<open>Default values, on which the witnesses build.\<close>

definition default_header :: Header where
  "default_header = \<lparr>hd_parent_hash = 0, hd_ommers_hash = 0, hd_beneficiary = 0,
     hd_state_root = 0, hd_transactions_root = 0, hd_receipts_root = 0, hd_logs_bloom = 0,
     hd_difficulty = 0, hd_number = 0, hd_gas_limit = 0, hd_gas_used = 0, hd_timestamp = 0,
     hd_extra_data = [], hd_mix_hash = 0, hd_nonce = 0, hd_base_fee_per_gas = None,
     hd_withdrawals_root = None, hd_blob_gas_used = None, hd_excess_blob_gas = None,
     hd_parent_beacon_block_root = None, hd_requests_hash = None,
     hd_block_access_list_hash = None, hd_slot_number = None\<rparr>"

definition header_at :: "u64 \<Rightarrow> Header" where
  "header_at n = default_header\<lparr>hd_number := n\<rparr>"

definition default_tx :: "b256 \<Rightarrow> TransactionSigned" where
  "default_tx h = \<lparr>tx_hash = h, tx_to = None, tx_value = 0, tx_input = [], tx_chain_id = None,
     tx_nonce = 0, tx_gas_limit = 0, tx_max_fee_per_gas = 0\<rparr>"

lemma header_at_simps [simp]: "hd_number (header_at n) = n"
  by (simp add: header_at_def)

lemma default_tx_simps [simp]: "tx_hash (default_tx h) = h"
  by (simp add: default_tx_def)

end
