(* ===== verification/TestChain.thy ===== *)
theory TestChain
  imports Chain
begin

text \<open>
  The chain side of the integration tests: the accounts and the genesis of
  \<open>utilities/test-utils\<close>, the Engine API client of \<open>runner/src/test_utils/engine.rs\<close> and the
  harness of \<open>runner/src/test_utils/harness.rs\<close> that drives a node through it. The node under
  test is a state that its RPC and engine methods read and change; those methods, signing and
  the chain specification are fields of records.
\<close>

section \<open>Accounts\<close>

datatype Account = Alice | Bob | Charlie | Deployer

fun account_address :: "Account \<Rightarrow> address" where
  "account_address Alice = 0xf39Fd6e51aad88F6F4ce6aB8827279cffFb92266"
| "account_address Bob = 0x70997970C51812dc3A010C7d01b50e0d17dc79C8"
| "account_address Charlie = 0x3C44CdDdB6a900fa2b585dd299e03d12FA4293BC"
| "account_address Deployer = 0x90F79bf6EB2c4f870365E785982E1f101E93b906"

fun private_key :: "Account \<Rightarrow> string" where
  "private_key Alice = ''ac0974bec39a17e36ba4a6b4d238ff944bacb478cbed5efcae784d7bf4f2ff80''"
| "private_key Bob = ''59c6995e998f97a5a0044966f0945389dc9e86dae88c7a8412f4603b6b78690d''"
| "private_key Charlie = ''5de4111afa1a4b94908f83103eb1f1706367c2e68ca870fc3fb9a804cdab365a''"
| "private_key Deployer = ''7c852118294e51e653712a81e05800f419141751be58f605c371e15141b007a6''"

definition account_all :: "Account list" where
  "account_all = [Alice, Bob, Charlie, Deployer]"

definition EIP1559_TX_TYPE :: u8 where
  "EIP1559_TX_TYPE = 2"

definition DEVNET_CHAIN_ID :: u64 where
  "DEVNET_CHAIN_ID = 1"

text \<open>\<open>alloy_rpc_types_eth::TransactionRequest\<close>, the fields the helpers set; a missing recipient is a creation.\<close>

record TransactionRequest =
  tq_from :: "address option"
  tq_to :: "address option"
  tq_transaction_type :: "u8 option"
  tq_gas_limit :: "u64 option"
  tq_max_fee_per_gas :: "u128 option"
  tq_max_priority_fee_per_gas :: "u128 option"
  tq_chain_id :: "u64 option"
  tq_input :: "bytes option"
  tq_nonce :: "u64 option"

definition request_default :: TransactionRequest where
  "request_default = \<lparr>tq_from = None, tq_to = None, tq_transaction_type = None, tq_gas_limit = None,
     tq_max_fee_per_gas = None, tq_max_priority_fee_per_gas = None, tq_chain_id = None,
     tq_input = None, tq_nonce = None\<rparr>"

text \<open>Building, signing and encoding of the alloy crates; \<open>sg_decode\<close> is \<open>hex::decode\<close>.\<close>

record ('k, 't, 's) signing =
  sg_decode :: "string \<Rightarrow> bytes option"
  sg_from_slice :: "bytes \<Rightarrow> b256 option"
  sg_from_bytes :: "b256 \<Rightarrow> 'k option"
  sg_build_typed_tx :: "TransactionRequest \<Rightarrow> 't option"
  sg_sign :: "'k \<Rightarrow> 't \<Rightarrow> string + 's"
  sg_encoded_2718 :: "'s \<Rightarrow> bytes"
  sg_nonce :: "'s \<Rightarrow> u64"
  sg_hash :: "'s \<Rightarrow> b256"
  sg_create :: "address \<Rightarrow> u64 \<Rightarrow> address"

text \<open>What ends a helper early: an error it returns, or a panic.\<close>

datatype fault = TestErr string | TestPanic string

definition expect :: "'a option \<Rightarrow> string \<Rightarrow> fault + 'a" where
  "expect x what = ok_or x (TestPanic what)"

definition signer_b256 :: "('k, 't, 's) signing \<Rightarrow> Account \<Rightarrow> fault + b256" where
  "signer_b256 sg a =
     res_bind (expect (sg_decode sg (private_key a)) ''should be able to decode private key'') (\<lambda>key.
       expect (sg_from_slice sg key) ''a slice of 32 bytes'')"

definition account_signer :: "('k, 't, 's) signing \<Rightarrow> Account \<Rightarrow> fault + 'k" where
  "account_signer sg a =
     res_bind (signer_b256 sg a) (\<lambda>key.
       expect (sg_from_bytes sg key) ''should be able to build the PrivateKeySigner'')"

definition sign_request :: "('k, 't, 's) signing \<Rightarrow> Account \<Rightarrow> TransactionRequest \<Rightarrow> fault + 's" where
  "sign_request sg a rq =
     res_bind (ok_or (sg_build_typed_tx sg rq) (TestErr ''invalid transaction request'')) (\<lambda>tx.
       res_bind (account_signer sg a) (\<lambda>key. map_err TestErr (sg_sign sg key tx)))"

definition create_deployment_tx ::
    "('k, 't, 's) signing \<Rightarrow> Account \<Rightarrow> bytes \<Rightarrow> u64 \<Rightarrow> fault + (bytes \<times> address \<times> b256)" where
  "create_deployment_tx sg a bytecode nonce =
     res_bind
       (sign_request sg a
         (request_default\<lparr>tq_from := Some (account_address a), tq_transaction_type := Some EIP1559_TX_TYPE,
            tq_gas_limit := Some 15000000, tq_max_fee_per_gas := Some 1000000000,
            tq_max_priority_fee_per_gas := Some 0, tq_chain_id := Some DEVNET_CHAIN_ID, tq_to := None,
            tq_input := Some bytecode, tq_nonce := Some nonce\<rparr>))
       (\<lambda>signed. Inr (sg_encoded_2718 sg signed, sg_create sg (account_address a) (sg_nonce sg signed),
                     sg_hash sg signed))"

definition sign_txn_request ::
    "('k, 't, 's) signing \<Rightarrow> Account \<Rightarrow> TransactionRequest \<Rightarrow> fault + (bytes \<times> b256)" where
  "sign_txn_request sg a rq =
     res_bind
       (sign_request sg a
         (rq\<lparr>tq_from := Some (account_address a), tq_transaction_type := Some EIP1559_TX_TYPE,
            tq_gas_limit := Some 500000, tq_chain_id := Some DEVNET_CHAIN_ID,
            tq_max_fee_per_gas := Some 1000000000, tq_max_priority_fee_per_gas := Some 0\<rparr>))
       (\<lambda>signed. Inr (sg_encoded_2718 sg signed, sg_hash sg signed))"

section \<open>Genesis\<close>

definition GENESIS_GAS_LIMIT :: u64 where
  "GENESIS_GAS_LIMIT = 100000000"

definition SLOT_NUMBER_OFFSET :: u64 where
  "SLOT_NUMBER_OFFSET = 1000000"

definition slot_number_at :: "u64 \<Rightarrow> u64" where
  "slot_number_at timestamp = timestamp + SLOT_NUMBER_OFFSET"

text \<open>\<open>ChainConfig\<close>: the block forks, in the order the source sets them, and the fork times.\<close>

record ChainConfig =
  cc_chain_id :: u64
  cc_block_forks :: "(string \<times> u64) list"
  cc_shanghai_time :: "u64 option"
  cc_cancun_time :: "u64 option"
  cc_prague_time :: "u64 option"
  cc_osaka_time :: "u64 option"
  cc_amsterdam_time :: "u64 option"
  cc_terminal_total_difficulty :: "u256 option"
  cc_terminal_total_difficulty_passed :: bool

record Genesis =
  gn_config :: ChainConfig
  gn_alloc :: "address \<rightharpoonup> u256"
  gn_gas_limit :: u64
  gn_base_fee_per_gas :: "u128 option"
  gn_difficulty :: u256
  gn_nonce :: u64
  gn_timestamp :: u64
  gn_extra_data :: bytes
  gn_mix_hash :: b256
  gn_coinbase :: address

text \<open>One million ether in wei, as \<open>parse_ether\<close> reads it.\<close>

definition test_account_balance :: u256 where
  "test_account_balance = 1000000 * 1000000000000000000"

definition prague_config :: ChainConfig where
  "prague_config = \<lparr>cc_chain_id = DEVNET_CHAIN_ID,
     cc_block_forks = map (\<lambda>fork. (fork, 0))
       [''homestead'', ''eip150'', ''eip155'', ''eip158'', ''byzantium'', ''constantinople'', ''petersburg'',
        ''istanbul'', ''muir_glacier'', ''berlin'', ''london'', ''arrow_glacier'', ''gray_glacier'',
        ''merge_netsplit''],
     cc_shanghai_time = Some 0, cc_cancun_time = Some 0, cc_prague_time = Some 0, cc_osaka_time = None,
     cc_amsterdam_time = None, cc_terminal_total_difficulty = Some 0,
     cc_terminal_total_difficulty_passed = True\<rparr>"

definition build_prague_test_genesis :: Genesis where
  "build_prague_test_genesis = \<lparr>gn_config = prague_config,
     gn_alloc = map_of (map (\<lambda>a. (account_address a, test_account_balance)) account_all),
     gn_gas_limit = GENESIS_GAS_LIMIT, gn_base_fee_per_gas = Some 100, gn_difficulty = 0, gn_nonce = 0,
     gn_timestamp = 1, gn_extra_data = [0], gn_mix_hash = 0, gn_coinbase = 0\<rparr>"

definition build_test_genesis_with_amsterdam_at :: "u64 option \<Rightarrow> Genesis" where
  "build_test_genesis_with_amsterdam_at amsterdam_time =
     build_prague_test_genesis
       \<lparr>gn_config := prague_config\<lparr>cc_osaka_time := Some 0, cc_amsterdam_time := amsterdam_time\<rparr>\<rparr>"

definition build_test_genesis :: Genesis where
  "build_test_genesis = build_test_genesis_with_amsterdam_at (Some 0)"

section \<open>The engine client\<close>

definition BLOCK_TIME_SECONDS :: u64 where "BLOCK_TIME_SECONDS = 2"
definition NODE_STARTUP_DELAY_MS :: nat where "NODE_STARTUP_DELAY_MS = 500"
definition BLOCK_BUILD_DELAY_MS :: nat where "BLOCK_BUILD_DELAY_MS = 100"

text \<open>
  The envelopes of \<open>engine_getPayload\<close>: \<open>'p\<close> is \<open>ExecutionPayloadV3\<close>, which a V4 payload extends;
  blob bundles and block values are not read.
\<close>

record 'p envelope_v3 =
  e3_execution_payload :: 'p

record 'p envelope_v4 =
  e4_envelope_inner :: "'p envelope_v3"
  e4_execution_requests :: requests

record 'p envelope_v5 =
  e5_execution_payload :: 'p
  e5_execution_requests :: requests

record ('p, 'q) payload_v4 =
  p4_payload_inner :: 'p
  p4_rest :: 'q

record ('p, 'q) envelope_v6 =
  e6_execution_payload :: "('p, 'q) payload_v4"
  e6_execution_requests :: requests

datatype ('p, 'q) EnginePayload =
    PayloadV4 "'p envelope_v4"
  | PayloadV5 "'p envelope_v5"
  | PayloadV6 "('p, 'q) envelope_v6"

fun payload_v3 :: "('p, 'q) EnginePayload \<Rightarrow> 'p" where
  "payload_v3 (PayloadV4 e) = e3_execution_payload (e4_envelope_inner e)"
| "payload_v3 (PayloadV5 e) = e5_execution_payload e"
| "payload_v3 (PayloadV6 e) = p4_payload_inner (e6_execution_payload e)"

fun execution_requests :: "('p, 'q) EnginePayload \<Rightarrow> requests" where
  "execution_requests (PayloadV4 e) = e4_execution_requests e"
| "execution_requests (PayloadV5 e) = e5_execution_requests e"
| "execution_requests (PayloadV6 e) = e6_execution_requests e"

record ForkchoiceState =
  fc_head_block_hash :: b256
  fc_safe_block_hash :: b256
  fc_finalized_block_hash :: b256

record PayloadAttributes =
  pa_timestamp :: u64
  pa_prev_randao :: b256
  pa_suggested_fee_recipient :: address
  pa_withdrawals :: "withdrawal list option"
  pa_parent_beacon_block_root :: "b256 option"
  pa_slot_number :: "u64 option"

datatype payload_validity = StatusValid | StatusInvalid string | StatusSyncing | StatusAccepted

record PayloadStatus =
  st_status :: payload_validity
  st_latest_valid_hash :: "b256 option"

record ForkchoiceUpdated =
  fu_payload_status :: PayloadStatus
  fu_payload_id :: "payload_id option"

text \<open>
  The node under test. A call changes the node's state \<open>'n\<close>; \<open>ln_sleep\<close> is what the node does while the
  harness sleeps. Every caller passes \<open>None\<close> as the last argument of \<open>fork_choice_updated_v4\<close>,
  and \<open>Latest\<close> is the only tag asked for.
\<close>

record ('n, 'p, 'q) local_node =
  ln_send_raw_transaction :: "bytes \<Rightarrow> 'n \<Rightarrow> (string + b256) \<times> 'n"
  ln_latest_header :: "'n \<Rightarrow> (string + SealedHeader option) \<times> 'n"
  ln_ipc_client :: "'n \<Rightarrow> (string + unit) \<times> 'n"
  ln_get_payload_v4 :: "payload_id \<Rightarrow> 'n \<Rightarrow> (string + 'p envelope_v4) \<times> 'n"
  ln_get_payload_v5 :: "payload_id \<Rightarrow> 'n \<Rightarrow> (string + 'p envelope_v5) \<times> 'n"
  ln_get_payload_v6 :: "payload_id \<Rightarrow> 'n \<Rightarrow> (string + ('p, 'q) envelope_v6) \<times> 'n"
  ln_new_payload_v4 :: "'p \<Rightarrow> b256 list \<Rightarrow> b256 \<Rightarrow> requests \<Rightarrow> 'n \<Rightarrow> (string + PayloadStatus) \<times> 'n"
  ln_new_payload_v5 :: "('p, 'q) payload_v4 \<Rightarrow> b256 list \<Rightarrow> b256 \<Rightarrow> requests \<Rightarrow> 'n \<Rightarrow> (string + PayloadStatus) \<times> 'n"
  ln_fork_choice_updated_v4 ::
    "ForkchoiceState \<Rightarrow> PayloadAttributes option \<Rightarrow> 'n \<Rightarrow> (string + ForkchoiceUpdated) \<times> 'n"
  ln_sleep :: "duration \<Rightarrow> 'n \<Rightarrow> 'n"
  ln_last_block_number :: "'n \<Rightarrow> string + u64"
  ln_best_block_number :: "'n \<Rightarrow> string + u64"
  ln_block :: "u64 \<Rightarrow> 'n \<Rightarrow> string + Block option"
  ln_try_into_recovered :: "Block \<Rightarrow> RecoveredBlock option"
  ln_is_amsterdam :: "u64 \<Rightarrow> bool"
  ln_is_osaka :: "u64 \<Rightarrow> bool"

text \<open>A helper's run on the node: a result or a fault, and the node afterwards; \<open>?\<close> is \<open>and_then\<close>.\<close>

type_synonym ('n, 'a) run = "'n \<Rightarrow> (fault + 'a) \<times> 'n"

definition and_then :: "('n, 'a) run \<Rightarrow> ('a \<Rightarrow> ('n, 'b) run) \<Rightarrow> ('n, 'b) run" where
  "and_then f g n = (case f n of (Inl e, n') \<Rightarrow> (Inl e, n') | (Inr x, n') \<Rightarrow> g x n')"

definition lift :: "fault + 'a \<Rightarrow> ('n, 'a) run" where
  "lift r n = (r, n)"

definition call :: "('n \<Rightarrow> (string + 'a) \<times> 'n) \<Rightarrow> ('n, 'a) run" where
  "call f n = apfst (map_err TestErr) (f n)"

definition engine_client :: "('n, 'p, 'q) local_node \<Rightarrow> ('n, unit) run" where
  "engine_client ln n = apfst (map_err (\<lambda>_. TestPanic ''Failed to create ipc client'')) (ln_ipc_client ln n)"

definition get_payload ::
    "('n, 'p, 'q) local_node \<Rightarrow> payload_id \<Rightarrow> u64 \<Rightarrow> ('n, ('p, 'q) EnginePayload) run" where
  "get_payload ln pid timestamp =
     and_then (engine_client ln) (\<lambda>_.
       if ln_is_amsterdam ln timestamp
       then and_then (call (ln_get_payload_v6 ln pid)) (\<lambda>e. lift (Inr (PayloadV6 e)))
       else if ln_is_osaka ln timestamp
       then and_then (call (ln_get_payload_v5 ln pid)) (\<lambda>e. lift (Inr (PayloadV5 e)))
       else and_then (call (ln_get_payload_v4 ln pid)) (\<lambda>e. lift (Inr (PayloadV4 e))))"

definition new_payload ::
    "('n, 'p, 'q) local_node \<Rightarrow> ('p, 'q) EnginePayload \<Rightarrow> b256 \<Rightarrow> ('n, PayloadStatus) run" where
  "new_payload ln payload parent_beacon_block_root =
     and_then (engine_client ln) (\<lambda>_.
       (let rq = execution_requests payload in
        case payload of
          PayloadV6 e \<Rightarrow> call (ln_new_payload_v5 ln (e6_execution_payload e) [] parent_beacon_block_root rq)
        | _ \<Rightarrow> call (ln_new_payload_v4 ln (payload_v3 payload) [] parent_beacon_block_root rq)))"

definition update_forkchoice ::
    "('n, 'p, 'q) local_node \<Rightarrow> b256 \<Rightarrow> b256 \<Rightarrow> PayloadAttributes option \<Rightarrow> ('n, ForkchoiceUpdated) run" where
  "update_forkchoice ln current_head new_head attributes =
     and_then (engine_client ln) (\<lambda>_.
       call (ln_fork_choice_updated_v4 ln
         \<lparr>fc_head_block_hash = new_head, fc_safe_block_hash = current_head,
          fc_finalized_block_hash = current_head\<rparr> attributes))"

section \<open>The harness\<close>

fun send_transactions :: "('n, 'p, 'q) local_node \<Rightarrow> bytes list \<Rightarrow> ('n, unit) run" where
  "send_transactions ln [] = lift (Inr ())"
| "send_transactions ln (tx # txs) =
     and_then (call (ln_send_raw_transaction ln tx)) (\<lambda>_. send_transactions ln txs)"

record ('p, 'q) SubmittedBlock =
  sm_parent_hash :: b256
  sm_hash :: b256
  sm_payload :: "('p, 'q) EnginePayload"

definition test_attributes ::
    "('n, 'p, 'q) local_node \<Rightarrow> u64 \<Rightarrow> b256 \<Rightarrow> withdrawal list \<Rightarrow> PayloadAttributes" where
  "test_attributes ln next_timestamp parent_beacon_block_root withdrawals =
     \<lparr>pa_timestamp = next_timestamp, pa_prev_randao = 0, pa_suggested_fee_recipient = 0,
      pa_withdrawals = Some withdrawals, pa_parent_beacon_block_root = Some parent_beacon_block_root,
      pa_slot_number =
        (if ln_is_amsterdam ln next_timestamp then Some (slot_number_at next_timestamp) else None)\<rparr>"

definition is_invalid :: "payload_validity \<Rightarrow> bool" where
  "is_invalid s = (case s of StatusInvalid _ \<Rightarrow> True | _ \<Rightarrow> False)"

definition beacon_root_of :: "SealedHeader \<Rightarrow> b256" where
  "beacon_root_of h = (case hd_parent_beacon_block_root (sh_header h) of None \<Rightarrow> 0 | Some r \<Rightarrow> r)"

definition submit_payload ::
    "('n, 'p, 'q) local_node \<Rightarrow> SealedHeader \<Rightarrow> payload_id \<Rightarrow> ('n, ('p, 'q) SubmittedBlock) run" where
  "submit_payload ln latest pid =
     and_then (get_payload ln pid (hd_timestamp (sh_header latest) + BLOCK_TIME_SECONDS)) (\<lambda>payload.
       and_then (new_payload ln payload (beacon_root_of latest)) (\<lambda>status.
         if is_invalid (st_status status) then lift (Inl (TestErr ''Engine rejected payload''))
         else and_then
           (lift (ok_or (st_latest_valid_hash status) (TestErr ''Payload status missing latest_valid_hash'')))
           (\<lambda>hash. lift (Inr \<lparr>sm_parent_hash = sh_hash latest, sm_hash = hash, sm_payload = payload\<rparr>))))"

definition submit_block ::
    "('n, 'p, 'q) local_node \<Rightarrow> bytes list \<Rightarrow> withdrawal list \<Rightarrow> ('n, ('p, 'q) SubmittedBlock) run" where
  "submit_block ln transactions withdrawals =
     and_then (send_transactions ln transactions) (\<lambda>_.
     and_then (call (ln_latest_header ln)) (\<lambda>found.
     and_then (lift (ok_or found (TestErr ''No genesis block found''))) (\<lambda>latest.
     and_then
       (update_forkchoice ln (sh_hash latest) (sh_hash latest)
         (Some (test_attributes ln (hd_timestamp (sh_header latest) + BLOCK_TIME_SECONDS)
                 (beacon_root_of latest) withdrawals))) (\<lambda>forkchoice.
     and_then (lift (ok_or (fu_payload_id forkchoice) (TestErr ''Forkchoice update did not return payload ID'')))
       (\<lambda>pid n. submit_payload ln latest pid (ln_sleep ln (from_millis BLOCK_BUILD_DELAY_MS) n))))))"

definition build_block_with_withdrawals ::
    "('n, 'p, 'q) local_node \<Rightarrow> bytes list \<Rightarrow> withdrawal list \<Rightarrow> ('n, ('p, 'q) EnginePayload) run" where
  "build_block_with_withdrawals ln transactions withdrawals =
     and_then (submit_block ln transactions withdrawals) (\<lambda>b.
       and_then (update_forkchoice ln (sm_parent_hash b) (sm_hash b) None) (\<lambda>_. lift (Inr (sm_payload b))))"

definition build_block_from_transactions ::
    "('n, 'p, 'q) local_node \<Rightarrow> bytes list \<Rightarrow> ('n, unit) run" where
  "build_block_from_transactions ln transactions =
     and_then (build_block_with_withdrawals ln transactions []) (\<lambda>_. lift (Inr ()))"

definition submit_block_from_transactions ::
    "('n, 'p, 'q) local_node \<Rightarrow> bytes list \<Rightarrow> ('n, b256) run" where
  "submit_block_from_transactions ln transactions =
     and_then (submit_block ln transactions []) (\<lambda>b. lift (Inr (sm_hash b)))"

fun advance_chain :: "('n, 'p, 'q) local_node \<Rightarrow> nat \<Rightarrow> ('n, unit) run" where
  "advance_chain ln 0 = lift (Inr ())"
| "advance_chain ln (Suc k) = and_then (build_block_from_transactions ln []) (\<lambda>_. advance_chain ln k)"

definition PERSISTENCE_POLLS :: nat where "PERSISTENCE_POLLS = 200"
definition PERSISTENCE_POLL_INTERVAL_MS :: nat where "PERSISTENCE_POLL_INTERVAL_MS = 25"

definition persisted_block_number :: "('n, 'p, 'q) local_node \<Rightarrow> 'n \<Rightarrow> fault + u64" where
  "persisted_block_number ln n = map_err TestErr (ln_last_block_number ln n)"

fun persisted_polls :: "('n, 'p, 'q) local_node \<Rightarrow> u64 \<Rightarrow> nat \<Rightarrow> ('n, unit) run" where
  "persisted_polls ln number 0 n = (Inl (TestErr ''block was not persisted in time''), n)"
| "persisted_polls ln number (Suc k) n =
     (case persisted_block_number ln n of
        Inl e \<Rightarrow> (Inl e, n)
      | Inr held \<Rightarrow>
          if held \<ge> number then (Inr (), n)
          else persisted_polls ln number k (ln_sleep ln (from_millis PERSISTENCE_POLL_INTERVAL_MS) n))"

definition wait_until_persisted :: "('n, 'p, 'q) local_node \<Rightarrow> u64 \<Rightarrow> ('n, unit) run" where
  "wait_until_persisted ln number = persisted_polls ln number PERSISTENCE_POLLS"

definition latest_block :: "('n, 'p, 'q) local_node \<Rightarrow> 'n \<Rightarrow> fault + RecoveredBlock" where
  "latest_block ln n =
     res_bind (expect (res_ok (ln_best_block_number ln n)) ''able to read best block number'') (\<lambda>best.
     res_bind (expect (res_ok (ln_block ln best n)) ''able to load canonical block'') (\<lambda>found.
     res_bind (expect found ''canonical block exists'') (\<lambda>block.
       expect (ln_try_into_recovered ln block) ''able to recover canonical block'')))"

section \<open>Accounts and genesis\<close>

lemma account_all_complete: "a \<in> set account_all"
  by (cases a) (simp_all add: account_all_def)

lemma account_address_inj: "account_address a = account_address b \<longleftrightarrow> a = b"
  by (cases a; cases b) simp_all

text \<open>Each account, and no other address, holds the balance, on every test genesis.\<close>

lemma genesis_funds:
  "gn_alloc (build_test_genesis_with_amsterdam_at t) x =
     (if x \<in> range account_address then Some test_account_balance else None)"
proof -
  have "map_of (map (\<lambda>a. (account_address a, test_account_balance)) as) x =
      (if x \<in> account_address ` set as then Some test_account_balance else None)" for as
    by (induction as) auto
  moreover have "set account_all = UNIV" using account_all_complete by blast
  ultimately show ?thesis
    by (simp add: build_test_genesis_with_amsterdam_at_def build_prague_test_genesis_def)
qed

text \<open>A slot is told apart from the timestamp it belongs to.\<close>

lemma slot_number_apart: "slot_number_at t \<noteq> t"
  by (simp add: slot_number_at_def SLOT_NUMBER_OFFSET_def)

section \<open>Runs\<close>

named_theorems run_simps "evaluation of runs on the node"

lemma and_then_simps [run_simps]:
  "f n = (Inr x, n') \<Longrightarrow> and_then f g n = g x n'"
  "f n = (Inl e, n') \<Longrightarrow> and_then f g n = (Inl e, n')"
  by (simp_all add: and_then_def)

lemma lift_simps [simp, run_simps]: "and_then (lift (Inr x)) g = g x" "and_then (lift (Inl e)) g n = (Inl e, n)"
  by (simp_all add: and_then_def lift_def fun_eq_iff)

lemma call_simps [run_simps]: "f n = (Inr x, n') \<Longrightarrow> call f n = (Inr x, n')"
  by (simp add: call_def)

text \<open>
  A payload that the engine built is submitted with the method of its fork, and the version
  asked for is that of the block's timestamp.
\<close>

lemma get_payload_version:
  assumes "get_payload ln pid t n = (Inr payload, n')"
  shows "(\<exists>e. payload = PayloadV6 e) \<longleftrightarrow> ln_is_amsterdam ln t"
    and "(\<exists>e. payload = PayloadV5 e) \<longleftrightarrow> \<not> ln_is_amsterdam ln t \<and> ln_is_osaka ln t"
  using assms by (auto simp: get_payload_def and_then_def lift_def split: if_splits prod.splits sum.splits)

text \<open>A payload the engine calls invalid is reported, and no forkchoice update follows it.\<close>

lemma rejected_payload_reported:
  assumes "get_payload ln pid (hd_timestamp (sh_header latest) + 2) n = (Inr payload, n1)"
    and "new_payload ln payload (beacon_root_of latest) n1 = (Inr status, n2)" and "is_invalid (st_status status)"
  shows "submit_payload ln latest pid n = (Inl (TestErr ''Engine rejected payload''), n2)"
  using assms by (simp add: submit_payload_def BLOCK_TIME_SECONDS_def and_then_def lift_def)

section \<open>Waiting for persistence\<close>

text \<open>
  The wait polls at most 200 times, 25 ms apart: it succeeds exactly when one of the polls finds
  the block and every poll before it could read a smaller number.
\<close>

abbreviation after_polls :: "('n, 'p, 'q) local_node \<Rightarrow> nat \<Rightarrow> 'n \<Rightarrow> 'n" where
  "after_polls ln i n \<equiv> (ln_sleep ln (from_millis PERSISTENCE_POLL_INTERVAL_MS) ^^ i) n"

lemma persisted_polls_exact:
  "persisted_polls ln number k n = (Inr (), n') \<longleftrightarrow>
     (\<exists>i < k. n' = after_polls ln i n
        \<and> (\<exists>held. ln_last_block_number ln n' = Inr held \<and> number \<le> held)
        \<and> (\<forall>j < i. \<exists>held. ln_last_block_number ln (after_polls ln j n) = Inr held \<and> held < number))"
    (is "_ \<longleftrightarrow> (\<exists>i < k. ?ok i n)")
proof (induction k arbitrary: n)
  case (Suc k)
  let ?n1 = "ln_sleep ln (from_millis PERSISTENCE_POLL_INTERVAL_MS) n"
  have later: "?ok (Suc i) n \<longleftrightarrow> (\<exists>held. ln_last_block_number ln n = Inr held \<and> held < number) \<and> ?ok i ?n1" for i
    by (auto simp: funpow_swap1 All_less_Suc2)
  show ?case
    unfolding Ex_less_Suc2 later
    by (cases "ln_last_block_number ln n") (auto simp: persisted_block_number_def Suc.IH)
qed simp

section \<open>Advancing a chain\<close>

text \<open>
  What the Engine API documents, over a view of the node: its canonical chain, the builds it was
  asked for, the payloads it built with the beacon root and requests they were built for, and
  the blocks it knows.
\<close>

record 'p engine_view =
  ev_chain :: "SealedHeader list"
  ev_jobs :: "payload_id \<rightharpoonup> SealedHeader \<times> PayloadAttributes"
  ev_built :: "'p \<rightharpoonup> SealedHeader \<times> b256 option \<times> requests"
  ev_known :: "b256 \<rightharpoonup> SealedHeader"

abbreviation ev_tip :: "'p engine_view \<Rightarrow> SealedHeader" where
  "ev_tip v \<equiv> last (ev_chain v)"

definition child_of :: "SealedHeader \<Rightarrow> u64 \<Rightarrow> SealedHeader \<Rightarrow> bool" where
  "child_of parent t h \<longleftrightarrow>
     hd_parent_hash (sh_header h) = sh_hash parent \<and> sh_number h = sh_number parent + 1
   \<and> hd_timestamp (sh_header h) = t"

text \<open>Reads, sleeps and connecting leave the view alone.\<close>

definition reads_ok :: "('n, 'p, 'q) local_node \<Rightarrow> ('n \<Rightarrow> 'p engine_view) \<Rightarrow> bool" where
  "reads_ok ln view \<longleftrightarrow>
     (\<forall>n. \<exists>n'. ln_latest_header ln n = (Inr (Some (ev_tip (view n))), n') \<and> view n' = view n)
   \<and> (\<forall>n. \<exists>n'. ln_ipc_client ln n = (Inr (), n') \<and> view n' = view n)
   \<and> (\<forall>d n. view (ln_sleep ln d n) = view n)"

text \<open>
  A forkchoice update that keeps the head and brings valid attributes starts a build; one to a
  known child of the head makes it the head.
\<close>

definition attributes_ok :: "('n, 'p, 'q) local_node \<Rightarrow> SealedHeader \<Rightarrow> PayloadAttributes \<Rightarrow> bool" where
  "attributes_ok ln parent a \<longleftrightarrow>
     hd_timestamp (sh_header parent) < pa_timestamp a
   \<and> pa_withdrawals a \<noteq> None \<and> pa_parent_beacon_block_root a \<noteq> None
   \<and> (pa_slot_number a \<noteq> None \<longleftrightarrow> ln_is_amsterdam ln (pa_timestamp a))"

definition forkchoice_ok :: "('n, 'p, 'q) local_node \<Rightarrow> ('n \<Rightarrow> 'p engine_view) \<Rightarrow> bool" where
  "forkchoice_ok ln view \<longleftrightarrow>
     (\<forall>n fc a. fc_head_block_hash fc = sh_hash (ev_tip (view n)) \<longrightarrow> attributes_ok ln (ev_tip (view n)) a \<longrightarrow>
        (\<exists>n' fu pid. ln_fork_choice_updated_v4 ln fc (Some a) n = (Inr fu, n') \<and> fu_payload_id fu = Some pid
          \<and> view n' = (view n)\<lparr>ev_jobs := (ev_jobs (view n))(pid \<mapsto> (ev_tip (view n), a))\<rparr>))
   \<and> (\<forall>n fc h. ev_known (view n) (fc_head_block_hash fc) = Some h
        \<longrightarrow> hd_parent_hash (sh_header h) = sh_hash (ev_tip (view n)) \<longrightarrow>
        (\<exists>n' fu. ln_fork_choice_updated_v4 ln fc None n = (Inr fu, n')
          \<and> ev_chain (view n') = ev_chain (view n) @ [h]))"

text \<open>
  The method of the timestamp's fork returns a child of the parent a build was asked for, and
  submitting that with its root and requests finds it valid.
\<close>

definition built_as ::
    "('n \<Rightarrow> 'p engine_view) \<Rightarrow> 'n \<Rightarrow> 'n \<Rightarrow> SealedHeader \<times> PayloadAttributes \<Rightarrow> 'p \<Rightarrow> requests \<Rightarrow> bool" where
  "built_as view n n' job p rq \<longleftrightarrow>
     (\<exists>h. child_of (fst job) (pa_timestamp (snd job)) h
        \<and> view n' = (view n)\<lparr>ev_built :=
             (ev_built (view n))(p \<mapsto> (h, pa_parent_beacon_block_root (snd job), rq))\<rparr>)"

definition get_payload_ok :: "('n, 'p, 'q) local_node \<Rightarrow> ('n \<Rightarrow> 'p engine_view) \<Rightarrow> bool" where
  "get_payload_ok ln view \<longleftrightarrow>
     (\<forall>n pid job. ev_jobs (view n) pid = Some job \<longrightarrow>
        (if ln_is_amsterdam ln (pa_timestamp (snd job))
         then \<exists>e n'. ln_get_payload_v6 ln pid n = (Inr e, n')
                \<and> built_as view n n' job (p4_payload_inner (e6_execution_payload e)) (e6_execution_requests e)
         else if ln_is_osaka ln (pa_timestamp (snd job))
         then \<exists>e n'. ln_get_payload_v5 ln pid n = (Inr e, n')
                \<and> built_as view n n' job (e5_execution_payload e) (e5_execution_requests e)
         else \<exists>e n'. ln_get_payload_v4 ln pid n = (Inr e, n')
                \<and> built_as view n n' job (e3_execution_payload (e4_envelope_inner e)) (e4_execution_requests e)))"

definition validated :: "('n \<Rightarrow> 'p engine_view) \<Rightarrow> 'n \<Rightarrow> SealedHeader \<Rightarrow> (string + PayloadStatus) \<times> 'n \<Rightarrow> bool" where
  "validated view n h r \<longleftrightarrow>
     fst r = Inr \<lparr>st_status = StatusValid, st_latest_valid_hash = Some (sh_hash h)\<rparr>
   \<and> view (snd r) = (view n)\<lparr>ev_known := (ev_known (view n))(sh_hash h \<mapsto> h)\<rparr>"

definition new_payload_ok :: "('n, 'p, 'q) local_node \<Rightarrow> ('n \<Rightarrow> 'p engine_view) \<Rightarrow> bool" where
  "new_payload_ok ln view \<longleftrightarrow>
     (\<forall>n p h root rq. ev_built (view n) p = Some (h, Some root, rq) \<longrightarrow>
        validated view n h (ln_new_payload_v4 ln p [] root rq n)
      \<and> (\<forall>q. p4_payload_inner q = p \<longrightarrow> validated view n h (ln_new_payload_v5 ln q [] root rq n)))"

definition engine_ok :: "('n, 'p, 'q) local_node \<Rightarrow> ('n \<Rightarrow> 'p engine_view) \<Rightarrow> bool" where
  "engine_ok ln view \<longleftrightarrow>
     reads_ok ln view \<and> forkchoice_ok ln view \<and> get_payload_ok ln view \<and> new_payload_ok ln view"

lemma engine_client_ok:
  assumes "engine_ok ln view"
  obtains n' where "engine_client ln n = (Inr (), n')" "view n' = view n"
  using assms by (force simp: engine_ok_def reads_ok_def engine_client_def)

lemma start_build:
  assumes ok: "engine_ok ln view" and a: "attributes_ok ln (ev_tip (view n)) a"
  obtains fu n' pid where
    "update_forkchoice ln (sh_hash (ev_tip (view n))) (sh_hash (ev_tip (view n))) (Some a) n = (Inr fu, n')"
    "fu_payload_id fu = Some pid"
    "view n' = (view n)\<lparr>ev_jobs := (ev_jobs (view n))(pid \<mapsto> (ev_tip (view n), a))\<rparr>"
proof -
  obtain m where m: "engine_client ln n = (Inr (), m)" "view m = view n" by (rule engine_client_ok [OF ok])
  let ?fc = "\<lparr>fc_head_block_hash = sh_hash (ev_tip (view n)), fc_safe_block_hash = sh_hash (ev_tip (view n)),
    fc_finalized_block_hash = sh_hash (ev_tip (view n))\<rparr>"
  from ok a m(2) obtain n' fu pid where "ln_fork_choice_updated_v4 ln ?fc (Some a) m = (Inr fu, n')"
    "fu_payload_id fu = Some pid" "view n' = (view n)\<lparr>ev_jobs := (ev_jobs (view n))(pid \<mapsto> (ev_tip (view n), a))\<rparr>"
    unfolding engine_ok_def forkchoice_ok_def by (metis ForkchoiceState.select_convs(1))
  with m(1) show ?thesis by (intro that) (auto simp: update_forkchoice_def run_simps)
qed

lemma fetch_payload:
  assumes ok: "engine_ok ln view" and job: "ev_jobs (view n) pid = Some job"
  obtains payload n' h where "get_payload ln pid (pa_timestamp (snd job)) n = (Inr payload, n')"
    "child_of (fst job) (pa_timestamp (snd job)) h"
    "view n' = (view n)\<lparr>ev_built := (ev_built (view n))(payload_v3 payload \<mapsto>
       (h, pa_parent_beacon_block_root (snd job), execution_requests payload))\<rparr>"
proof -
  let ?t = "pa_timestamp (snd job)"
  obtain m where m: "engine_client ln n = (Inr (), m)" "view m = view n" by (rule engine_client_ok [OF ok])
  have g: "get_payload_ok ln view" using ok by (simp add: engine_ok_def)
  have "\<exists>payload n'. get_payload ln pid ?t n = (Inr payload, n')
      \<and> built_as view m n' job (payload_v3 payload) (execution_requests payload)"
  proof (cases "ln_is_amsterdam ln ?t")
    case True
    then obtain e n' where "ln_get_payload_v6 ln pid m = (Inr e, n')"
      "built_as view m n' job (p4_payload_inner (e6_execution_payload e)) (e6_execution_requests e)"
      using g job m(2) unfolding get_payload_ok_def by metis
    with True m(1) show ?thesis
      by (intro exI [of _ "PayloadV6 e"] exI [of _ n']) (simp add: get_payload_def run_simps lift_def)
  next
    case early: False
    show ?thesis
    proof (cases "ln_is_osaka ln ?t")
      case True
      then obtain e n' where "ln_get_payload_v5 ln pid m = (Inr e, n')"
        "built_as view m n' job (e5_execution_payload e) (e5_execution_requests e)"
        using g job m(2) early unfolding get_payload_ok_def by metis
      with True early m(1) show ?thesis
        by (intro exI [of _ "PayloadV5 e"] exI [of _ n']) (simp add: get_payload_def run_simps lift_def)
    next
      case False
      then obtain e n' where "ln_get_payload_v4 ln pid m = (Inr e, n')"
        "built_as view m n' job (e3_execution_payload (e4_envelope_inner e)) (e4_execution_requests e)"
        using g job m(2) early unfolding get_payload_ok_def by metis
      with False early m(1) show ?thesis
        by (intro exI [of _ "PayloadV4 e"] exI [of _ n']) (simp add: get_payload_def run_simps lift_def)
    qed
  qed
  then show ?thesis using that m(2) by (auto simp: built_as_def)
qed

lemma offer_payload:
  assumes ok: "engine_ok ln view"
    and built: "ev_built (view n) (payload_v3 payload) = Some (h, Some root, execution_requests payload)"
  obtains n' where
    "new_payload ln payload root n = (Inr \<lparr>st_status = StatusValid, st_latest_valid_hash = Some (sh_hash h)\<rparr>, n')"
    "view n' = (view n)\<lparr>ev_known := (ev_known (view n))(sh_hash h \<mapsto> h)\<rparr>"
proof -
  obtain m where m: "engine_client ln n = (Inr (), m)" "view m = view n" by (rule engine_client_ok [OF ok])
  have v: "validated view m h (ln_new_payload_v4 ln (payload_v3 payload) [] root (execution_requests payload) m)"
    "p4_payload_inner q = payload_v3 payload \<Longrightarrow>
       validated view m h (ln_new_payload_v5 ln q [] root (execution_requests payload) m)" for q
    using ok built m(2) unfolding engine_ok_def new_payload_ok_def by auto
  let ?r = "case payload of
      PayloadV6 e \<Rightarrow> ln_new_payload_v5 ln (e6_execution_payload e) [] root (execution_requests payload) m
    | _ \<Rightarrow> ln_new_payload_v4 ln (payload_v3 payload) [] root (execution_requests payload) m"
  have r: "validated view m h ?r" using v by (cases payload) simp_all
  have "new_payload ln payload root n = apfst (map_err TestErr) ?r"
    using m(1) by (cases payload) (simp_all add: new_payload_def and_then_def call_def)
  with r m(2) show ?thesis by (intro that [of "snd ?r"]) (cases ?r, auto simp: validated_def)+
qed

lemma adopt_head:
  assumes ok: "engine_ok ln view" and known: "ev_known (view n) new_head = Some h"
    and parent: "hd_parent_hash (sh_header h) = sh_hash (ev_tip (view n))"
  obtains fu n' where "update_forkchoice ln current new_head None n = (Inr fu, n')"
    "ev_chain (view n') = ev_chain (view n) @ [h]"
proof -
  obtain m where m: "engine_client ln n = (Inr (), m)" "view m = view n" by (rule engine_client_ok [OF ok])
  let ?fc = "\<lparr>fc_head_block_hash = new_head, fc_safe_block_hash = current, fc_finalized_block_hash = current\<rparr>"
  from ok known parent m(2) obtain n' fu where "ln_fork_choice_updated_v4 ln ?fc None m = (Inr fu, n')"
    "ev_chain (view n') = ev_chain (view n) @ [h]"
    unfolding engine_ok_def forkchoice_ok_def by (metis ForkchoiceState.select_convs(1))
  with m(1) show ?thesis by (intro that) (auto simp: update_forkchoice_def run_simps)
qed

lemma submit_payload_ok:
  assumes ok: "engine_ok ln view" and job: "ev_jobs (view n) pid = Some (latest, a)"
    and a: "pa_timestamp a = hd_timestamp (sh_header latest) + 2"
      "pa_parent_beacon_block_root a = Some (beacon_root_of latest)"
  obtains b n' h where "submit_payload ln latest pid n = (Inr b, n')" "sm_parent_hash b = sh_hash latest"
    "sm_hash b = sh_hash h" "child_of latest (pa_timestamp a) h" "ev_chain (view n') = ev_chain (view n)"
    "ev_known (view n') (sh_hash h) = Some h"
proof -
  obtain payload n1 h where f: "get_payload ln pid (pa_timestamp a) n = (Inr payload, n1)"
    "child_of latest (pa_timestamp a) h"
    "view n1 = (view n)\<lparr>ev_built := (ev_built (view n))(payload_v3 payload \<mapsto>
       (h, pa_parent_beacon_block_root a, execution_requests payload))\<rparr>"
    using fetch_payload [OF ok job] by auto
  then have "ev_built (view n1) (payload_v3 payload) = Some (h, Some (beacon_root_of latest), execution_requests payload)"
    using a(2) by simp
  then obtain n' where o: "new_payload ln payload (beacon_root_of latest) n1 =
      (Inr \<lparr>st_status = StatusValid, st_latest_valid_hash = Some (sh_hash h)\<rparr>, n')"
    "view n' = (view n1)\<lparr>ev_known := (ev_known (view n1))(sh_hash h \<mapsto> h)\<rparr>"
    by (rule offer_payload [OF ok])
  have "submit_payload ln latest pid n =
      (Inr \<lparr>sm_parent_hash = sh_hash latest, sm_hash = sh_hash h, sm_payload = payload\<rparr>, n')"
    using f(1) o(1) a(1)
    by (simp add: submit_payload_def BLOCK_TIME_SECONDS_def and_then_def lift_def is_invalid_def)
  from that [OF this _ _ f(2)] show ?thesis using f(3) o(2) by simp
qed

lemma build_empty_block:
  assumes ok: "engine_ok ln view"
    and room: "unat (hd_timestamp (sh_header (ev_tip (view n)))) + 2 < 2 ^ 64"
  obtains n' h where "build_block_from_transactions ln [] n = (Inr (), n')"
    "child_of (ev_tip (view n)) (hd_timestamp (sh_header (ev_tip (view n))) + 2) h"
    "ev_chain (view n') = ev_chain (view n) @ [h]"
proof -
  let ?tip = "ev_tip (view n)"
  let ?t = "hd_timestamp (sh_header ?tip) + 2"
  let ?a = "test_attributes ln ?t (beacon_root_of ?tip) []"
  obtain n1 where n1: "ln_latest_header ln n = (Inr (Some ?tip), n1)" "view n1 = view n"
    using ok unfolding engine_ok_def reads_ok_def by metis
  have "hd_timestamp (sh_header ?tip) < ?t"
    using room by (simp add: word_less_nat_alt unat_word_ariths)
  then have "attributes_ok ln (ev_tip (view n1)) ?a"
    by (simp add: attributes_ok_def test_attributes_def n1(2))
  then obtain fu n2 pid where fu: "update_forkchoice ln (sh_hash ?tip) (sh_hash ?tip) (Some ?a) n1 = (Inr fu, n2)"
    "fu_payload_id fu = Some pid" "view n2 = (view n)\<lparr>ev_jobs := (ev_jobs (view n))(pid \<mapsto> (?tip, ?a))\<rparr>"
    using start_build [OF ok, of n1 ?a] n1(2) by metis
  let ?n3 = "ln_sleep ln (from_millis BLOCK_BUILD_DELAY_MS) n2"
  have v3: "view ?n3 = view n2" using ok by (simp add: engine_ok_def reads_ok_def)
  then have "ev_jobs (view ?n3) pid = Some (?tip, ?a)" using fu(3) by simp
  from submit_payload_ok [OF ok this] obtain b n4 h where b: "submit_payload ln ?tip pid ?n3 = (Inr b, n4)"
    "sm_parent_hash b = sh_hash ?tip" "sm_hash b = sh_hash h" "child_of ?tip ?t h"
    "ev_chain (view n4) = ev_chain (view n)" "ev_known (view n4) (sh_hash h) = Some h"
    using v3 fu(3) by (auto simp: test_attributes_def)
  have "submit_block ln [] [] n = (Inr b, n4)"
    using n1(1) fu(1,2) b(1) by (simp add: submit_block_def and_then_def call_def lift_def BLOCK_TIME_SECONDS_def)
  moreover obtain fu' n' where "update_forkchoice ln (sh_hash ?tip) (sh_hash h) None n4 = (Inr fu', n')"
    "ev_chain (view n') = ev_chain (view n) @ [h]"
    using adopt_head [OF ok b(6), of "sh_hash ?tip"] b(4,5) by (auto simp: child_of_def)
  ultimately show ?thesis
    using b(2,3,4)
    by (intro that [of n' h])
      (simp_all add: build_block_from_transactions_def build_block_with_withdrawals_def and_then_def lift_def)
qed

text \<open>Blocks that follow one another, two seconds apart.\<close>

fun follow_on :: "SealedHeader \<Rightarrow> SealedHeader list \<Rightarrow> bool" where
  "follow_on parent [] \<longleftrightarrow> True"
| "follow_on parent (h # hs) \<longleftrightarrow> child_of parent (hd_timestamp (sh_header parent) + 2) h \<and> follow_on h hs"

text \<open>
  On a node whose engine behaves as documented, \<open>advance_chain\<close> always succeeds and extends
  the canonical chain by exactly the blocks asked for, each the child of the one before it and
  two seconds later, whichever fork each timestamp falls into.
\<close>

theorem advance_chain_extends:
  assumes "engine_ok ln view" and "ev_chain (view n) \<noteq> []"
    and "unat (hd_timestamp (sh_header (ev_tip (view n)))) + 2 * k < 2 ^ 64"
  shows "\<exists>n' hs. advance_chain ln k n = (Inr (), n') \<and> ev_chain (view n') = ev_chain (view n) @ hs
    \<and> length hs = k \<and> follow_on (ev_tip (view n)) hs"
  using assms(2,3)
proof (induction k arbitrary: n)
  case (Suc k)
  let ?tip = "ev_tip (view n)"
  have "unat (hd_timestamp (sh_header ?tip)) + 2 < 2 ^ 64" using Suc.prems(2) by simp
  then obtain n1 h where n1: "build_block_from_transactions ln [] n = (Inr (), n1)"
    "child_of ?tip (hd_timestamp (sh_header ?tip) + 2) h" "ev_chain (view n1) = ev_chain (view n) @ [h]"
    by (rule build_empty_block [OF assms(1)])
  then have "unat (hd_timestamp (sh_header (ev_tip (view n1)))) + 2 * k < 2 ^ 64"
    using Suc.prems(2) by (simp add: child_of_def unat_word_ariths)
  then obtain n' hs where "advance_chain ln k n1 = (Inr (), n')" "ev_chain (view n') = ev_chain (view n1) @ hs"
    "length hs = k" "follow_on h hs"
    using Suc.IH [of n1] n1(3) by auto
  with n1 show ?case by (intro exI [of _ n'] exI [of _ "h # hs"]) (simp add: run_simps)
qed (simp add: lift_def)

text \<open>An engine that keeps only its view: a payload is the header it stands for.\<close>

definition view_child :: "SealedHeader \<Rightarrow> u64 \<Rightarrow> SealedHeader" where
  "view_child parent t =
     \<lparr>sh_header = default_header\<lparr>hd_parent_hash := sh_hash parent, hd_number := sh_number parent + 1, hd_timestamp := t\<rparr>,
      sh_hash = sh_hash parent + 1\<rparr>"

definition view_build ::
    "payload_id \<Rightarrow> SealedHeader engine_view \<Rightarrow> (SealedHeader \<times> SealedHeader engine_view) option" where
  "view_build pid v =
     map_option (\<lambda>(parent, a). let h = view_child parent (pa_timestamp a) in
       (h, v\<lparr>ev_built := (ev_built v)(h \<mapsto> (h, pa_parent_beacon_block_root a, []))\<rparr>)) (ev_jobs v pid)"

definition view_get ::
    "(SealedHeader \<Rightarrow> 'e) \<Rightarrow> payload_id \<Rightarrow> SealedHeader engine_view \<Rightarrow> (string + 'e) \<times> SealedHeader engine_view" where
  "view_get envelope pid v =
     (case view_build pid v of None \<Rightarrow> (Inl ''Unknown payload'', v) | Some (h, v') \<Rightarrow> (Inr (envelope h), v'))"

definition view_new ::
    "SealedHeader \<Rightarrow> b256 list \<Rightarrow> b256 \<Rightarrow> requests \<Rightarrow> SealedHeader engine_view
      \<Rightarrow> (string + PayloadStatus) \<times> SealedHeader engine_view" where
  "view_new p hashes root rq v =
     (case ev_built v p of
        None \<Rightarrow> (Inr \<lparr>st_status = StatusSyncing, st_latest_valid_hash = None\<rparr>, v)
      | Some (h, root', rq') \<Rightarrow>
          if root' = Some root \<and> rq' = rq
          then (Inr \<lparr>st_status = StatusValid, st_latest_valid_hash = Some (sh_hash h)\<rparr>,
                v\<lparr>ev_known := (ev_known v)(sh_hash h \<mapsto> h)\<rparr>)
          else (Inr \<lparr>st_status = StatusInvalid ''block hash mismatch'', st_latest_valid_hash = None\<rparr>, v))"

definition view_forkchoice ::
    "ForkchoiceState \<Rightarrow> PayloadAttributes option \<Rightarrow> SealedHeader engine_view
      \<Rightarrow> (string + ForkchoiceUpdated) \<times> SealedHeader engine_view" where
  "view_forkchoice fc attributes v =
     (let v' = (case ev_known v (fc_head_block_hash fc) of
                  Some h \<Rightarrow> if hd_parent_hash (sh_header h) = sh_hash (ev_tip v) \<and> attributes = None
                            then v\<lparr>ev_chain := ev_chain v @ [h]\<rparr> else v
                | None \<Rightarrow> v);
          status = \<lparr>st_status = StatusValid, st_latest_valid_hash = Some (fc_head_block_hash fc)\<rparr>
      in case attributes of
           None \<Rightarrow> (Inr \<lparr>fu_payload_status = status, fu_payload_id = None\<rparr>, v')
         | Some a \<Rightarrow> (Inr \<lparr>fu_payload_status = status, fu_payload_id = Some 7\<rparr>,
                      v'\<lparr>ev_jobs := (ev_jobs v')(7 \<mapsto> (ev_tip v', a))\<rparr>))"

definition view_node :: "(SealedHeader engine_view, SealedHeader, unit) local_node" where
  "view_node = \<lparr>ln_send_raw_transaction = (\<lambda>_ v. (Inr 0, v)),
     ln_latest_header = (\<lambda>v. (Inr (Some (ev_tip v)), v)), ln_ipc_client = (\<lambda>v. (Inr (), v)),
     ln_get_payload_v4 = view_get (\<lambda>h. \<lparr>e4_envelope_inner = \<lparr>e3_execution_payload = h\<rparr>, e4_execution_requests = []\<rparr>),
     ln_get_payload_v5 = view_get (\<lambda>h. \<lparr>e5_execution_payload = h, e5_execution_requests = []\<rparr>),
     ln_get_payload_v6 = view_get (\<lambda>h. \<lparr>e6_execution_payload = \<lparr>p4_payload_inner = h, p4_rest = ()\<rparr>,
       e6_execution_requests = []\<rparr>),
     ln_new_payload_v4 = view_new, ln_new_payload_v5 = (\<lambda>q. view_new (p4_payload_inner q)),
     ln_fork_choice_updated_v4 = view_forkchoice, ln_sleep = (\<lambda>_ v. v), ln_last_block_number = (\<lambda>_. Inr 0),
     ln_best_block_number = (\<lambda>v. Inr (sh_number (ev_tip v))), ln_block = (\<lambda>_ _. Inr None),
     ln_try_into_recovered = (\<lambda>_. None), ln_is_amsterdam = (\<lambda>t. 4 \<le> t), ln_is_osaka = (\<lambda>t. 2 \<le> t)\<rparr>"

definition view_genesis :: "SealedHeader engine_view" where
  "view_genesis = \<lparr>ev_chain = [\<lparr>sh_header = default_header\<lparr>hd_timestamp := 1\<rparr>, sh_hash = 9\<rparr>],
     ev_jobs = Map.empty, ev_built = Map.empty, ev_known = Map.empty\<rparr>"

lemma view_child_ok: "child_of parent t (view_child parent t)"
  by (simp add: child_of_def view_child_def sh_number_def)

lemma view_get_ok:
  assumes "ev_jobs v pid = Some job"
  shows "\<exists>h v'. view_get envelope pid v = (Inr (envelope h), v') \<and> built_as (\<lambda>v. v) v v' job h []"
  using assms view_child_ok by (cases job) (auto simp: view_get_def view_build_def built_as_def Let_def)

lemma view_node_ok: "engine_ok view_node (\<lambda>v. v)"
proof -
  have "reads_ok view_node (\<lambda>v. v)" by (simp add: reads_ok_def view_node_def)
  moreover have "forkchoice_ok view_node (\<lambda>v. v)"
    by (auto simp: forkchoice_ok_def view_node_def view_forkchoice_def Let_def split: option.splits)
  moreover have "get_payload_ok view_node (\<lambda>v. v)"
    unfolding get_payload_ok_def
  proof (intro allI impI)
    fix v :: "SealedHeader engine_view" and pid job assume job: "ev_jobs v pid = Some job"
    note g = view_get_ok [OF job]
    show "if ln_is_amsterdam view_node (pa_timestamp (snd job))
       then \<exists>e n'. ln_get_payload_v6 view_node pid v = (Inr e, n')
              \<and> built_as (\<lambda>v. v) v n' job (p4_payload_inner (e6_execution_payload e)) (e6_execution_requests e)
       else if ln_is_osaka view_node (pa_timestamp (snd job))
       then \<exists>e n'. ln_get_payload_v5 view_node pid v = (Inr e, n')
              \<and> built_as (\<lambda>v. v) v n' job (e5_execution_payload e) (e5_execution_requests e)
       else \<exists>e n'. ln_get_payload_v4 view_node pid v = (Inr e, n')
              \<and> built_as (\<lambda>v. v) v n' job (e3_execution_payload (e4_envelope_inner e)) (e4_execution_requests e)"
      using g [of "\<lambda>h. \<lparr>e6_execution_payload = \<lparr>p4_payload_inner = h, p4_rest = ()\<rparr>, e6_execution_requests = []\<rparr>"]
        g [of "\<lambda>h. \<lparr>e5_execution_payload = h, e5_execution_requests = []\<rparr>"]
        g [of "\<lambda>h. \<lparr>e4_envelope_inner = \<lparr>e3_execution_payload = h\<rparr>, e4_execution_requests = []\<rparr>"]
      by (auto simp: view_node_def)
  qed
  moreover have "new_payload_ok view_node (\<lambda>v. v)"
    by (auto simp: new_payload_ok_def view_node_def view_new_def validated_def)
  ultimately show ?thesis by (simp add: engine_ok_def)
qed

theorem advance_chain_extends_witness:
  "\<exists>v hs. advance_chain view_node 3 view_genesis = (Inr (), v) \<and> ev_chain v = ev_chain view_genesis @ hs
     \<and> length hs = 3 \<and> follow_on (ev_tip view_genesis) hs"
  using advance_chain_extends [OF view_node_ok, of view_genesis 3] by (simp add: view_genesis_def)

end
