(* ===== verification/Metrics.thy ===== *)
theory Metrics
  imports Prelude
begin

text \<open>
  The counters and gauges of \<open>metrics.rs\<close>, with the field names of the source. A counter
  counts events; the gauges hold the last value set. Of the histograms only
  \<open>flashblocks_in_block\<close> and \<open>bundle_state_clone_size\<close> record values the program computes;
  the others record elapsed time and are left out. The source hands both over as \<open>f64\<close>, so
  they neither wrap nor, at the sizes a block has, round: they are natural numbers here.
\<close>

datatype counter =
    upstream_errors | unknown_wire_fields | wire_slot_number_missing | wire_requests_missing
  | upstream_messages | unexpected_block_order | flashblock_superseded | inclusion_fee_received
  | rpc_inclusion_fee_builder | rpc_inclusion_fee_fallback | flashblock_dropped_syncing
  | block_processing_error | transaction_status_mismatch | pending_clear_catchup
  | pending_clear_reorg | pending_rebase_canonical_extended | pending_rebase_untracked
  | pending_drop_stale | pending_withdrawals_root_mismatch | pending_requests_hash_mismatch
  | pending_slot_number_mismatch | pending_tx_prefix_violation | reconnect_attempts
  | rpc_get_transaction_count | rpc_get_transaction_receipt | rpc_get_transaction_by_hash
  | rpc_get_balance | rpc_get_block_by_number | rpc_call | rpc_estimate_gas | rpc_simulate_v1
  | rpc_get_logs | rpc_get_block_transaction_count_by_number | rpc_get_block_receipts
  | rpc_get_transaction_by_block_number_and_index | rpc_send_raw_transaction_sync_flashblock
  | rpc_send_raw_transaction_sync_canonical | rpc_send_raw_transaction_sync_timeout
  | subscriptions_new_flashblocks | subscriptions_pending_logs
  | subscriptions_new_flashblock_transactions | subscriptions_new_flashblock_batches

record Metrics =
  counters :: "counter \<Rightarrow> nat"
  pending_snapshot_fb_index :: u64
  pending_snapshot_height :: u64
  flashblocks_in_block :: "nat list"
  bundle_state_clone_size :: "nat list"

definition metrics_default :: Metrics where
  "metrics_default = \<lparr>counters = (\<lambda>_. 0), pending_snapshot_fb_index = 0,
     pending_snapshot_height = 0, flashblocks_in_block = [], bundle_state_clone_size = []\<rparr>"

definition increment :: "counter \<Rightarrow> Metrics \<Rightarrow> Metrics" where
  "increment c m = m\<lparr>counters := (counters m)(c := counters m c + 1)\<rparr>"

lemma counters_increment [simp]:
  "counters (increment c m) d = (if d = c then counters m d + 1 else counters m d)"
  by (simp add: increment_def)

lemma increment_other [simp]:
  "pending_snapshot_fb_index (increment c m) = pending_snapshot_fb_index m"
  "pending_snapshot_height (increment c m) = pending_snapshot_height m"
  "flashblocks_in_block (increment c m) = flashblocks_in_block m"
  "bundle_state_clone_size (increment c m) = bundle_state_clone_size m"
  by (simp_all add: increment_def)

end
