(* ===== verification/Fee.thy ===== *)
theory Fee
  imports Chain Metrics
begin

text \<open>
  The builder's inclusion fee: what is held and when it is served (\<open>fee.rs\<close>), the
  configuration that bounds it (\<open>config.rs\<close>), and the RPC methods that serve it
  (\<open>rpc/ethgas.rs\<close>). reth's own fee oracle, provider and transaction filler are the
  fields of \<open>eth_fees\<close>, an argument of every method.
\<close>

section \<open>The held fee\<close>

record ReceivedInclusionFee =
  rif_inclusion_fee :: InclusionFee
  rif_block_number :: u64
  rif_flashblock_index :: u64
  rif_received_at :: instant

text \<open>\<open>saturating_duration_since\<close>: subtraction on \<open>nat\<close> saturates at zero.\<close>

definition rif_age :: "ReceivedInclusionFee \<Rightarrow> instant \<Rightarrow> duration" where
  "rif_age r now = now - rif_received_at r"

datatype FeeSource = Builder | Fallback

record InclusionPriorityFee =
  ipf_max_priority_fee_per_gas :: u256
  ipf_source :: FeeSource
  ipf_age_ms :: "u64 option"
  ipf_block_number :: "u64 option"
  ipf_flashblock_index :: "u64 option"

definition duration_ms :: "duration \<Rightarrow> u64" where
  "duration_ms d = (let ms = d div 1000000 in if ms < 2 ^ 64 then of_nat ms else - 1)"

definition builder_inclusion_fee ::
    "ReceivedInclusionFee option \<Rightarrow> instant \<Rightarrow> duration \<Rightarrow> u256 \<Rightarrow> InclusionPriorityFee option" where
  "builder_inclusion_fee latest now max_age ceiling =
     (case latest of
        None \<Rightarrow> None
      | Some l \<Rightarrow>
          let age = rif_age l now in
          if age > max_age \<or> priority_fee (rif_inclusion_fee l) > ceiling then None
          else Some \<lparr>ipf_max_priority_fee_per_gas = priority_fee (rif_inclusion_fee l),
                     ipf_source = Builder, ipf_age_ms = Some (duration_ms age),
                     ipf_block_number = Some (rif_block_number l),
                     ipf_flashblock_index = Some (rif_flashblock_index l)\<rparr>)"

definition fallback_inclusion_fee :: "u256 \<Rightarrow> InclusionPriorityFee" where
  "fallback_inclusion_fee fee = \<lparr>ipf_max_priority_fee_per_gas = fee, ipf_source = Fallback,
     ipf_age_ms = None, ipf_block_number = None, ipf_flashblock_index = None\<rparr>"

section \<open>Configuration\<close>

definition DEFAULT_INCLUSION_FEE_MAX_AGE :: duration where
  "DEFAULT_INCLUSION_FEE_MAX_AGE = from_secs 15"

definition DEFAULT_INCLUSION_FEE_CEILING :: u256 where
  "DEFAULT_INCLUSION_FEE_CEILING = 1000000000000"

text \<open>The configuration; the shared state it creates is the state of the processor.\<close>

record FlashblocksConfig =
  websocket_url :: string
  max_pending_blocks_depth :: u64
  subscriber_ping_interval :: duration
  inclusion_fee_max_age :: duration
  inclusion_fee_ceiling :: u256

definition config_new :: "string \<Rightarrow> u64 \<Rightarrow> FlashblocksConfig" where
  "config_new url depth = \<lparr>websocket_url = url, max_pending_blocks_depth = depth,
     subscriber_ping_interval = from_secs 30,
     inclusion_fee_max_age = DEFAULT_INCLUSION_FEE_MAX_AGE,
     inclusion_fee_ceiling = DEFAULT_INCLUSION_FEE_CEILING\<rparr>"

text \<open>A setter whose \<open>assert!\<close> fails panics: \<open>None\<close>.\<close>

definition with_inclusion_fee_max_age ::
    "FlashblocksConfig \<Rightarrow> duration \<Rightarrow> FlashblocksConfig option" where
  "with_inclusion_fee_max_age c d = (if d = 0 then None else Some (c\<lparr>inclusion_fee_max_age := d\<rparr>))"

definition with_inclusion_fee_ceiling :: "FlashblocksConfig \<Rightarrow> u256 \<Rightarrow> FlashblocksConfig" where
  "with_inclusion_fee_ceiling c v = c\<lparr>inclusion_fee_ceiling := v\<rparr>"

definition with_subscriber_ping_interval ::
    "FlashblocksConfig \<Rightarrow> duration \<Rightarrow> FlashblocksConfig option" where
  "with_subscriber_ping_interval c d =
     (if d = 0 then None else Some (c\<lparr>subscriber_ping_interval := d\<rparr>))"

section \<open>The \<open>ethgas\<close> namespace and the fee overrides of \<open>eth\<close>\<close>

record TransactionRequest =
  tq_from :: "address option"
  tq_nonce :: "u64 option"
  tq_gas_price :: "u128 option"
  tq_max_fee_per_gas :: "u128 option"
  tq_max_priority_fee_per_gas :: "u128 option"

text \<open>What the methods call of reth's \<open>eth\<close> API; errors of type \<open>'e\<close>, a filled transaction \<open>'f\<close>.\<close>

record ('e, 'f) eth_fees =
  ef_best_block_number :: "'e + u64"
  ef_suggested_priority_fee :: "'e + u256"
  ef_base_fee :: "'e + u256 option"
  ef_gas_price :: "'e + u256"
  ef_transaction_count :: "address \<Rightarrow> BlockId option \<Rightarrow> 'e + u256"
  ef_fill_transaction :: "TransactionRequest \<Rightarrow> 'e + 'f"

record EthgasApiExt =
  ea_latest_inclusion_fee :: "ReceivedInclusionFee option"
  ea_max_age :: duration
  ea_ceiling :: u256

definition builder_fee ::
    "('e, 'f) eth_fees \<Rightarrow> EthgasApiExt \<Rightarrow> instant \<Rightarrow> InclusionPriorityFee option" where
  "builder_fee eth api now =
     (case ea_latest_inclusion_fee api of
        None \<Rightarrow> None
      | Some latest \<Rightarrow>
          if (case ef_best_block_number eth of Inl _ \<Rightarrow> False | Inr best \<Rightarrow> rif_block_number latest \<le> best)
          then None
          else builder_inclusion_fee (Some latest) now (ea_max_age api) (ea_ceiling api))"

definition inclusion_fee ::
    "('e, 'f) eth_fees \<Rightarrow> EthgasApiExt \<Rightarrow> instant \<Rightarrow> Metrics \<Rightarrow> ('e + InclusionPriorityFee) \<times> Metrics" where
  "inclusion_fee eth api now m =
     (case builder_fee eth api now of
        Some served \<Rightarrow> (Inr served, increment rpc_inclusion_fee_builder m)
      | None \<Rightarrow>
          (case ef_suggested_priority_fee eth of
             Inl e \<Rightarrow> (Inl e, m)
           | Inr suggested \<Rightarrow>
               (Inr (fallback_inclusion_fee suggested), increment rpc_inclusion_fee_fallback m)))"

definition max_priority_fee_per_gas ::
    "('e, 'f) eth_fees \<Rightarrow> EthgasApiExt \<Rightarrow> instant \<Rightarrow> Metrics \<Rightarrow> ('e + u256) \<times> Metrics" where
  "max_priority_fee_per_gas eth api now m =
     (case inclusion_fee eth api now m of
        (Inl e, m') \<Rightarrow> (Inl e, m')
      | (Inr fee, m') \<Rightarrow> (Inr (ipf_max_priority_fee_per_gas fee), m'))"

definition gas_price ::
    "('e, 'f) eth_fees \<Rightarrow> EthgasApiExt \<Rightarrow> instant \<Rightarrow> Metrics \<Rightarrow> ('e + u256) \<times> Metrics" where
  "gas_price eth api now m =
     (case builder_fee eth api now of
        Some served \<Rightarrow>
          (case ef_base_fee eth of
             Inl e \<Rightarrow> (Inl e, m)
           | Inr bf \<Rightarrow>
               (let base_fee = (case bf of None \<Rightarrow> 0 | Some b \<Rightarrow> b) in
                (Inr (sat_add base_fee (ipf_max_priority_fee_per_gas served)),
                 increment rpc_inclusion_fee_builder m)))
      | None \<Rightarrow>
          (case ef_gas_price eth of
             Inl e \<Rightarrow> (Inl e, m)
           | Inr gp \<Rightarrow> (Inr gp, increment rpc_inclusion_fee_fallback m)))"

text \<open>\<open>saturating_to\<close> of a \<open>U256\<close>.\<close>

definition saturating_to :: "u256 \<Rightarrow> 'a::len word" where
  "saturating_to x = (if unat x < 2 ^ LENGTH('a) then of_nat (unat x) else - 1)"

definition fill_nonce ::
    "('e, 'f) eth_fees \<Rightarrow> TransactionRequest \<Rightarrow> 'e + TransactionRequest" where
  "fill_nonce eth rq =
     (case (tq_nonce rq, tq_from rq) of
        (None, Some from) \<Rightarrow>
          (case ef_transaction_count eth from (Some (IdNumber PendingTag)) of
             Inl e \<Rightarrow> Inl e
           | Inr next \<Rightarrow> Inr (rq\<lparr>tq_nonce := Some (saturating_to next)\<rparr>))
      | _ \<Rightarrow> Inr rq)"

definition fill_fee ::
    "('e, 'f) eth_fees \<Rightarrow> EthgasApiExt \<Rightarrow> instant \<Rightarrow> Metrics \<Rightarrow> TransactionRequest
       \<Rightarrow> TransactionRequest \<times> Metrics" where
  "fill_fee eth api now m rq =
     (let sets_no_fee = tq_gas_price rq = None \<and> tq_max_fee_per_gas rq = None
            \<and> tq_max_priority_fee_per_gas rq = None in
      if sets_no_fee then
        (case builder_fee eth api now of
           Some served \<Rightarrow>
             (rq\<lparr>tq_max_priority_fee_per_gas :=
                  Some (saturating_to (ipf_max_priority_fee_per_gas served))\<rparr>,
              increment rpc_inclusion_fee_builder m)
         | None \<Rightarrow> (rq, m))
      else (rq, m))"

definition fill_transaction ::
    "('e, 'f) eth_fees \<Rightarrow> EthgasApiExt \<Rightarrow> instant \<Rightarrow> Metrics \<Rightarrow> TransactionRequest
       \<Rightarrow> ('e + 'f) \<times> Metrics" where
  "fill_transaction eth api now m rq =
     (case fill_nonce eth rq of
        Inl e \<Rightarrow> (Inl e, m)
      | Inr rq1 \<Rightarrow>
          (let (rq2, m') = fill_fee eth api now m rq1 in (ef_fill_transaction eth rq2, m')))"

section \<open>Properties\<close>

lemma builder_inclusion_fee_Some:
  "builder_inclusion_fee latest now max_age ceiling = Some f \<longleftrightarrow>
     (\<exists>l. latest = Some l \<and> rif_age l now \<le> max_age \<and> priority_fee (rif_inclusion_fee l) \<le> ceiling
        \<and> f = \<lparr>ipf_max_priority_fee_per_gas = priority_fee (rif_inclusion_fee l),
               ipf_source = Builder, ipf_age_ms = Some (duration_ms (rif_age l now)),
               ipf_block_number = Some (rif_block_number l),
               ipf_flashblock_index = Some (rif_flashblock_index l)\<rparr>)"
  by (auto simp: builder_inclusion_fee_def Let_def not_less split: option.splits)

lemma duration_ms_bound: "unat (duration_ms d) = min (d div 1000000) (2 ^ 64 - 1)"
proof (cases "d div 1000000 < 2 ^ 64")
  case True
  then show ?thesis by (simp add: duration_ms_def Let_def unat_of_nat)
next
  case False
  moreover have "unat (- 1 :: u64) = 2 ^ 64 - 1" by (simp add: unsigned_minus_1_eq_mask mask_eq_exp_minus_1)
  ultimately show ?thesis by (simp add: duration_ms_def Let_def min_def)
qed

lemma unat_saturating_to:
  "unat (saturating_to x :: 'a::len word) = min (unat x) (2 ^ LENGTH('a) - 1)"
proof (cases "unat x < 2 ^ LENGTH('a)")
  case True
  then have "unat (of_nat (unat x) :: 'a word) = unat x"
    by (simp only: unat_of_nat mod_less)
  then have "unat (saturating_to x :: 'a word) = unat x"
    using True by (simp only: saturating_to_def if_True)
  with True show ?thesis by linarith
next
  case False
  then have "saturating_to x = (- 1 :: 'a word)" by (simp only: saturating_to_def if_False)
  moreover have "unat (- 1 :: 'a word) = 2 ^ LENGTH('a) - 1"
    by (simp add: unsigned_minus_1_eq_mask mask_eq_exp_minus_1)
  ultimately have "unat (saturating_to x :: 'a word) = 2 ^ LENGTH('a) - 1" by (simp only:)
  with False show ?thesis by linarith
qed

lemma builder_fee_Some:
  "builder_fee eth api now = Some f \<longleftrightarrow>
     (\<exists>l. ea_latest_inclusion_fee api = Some l
        \<and> (\<forall>best. ef_best_block_number eth = Inr best \<longrightarrow> best < rif_block_number l)
        \<and> builder_inclusion_fee (Some l) now (ea_max_age api) (ea_ceiling api) = Some f)"
  by (auto simp: builder_fee_def not_le split: option.splits sum.splits)

text \<open>
  C29. The served fee: \<open>ethgas_inclusionPriorityFee\<close> answers with the builder's value exactly
  when one is held, its block is not yet canonical as far as the node can read, its age is
  at most the maximum and it is at most the ceiling; the answer is then the held value
  with its block and index, and otherwise reth's own suggestion or its error.
\<close>

theorem inclusion_fee_served:
  "fst (inclusion_fee eth api now m) =
     (case ea_latest_inclusion_fee api of
        Some l \<Rightarrow>
          if (case ef_best_block_number eth of Inl _ \<Rightarrow> True | Inr best \<Rightarrow> unat best < unat (rif_block_number l))
            \<and> now \<le> rif_received_at l + ea_max_age api
            \<and> priority_fee (rif_inclusion_fee l) \<le> ea_ceiling api
          then Inr \<lparr>ipf_max_priority_fee_per_gas = priority_fee (rif_inclusion_fee l),
                   ipf_source = Builder,
                   ipf_age_ms = Some (duration_ms (now - rif_received_at l)),
                   ipf_block_number = Some (rif_block_number l),
                   ipf_flashblock_index = Some (rif_flashblock_index l)\<rparr>
          else (case ef_suggested_priority_fee eth of Inl e \<Rightarrow> Inl e | Inr s \<Rightarrow> Inr (fallback_inclusion_fee s))
      | None \<Rightarrow> (case ef_suggested_priority_fee eth of Inl e \<Rightarrow> Inl e | Inr s \<Rightarrow> Inr (fallback_inclusion_fee s)))"
  by (auto simp: inclusion_fee_def builder_fee_def builder_inclusion_fee_def rif_age_def Let_def
      word_le_nat_alt word_less_nat_alt le_diff_conv add.commute split: option.splits sum.splits)

text \<open>
  \<open>eth_gasPrice\<close> with a builder fee never wraps: it is the sum of the next base fee and
  the served fee, capped at \<open>U256::MAX\<close>, and never below either of them.
\<close>

theorem gas_price_saturates:
  assumes "builder_fee eth api now = Some f" and "ef_base_fee eth = Inr (Some b)"
  shows "\<exists>p. fst (gas_price eth api now m) = Inr p
    \<and> unat p = min (unat b + unat (ipf_max_priority_fee_per_gas f)) (2 ^ 256 - 1)
    \<and> b \<le> p \<and> ipf_max_priority_fee_per_gas f \<le> p"
proof -
  let ?p = "sat_add b (ipf_max_priority_fee_per_gas f)"
  have u: "unat ?p = min (unat b + unat (ipf_max_priority_fee_per_gas f)) (2 ^ 256 - 1)"
    using unat_sat_add [of b "ipf_max_priority_fee_per_gas f"] by simp
  have "unat b < 2 ^ 256" "unat (ipf_max_priority_fee_per_gas f) < 2 ^ 256"
    using unsigned_less [of b] unsigned_less [of "ipf_max_priority_fee_per_gas f"] by simp_all
  with u have "b \<le> ?p" "ipf_max_priority_fee_per_gas f \<le> ?p"
    by (auto simp: word_le_nat_alt)
  with u assms show ?thesis by (simp add: gas_price_def)
qed

text \<open>The fee held in the witnesses: 2 gwei for block 10, received at second 1.\<close>

definition example_fees :: "(nat, TransactionRequest) eth_fees" where
  "example_fees = \<lparr>ef_best_block_number = Inr 9, ef_suggested_priority_fee = Inr 7,
     ef_base_fee = Inr (Some 5), ef_gas_price = Inr 11, ef_transaction_count = (\<lambda>_ _. Inr 3),
     ef_fill_transaction = Inr\<rparr>"

definition example_fee_api :: EthgasApiExt where
  "example_fee_api = \<lparr>ea_latest_inclusion_fee = Some \<lparr>rif_inclusion_fee = \<lparr>priority_fee = 2000000000\<rparr>,
       rif_block_number = 10, rif_flashblock_index = 4, rif_received_at = from_secs 1\<rparr>,
     ea_max_age = DEFAULT_INCLUSION_FEE_MAX_AGE, ea_ceiling = DEFAULT_INCLUSION_FEE_CEILING\<rparr>"

lemma example_builder_fee:
  "builder_fee example_fees example_fee_api (from_secs 16) =
     Some \<lparr>ipf_max_priority_fee_per_gas = 2000000000, ipf_source = Builder, ipf_age_ms = Some 15000,
           ipf_block_number = Some 10, ipf_flashblock_index = Some 4\<rparr>"
  by (simp add: builder_fee_def builder_inclusion_fee_def example_fees_def example_fee_api_def
      DEFAULT_INCLUSION_FEE_MAX_AGE_def DEFAULT_INCLUSION_FEE_CEILING_def from_secs_def rif_age_def
      duration_ms_def Let_def)

theorem gas_price_saturates_witness:
  "\<exists>p. fst (gas_price example_fees example_fee_api (from_secs 16) metrics_default) = Inr p
     \<and> unat p = 2000000005"
proof -
  have "ef_base_fee example_fees = Inr (Some 5)" by (simp add: example_fees_def)
  from gas_price_saturates [OF example_builder_fee this, of metrics_default]
  show ?thesis by auto
qed

text \<open>
  \<open>eth_fillTransaction\<close> hands reth the request with nothing overwritten: a fee the
  request sets stays, a nonce it sets stays, a missing nonce becomes the pending count of
  the sender, and only a request without any fee gets the builder's fee.
\<close>

theorem fill_transaction_request:
  assumes "\<And>a. \<exists>n. ef_transaction_count eth a (Some (IdNumber PendingTag)) = Inr n"
  shows "\<exists>rq'. fst (fill_transaction eth api now m rq) = ef_fill_transaction eth rq'
    \<and> tq_from rq' = tq_from rq
    \<and> tq_gas_price rq' = tq_gas_price rq \<and> tq_max_fee_per_gas rq' = tq_max_fee_per_gas rq
    \<and> tq_nonce rq' = (case (tq_nonce rq, tq_from rq) of
         (None, Some a) \<Rightarrow> map_option saturating_to (res_ok (ef_transaction_count eth a (Some (IdNumber PendingTag))))
       | _ \<Rightarrow> tq_nonce rq)
    \<and> tq_max_priority_fee_per_gas rq' =
        (if tq_gas_price rq = None \<and> tq_max_fee_per_gas rq = None \<and> tq_max_priority_fee_per_gas rq = None
         then map_option (\<lambda>f. saturating_to (ipf_max_priority_fee_per_gas f)) (builder_fee eth api now)
         else tq_max_priority_fee_per_gas rq)"
proof -
  define nonce where "nonce = (case (tq_nonce rq, tq_from rq) of
         (None, Some a) \<Rightarrow> map_option saturating_to (res_ok (ef_transaction_count eth a (Some (IdNumber PendingTag))))
       | _ \<Rightarrow> tq_nonce rq)"
  define rq1 where "rq1 = rq\<lparr>tq_nonce := nonce\<rparr>"
  have rq1: "fill_nonce eth rq = Inr rq1"
  proof (cases "tq_nonce rq"; cases "tq_from rq")
    fix a assume a: "tq_nonce rq = None" "tq_from rq = Some a"
    obtain n where "ef_transaction_count eth a (Some (IdNumber PendingTag)) = Inr n"
      using assms by blast
    with a show ?thesis by (simp add: fill_nonce_def rq1_def nonce_def)
  qed (simp_all add: fill_nonce_def rq1_def nonce_def)
  define rq2 where "rq2 = fst (fill_fee eth api now m rq1)"
  have "fst (fill_transaction eth api now m rq) = ef_fill_transaction eth rq2"
    using rq1 by (simp add: fill_transaction_def rq2_def case_prod_beta Let_def)
  moreover have "tq_from rq2 = tq_from rq" "tq_gas_price rq2 = tq_gas_price rq"
    "tq_max_fee_per_gas rq2 = tq_max_fee_per_gas rq" "tq_nonce rq2 = nonce"
    "tq_max_priority_fee_per_gas rq2 =
        (if tq_gas_price rq = None \<and> tq_max_fee_per_gas rq = None \<and> tq_max_priority_fee_per_gas rq = None
         then map_option (\<lambda>f. saturating_to (ipf_max_priority_fee_per_gas f)) (builder_fee eth api now)
         else tq_max_priority_fee_per_gas rq)"
    by (auto simp: rq2_def fill_fee_def rq1_def Let_def split: option.splits)
  ultimately show ?thesis by (intro exI [of _ rq2]) (simp add: nonce_def)
qed

theorem fill_transaction_request_witness:
  "\<exists>rq'. fst (fill_transaction example_fees example_fee_api (from_secs 16) metrics_default
       \<lparr>tq_from = Some 1, tq_nonce = None, tq_gas_price = None, tq_max_fee_per_gas = None,
        tq_max_priority_fee_per_gas = None\<rparr>) = Inr rq'
     \<and> tq_nonce rq' = Some 3 \<and> tq_max_priority_fee_per_gas rq' = Some 2000000000"
proof -
  let ?rq = "\<lparr>tq_from = Some 1, tq_nonce = None, tq_gas_price = None, tq_max_fee_per_gas = None,
        tq_max_priority_fee_per_gas = None\<rparr>"
  have c: "ef_transaction_count example_fees a b = Inr 3" and f: "ef_fill_transaction example_fees = Inr"
    for a b by (simp_all add: example_fees_def)
  have s: "saturating_to (3 :: u256) = (3 :: u64)" "saturating_to (2000000000 :: u256) = (2000000000 :: u128)"
    by (simp_all add: saturating_to_def)
  obtain rq' where "fst (fill_transaction example_fees example_fee_api (from_secs 16) metrics_default ?rq)
      = ef_fill_transaction example_fees rq'"
    and "tq_nonce rq' = Some 3" and "tq_max_priority_fee_per_gas rq' = Some 2000000000"
    using fill_transaction_request [of example_fees example_fee_api "from_secs 16" metrics_default ?rq]
    by (auto simp: example_builder_fee c s)
  then show ?thesis by (auto simp: f)
qed

end
