(* ===== verification/Cache.thy ===== *)
theory Cache
  imports Payload
begin

text \<open>
  The cache of \<open>cache.rs\<close> for flashblocks that arrive before their canonical parent. Both
  hash maps are association lists with distinct keys, so that \<open>len\<close>, \<open>retain\<close> and
  \<open>into_values\<close> read what the code reads; \<open>canonical + 5 + 1\<close> wraps as on \<open>u64\<close>.
\<close>

section \<open>Model\<close>

definition MAX_CACHE_AHEAD_BLOCKS :: u64 where
  "MAX_CACHE_AHEAD_BLOCKS = 5"

type_synonym by_index = "(u64 \<times> FlashBlock) list"

record FlashblockCache =
  cache_entries :: "(u64 \<times> by_index) list"
  latest_canonical :: "u64 option"

definition cache_new :: "u64 \<Rightarrow> FlashblockCache" where
  "cache_new n = \<lparr>cache_entries = [], latest_canonical = Some n\<rparr>"

definition has_flashblock :: "FlashblockCache \<Rightarrow> u64 \<Rightarrow> u64 \<Rightarrow> bool" where
  "has_flashblock c bn i =
     (case map_of (cache_entries c) bn of
        None \<Rightarrow> False
      | Some by_index \<Rightarrow> map_of by_index i \<noteq> None)"

definition is_cacheable :: "FlashblockCache \<Rightarrow> u64 \<Rightarrow> bool" where
  "is_cacheable c bn =
     (case latest_canonical c of
        Some canonical \<Rightarrow> bn \<le> canonical + MAX_CACHE_AHEAD_BLOCKS + 1
      | None \<Rightarrow> False)"

definition entry_or_default :: "(u64 \<times> by_index) list \<Rightarrow> u64 \<Rightarrow> by_index" where
  "entry_or_default es bn = (case map_of es bn of None \<Rightarrow> [] | Some by_index \<Rightarrow> by_index)"

definition cache_insert :: "FlashblockCache \<Rightarrow> FlashBlock \<Rightarrow> bool \<times> FlashblockCache" where
  "cache_insert c fb =
     (let bn = md_block_number (fb_metadata fb) in
      if \<not> is_cacheable c bn then (False, c)
      else
        let min_retain = sat_sub bn MAX_CACHE_AHEAD_BLOCKS;
            es = filter (\<lambda>e. fst e > min_retain) (cache_entries c);
            es' = AList.update bn (AList.update (fb_index fb) fb (entry_or_default es bn)) es
        in (True, c\<lparr>cache_entries := es'\<rparr>))"

definition cache_drain :: "FlashblockCache \<Rightarrow> u64 \<Rightarrow> FlashBlock list \<times> FlashblockCache" where
  "cache_drain c bn =
     (case map_of (cache_entries c) bn of
        None \<Rightarrow> ([], c)
      | Some by_index \<Rightarrow>
          (sort_key fb_index (map snd by_index),
           c\<lparr>cache_entries := AList.delete bn (cache_entries c)\<rparr>))"

definition update_canonical :: "FlashblockCache \<Rightarrow> u64 \<Rightarrow> FlashblockCache" where
  "update_canonical c bn =
     c\<lparr>latest_canonical := Some bn,
       cache_entries := filter (\<lambda>e. fst e > bn) (cache_entries c)\<rparr>"

definition cache_len :: "FlashblockCache \<Rightarrow> nat" where
  "cache_len c = length (cache_entries c)"

definition cache_is_empty :: "FlashblockCache \<Rightarrow> bool" where
  "cache_is_empty c = (cache_entries c = [])"

definition total_flashblocks :: "FlashblockCache \<Rightarrow> nat" where
  "total_flashblocks c = sum_list (map (length \<circ> snd) (cache_entries c))"

section \<open>The invariant and the abstract view\<close>

text \<open>
  Block numbers and indices are unique keys, every stored flashblock lies under its own
  block number and index, and no block has an empty bucket.
\<close>

definition wf_bucket :: "u64 \<Rightarrow> by_index \<Rightarrow> bool" where
  "wf_bucket bn b \<longleftrightarrow> b \<noteq> [] \<and> distinct (map fst b)
     \<and> (\<forall>e \<in> set b. fb_index (snd e) = fst e \<and> block_number_of (snd e) = bn)"

definition wf_cache :: "FlashblockCache \<Rightarrow> bool" where
  "wf_cache c \<longleftrightarrow> distinct (map fst (cache_entries c))
     \<and> (\<forall>e \<in> set (cache_entries c). wf_bucket (fst e) (snd e))"

text \<open>What a cache holds: the flashblock under a block number and an index.\<close>

definition cached :: "FlashblockCache \<Rightarrow> u64 \<Rightarrow> u64 \<Rightarrow> FlashBlock option" where
  "cached c bn i =
     (case map_of (cache_entries c) bn of None \<Rightarrow> None | Some b \<Rightarrow> map_of b i)"

lemma has_flashblock_cached: "has_flashblock c bn i \<longleftrightarrow> cached c bn i \<noteq> None"
  by (simp add: has_flashblock_def cached_def split: option.split)

lemma cache_new_sel [simp]:
  "cache_entries (cache_new n) = []" "latest_canonical (cache_new n) = Some n"
  by (simp_all add: cache_new_def)

lemma is_cacheable_new [simp]: "is_cacheable (cache_new n) bn \<longleftrightarrow> bn \<le> n + 6"
  by (simp add: is_cacheable_def MAX_CACHE_AHEAD_BLOCKS_def add.assoc)

lemma wf_cache_new [simp]: "wf_cache (cache_new n)"
  by (simp add: wf_cache_def cache_new_def)

lemma wf_cache_bucket:
  "wf_cache c \<Longrightarrow> map_of (cache_entries c) bn = Some b \<Longrightarrow> wf_bucket bn b"
  by (fastforce simp: wf_cache_def dest: map_of_SomeD)

lemma wf_cache_filter:
  "wf_cache c \<Longrightarrow> wf_cache (c\<lparr>cache_entries := filter P (cache_entries c)\<rparr>)"
  by (auto simp: wf_cache_def distinct_keys_filter)

lemma wf_bucket_update:
  assumes "b = [] \<or> wf_bucket bn b" and "block_number_of fb = bn"
  shows "wf_bucket bn (AList.update (fb_index fb) fb b)"
proof -
  have d: "distinct (map fst b)" using assms(1) by (auto simp: wf_bucket_def)
  then have "distinct (map fst (AList.update (fb_index fb) fb b))" by (rule distinct_update)
  moreover have "AList.update (fb_index fb) fb b \<noteq> []" by (cases b) auto
  ultimately show ?thesis
    using assms set_update [OF d, of "fb_index fb" fb] by (auto simp: wf_bucket_def)
qed

lemma wf_cache_update:
  assumes "wf_cache c" and "wf_bucket bn b"
  shows "wf_cache (c\<lparr>cache_entries := AList.update bn b (cache_entries c)\<rparr>)"
proof -
  have d: "distinct (map fst (cache_entries c))" using assms(1) by (simp add: wf_cache_def)
  show ?thesis
    using assms by (auto simp: wf_cache_def distinct_update [OF d] set_update [OF d])
qed

lemma wf_cache_insert:
  assumes "wf_cache c"
  shows "wf_cache (snd (cache_insert c fb))"
proof -
  let ?bn = "md_block_number (fb_metadata fb)"
  let ?es = "filter (\<lambda>e. fst e > sat_sub ?bn MAX_CACHE_AHEAD_BLOCKS) (cache_entries c)"
  have wf: "wf_cache (c\<lparr>cache_entries := ?es\<rparr>)" by (rule wf_cache_filter [OF assms])
  have "entry_or_default ?es ?bn = [] \<or> wf_bucket ?bn (entry_or_default ?es ?bn)"
    using wf_cache_bucket [OF wf] by (auto simp: entry_or_default_def split: option.split)
  then have "wf_bucket ?bn (AList.update (fb_index fb) fb (entry_or_default ?es ?bn))"
    by (rule wf_bucket_update) (simp add: block_number_of_def)
  from wf_cache_update [OF wf this] show ?thesis
    using assms by (simp add: cache_insert_def Let_def)
qed

lemma wf_cache_drain: "wf_cache c \<Longrightarrow> wf_cache (snd (cache_drain c bn))"
  by (auto simp: cache_drain_def wf_cache_def distinct_delete set_delete split: option.split)

lemma wf_update_canonical: "wf_cache c \<Longrightarrow> wf_cache (update_canonical c n)"
  by (auto simp: update_canonical_def wf_cache_def distinct_keys_filter)

section \<open>Behaviour of the operations on the abstract view\<close>

lemma latest_canonical_insert [simp]: "latest_canonical (snd (cache_insert c fb)) = latest_canonical c"
  by (simp add: cache_insert_def Let_def)

lemma latest_canonical_drain [simp]: "latest_canonical (snd (cache_drain c bn)) = latest_canonical c"
  by (simp add: cache_drain_def split: option.split)

lemma cached_new [simp]: "cached (cache_new n) bn i = None"
  by (simp add: cached_def cache_new_def)

lemma cached_update_canonical:
  "cached (update_canonical c n) bn i = (if bn > n then cached c bn i else None)"
  by (simp add: cached_def update_canonical_def map_of_filter_key)

lemma cached_insert_rejected:
  "\<not> is_cacheable c (block_number_of fb) \<Longrightarrow> cache_insert c fb = (False, c)"
  by (simp add: cache_insert_def block_number_of_def)

lemma cached_insert:
  assumes "is_cacheable c (block_number_of fb)"
  shows "cached (snd (cache_insert c fb)) bn i =
    (if bn = block_number_of fb \<and> i = fb_index fb then Some fb
     else if bn = block_number_of fb \<or> bn > sat_sub (block_number_of fb) MAX_CACHE_AHEAD_BLOCKS
       then (if bn > sat_sub (block_number_of fb) MAX_CACHE_AHEAD_BLOCKS then cached c bn i else None)
     else None)"
  using assms
  by (auto simp: cache_insert_def cached_def block_number_of_def Let_def update_conv'
      entry_or_default_def map_of_filter_key split: option.split)

lemma cached_drain:
  "cached (snd (cache_drain c bn)) b i = (if b = bn then None else cached c b i)"
  by (auto simp: cache_drain_def cached_def delete_conv' split: option.split)

lemma cached_block: "wf_cache c \<Longrightarrow> cached c bn i = Some fb \<Longrightarrow> block_number_of fb = bn \<and> fb_index fb = i"
  by (fastforce simp: cached_def wf_bucket_def split: option.splits
      dest: wf_cache_bucket map_of_SomeD)

lemma drain_set:
  assumes "wf_cache c"
  shows "set (fst (cache_drain c bn)) = {fb. \<exists>i. cached c bn i = Some fb}"
proof (cases "map_of (cache_entries c) bn")
  case None
  then show ?thesis by (simp add: cache_drain_def cached_def)
next
  case (Some b)
  then have "distinct (map fst b)" using wf_cache_bucket [OF assms] by (auto simp: wf_bucket_def)
  with Some show ?thesis by (force simp: cache_drain_def cached_def map_of_mem)
qed

lemma drain_sorted:
  assumes "wf_cache c"
  shows "sorted_wrt (\<lambda>a b. fb_index a < fb_index b) (fst (cache_drain c bn))"
proof (cases "map_of (cache_entries c) bn")
  case None
  then show ?thesis by (simp add: cache_drain_def)
next
  case (Some b)
  then have wf: "wf_bucket bn b" using wf_cache_bucket [OF assms] by simp
  then have "map fb_index (map snd b) = map fst b" by (auto simp: wf_bucket_def)
  then have "distinct (map fb_index (map snd b))" using wf by (simp only: wf_bucket_def)
  then have "distinct (map fb_index (sort_key fb_index (map snd b)))"
    using distinct_map by (metis distinct_sort set_sort)
  then have "sorted_wrt (\<lambda>a b. fb_index a < fb_index b) (sort_key fb_index (map snd b))"
    by (intro sorted_distinct_map_strict) simp_all
  with Some show ?thesis by (simp add: cache_drain_def)
qed

section \<open>The interface the processor relies on\<close>

text \<open>
  A store of early flashblocks: what is put is held under its block and index, taking a
  block returns exactly what is held for it in index order, and takes nothing else.
\<close>

locale flashblock_store =
  fixes ok :: "'s \<Rightarrow> bool"
    and held :: "'s \<Rightarrow> u64 \<Rightarrow> u64 \<Rightarrow> FlashBlock option"
    and put :: "'s \<Rightarrow> FlashBlock \<Rightarrow> bool \<times> 's"
    and take_all :: "'s \<Rightarrow> u64 \<Rightarrow> FlashBlock list \<times> 's"
  assumes put_ok: "ok s \<Longrightarrow> ok (snd (put s fb))"
    and take_ok: "ok s \<Longrightarrow> ok (snd (take_all s bn))"
    and put_rejected: "\<not> fst (put s fb) \<Longrightarrow> snd (put s fb) = s"
    and put_held: "fst (put s fb) \<Longrightarrow> held (snd (put s fb)) (block_number_of fb) (fb_index fb) = Some fb"
    and put_adds_only: "held (snd (put s fb)) bn i = Some x \<Longrightarrow> x = fb \<or> held s bn i = Some x"
    and held_place: "ok s \<Longrightarrow> held s bn i = Some fb \<Longrightarrow> block_number_of fb = bn \<and> fb_index fb = i"
    and take_set: "ok s \<Longrightarrow> set (fst (take_all s bn)) = {fb. \<exists>i. held s bn i = Some fb}"
    and take_sorted: "ok s \<Longrightarrow> sorted_wrt (\<lambda>a b. fb_index a < fb_index b) (fst (take_all s bn))"
    and take_held: "held (snd (take_all s bn)) b i = (if b = bn then None else held s b i)"
begin

lemma take_blocks: "ok s \<Longrightarrow> fb \<in> set (fst (take_all s bn)) \<Longrightarrow> block_number_of fb = bn"
  by (auto simp: take_set dest: held_place)

lemma take_once: "ok s \<Longrightarrow> fst (take_all (snd (take_all s bn)) bn) = []"
  using take_set [OF take_ok, of s bn bn] by (simp add: take_held)

lemma put_take:
  "ok s \<Longrightarrow> fst (put s fb) \<Longrightarrow> fb \<in> set (fst (take_all (snd (put s fb)) (block_number_of fb)))"
  by (auto simp: take_set put_ok dest: put_held)

lemma put_replaces:
  assumes "ok s" and "fst (put s fb)"
    and "x \<in> set (fst (take_all (snd (put s fb)) (block_number_of fb)))" and "fb_index x = fb_index fb"
  shows "x = fb"
proof -
  obtain i where i: "held (snd (put s fb)) (block_number_of fb) i = Some x"
    using assms(1,3) by (auto simp: take_set put_ok)
  then have "fb_index x = i" using held_place [OF put_ok [OF assms(1)]] by blast
  with i show ?thesis using assms(2,4) put_held by fastforce
qed

lemma take_puts_only:
  "ok s \<Longrightarrow> x \<in> set (fst (take_all (snd (put s fb)) bn)) \<Longrightarrow>
     x = fb \<or> x \<in> set (fst (take_all s bn))"
  by (auto simp: take_set put_ok dest!: put_adds_only)

end

lemma cache_insert_accepts: "fst (cache_insert c fb) \<longleftrightarrow> is_cacheable c (block_number_of fb)"
  by (simp add: cache_insert_def block_number_of_def Let_def)

interpretation store: flashblock_store wf_cache cached cache_insert cache_drain
proof
  fix c :: FlashblockCache and fb x bn i b
  show "wf_cache c \<Longrightarrow> wf_cache (snd (cache_insert c fb))" by (rule wf_cache_insert)
  show "wf_cache c \<Longrightarrow> wf_cache (snd (cache_drain c bn))" by (rule wf_cache_drain)
  show "\<not> fst (cache_insert c fb) \<Longrightarrow> snd (cache_insert c fb) = c"
    by (simp add: cache_insert_accepts cached_insert_rejected)
  show "fst (cache_insert c fb) \<Longrightarrow>
      cached (snd (cache_insert c fb)) (block_number_of fb) (fb_index fb) = Some fb"
    by (simp add: cache_insert_accepts cached_insert)
  show "cached (snd (cache_insert c fb)) bn i = Some x \<Longrightarrow> x = fb \<or> cached c bn i = Some x"
    by (cases "is_cacheable c (block_number_of fb)")
      (auto simp: cached_insert cached_insert_rejected split: if_splits)
  show "wf_cache c \<Longrightarrow> cached c bn i = Some fb \<Longrightarrow> block_number_of fb = bn \<and> fb_index fb = i"
    by (rule cached_block)
  show "wf_cache c \<Longrightarrow> set (fst (cache_drain c bn)) = {fb. \<exists>i. cached c bn i = Some fb}"
    by (rule drain_set)
  show "wf_cache c \<Longrightarrow> sorted_wrt (\<lambda>a b. fb_index a < fb_index b) (fst (cache_drain c bn))"
    by (rule drain_sorted)
  show "cached (snd (cache_drain c bn)) b i = (if b = bn then None else cached c b i)"
    by (rule cached_drain)
qed

section \<open>Reachable caches\<close>

inductive cache_step :: "FlashblockCache \<Rightarrow> FlashblockCache \<Rightarrow> bool" where
  step_insert: "cache_step c (snd (cache_insert c fb))"
| step_drain: "cache_step c (snd (cache_drain c bn))"
| step_canonical: "cache_step c (update_canonical c n)"

inductive_cases cache_step_cases: "cache_step c d"

lemma cache_step_wf: "wf_cache c \<Longrightarrow> cache_step c d \<Longrightarrow> wf_cache d"
  by (auto elim!: cache_step_cases intro: wf_cache_insert wf_cache_drain wf_update_canonical)

interpretation cache_sys: transition_system
  "\<lambda>c. \<exists>n. c = cache_new n" cache_step wf_cache
  by unfold_locales (auto intro: cache_step_wf)

text \<open>
  C16. Drain is exact in every cache that the operations can produce: it returns the
  flashblocks held for the block and nothing else, all of them of that block, strictly
  ascending by index; afterwards the block has none and every other block is untouched.
\<close>

theorem drain_exact:
  assumes "cache_step\<^sup>*\<^sup>* (cache_new n) c"
  shows "set (fst (cache_drain c bn)) = {fb. \<exists>i. cached c bn i = Some fb}
    \<and> (\<forall>fb. fb \<in> set (fst (cache_drain c bn)) \<longrightarrow> block_number_of fb = bn)
    \<and> sorted_wrt (\<lambda>a b. fb_index a < fb_index b) (fst (cache_drain c bn))
    \<and> (\<forall>b i. cached (snd (cache_drain c bn)) b i = (if b = bn then None else cached c b i))"
proof -
  have "wf_cache c" using assms by (blast intro: cache_sys.reachable_inv)
  then show ?thesis
    by (simp add: store.take_set store.take_sorted store.take_held) (blast dest: store.held_place)
qed

theorem drain_exact_witness:
  "fb_index ` set (fst (cache_drain (snd (cache_insert (snd (cache_insert (cache_new 7)
     (make_flashblock 9 1))) (make_flashblock 9 0))) 9)) = {0, 1}"
proof -
  let ?a = "snd (cache_insert (cache_new 7) (make_flashblock 9 1))"
  let ?c = "snd (cache_insert ?a (make_flashblock 9 0))"
  have "cache_step\<^sup>*\<^sup>* (cache_new 7) ?c"
    by (meson cache_step.step_insert rtranclp.rtrancl_into_rtrancl rtranclp.rtrancl_refl)
  from drain_exact [OF this, of 9]
  have "fb_index ` set (fst (cache_drain ?c 9)) = fb_index ` {fb. \<exists>i. cached ?c 9 i = Some fb}"
    by simp
  moreover have "is_cacheable ?a 9"
    by (simp add: is_cacheable_def MAX_CACHE_AHEAD_BLOCKS_def)
  then have "cached ?c 9 i = (if i = 0 then Some (make_flashblock 9 0)
      else if i = 1 then Some (make_flashblock 9 1) else None)" for i
    by (simp add: cached_insert MAX_CACHE_AHEAD_BLOCKS_def sat_sub_def)
  then have "{fb. \<exists>i. cached ?c 9 i = Some fb} = {make_flashblock 9 0, make_flashblock 9 1}"
    by (auto split: if_splits) (metis one_neq_zero)
  ultimately show ?thesis by simp
qed

text \<open>
  Insert and drain round trip: an accepted flashblock is in the next drain of its
  block, replaces an earlier one with its index, the drain adds nothing that was not
  there before, and a second drain is empty.
\<close>

theorem insert_drain_roundtrip:
  assumes "wf_cache c" and "is_cacheable c (block_number_of fb)"
  defines "d \<equiv> cache_drain (snd (cache_insert c fb)) (block_number_of fb)"
  shows "fb \<in> set (fst d)
    \<and> (\<forall>x. x \<in> set (fst d) \<and> fb_index x = fb_index fb \<longrightarrow> x = fb)
    \<and> (\<forall>x. x \<in> set (fst d) \<longrightarrow> x = fb \<or> x \<in> set (fst (cache_drain c (block_number_of fb))))
    \<and> fst (cache_drain (snd d) (block_number_of fb)) = []"
proof -
  have acc: "fst (cache_insert c fb)" using assms(2) by (simp add: cache_insert_accepts)
  have "fb \<in> set (fst d)" unfolding d_def by (rule store.put_take [OF assms(1) acc])
  moreover have "\<forall>x. x \<in> set (fst d) \<and> fb_index x = fb_index fb \<longrightarrow> x = fb"
    unfolding d_def using store.put_replaces [OF assms(1) acc] by blast
  moreover have "\<forall>x. x \<in> set (fst d) \<longrightarrow> x = fb \<or> x \<in> set (fst (cache_drain c (block_number_of fb)))"
    unfolding d_def using store.take_puts_only [OF assms(1)] by blast
  moreover have "fst (cache_drain (snd d) (block_number_of fb)) = []"
    unfolding d_def by (rule store.take_once [OF wf_cache_insert [OF assms(1)]])
  ultimately show ?thesis by blast
qed

theorem insert_drain_roundtrip_witness:
  "make_flashblock 9 3 \<in> set (fst (cache_drain (snd (cache_insert (cache_new 7) (make_flashblock 9 3))) 9))"
  using insert_drain_roundtrip [of "cache_new 7" "make_flashblock 9 3"] by simp

section \<open>The window of cached blocks\<close>

text \<open>
  The blocks a cache holds lie above the canonical block and at most
  \<open>MAX_CACHE_AHEAD_BLOCKS + 1\<close> above it.
\<close>

definition cache_window :: "FlashblockCache \<Rightarrow> bool" where
  "cache_window c \<longleftrightarrow>
     (\<exists>n. latest_canonical c = Some n \<and>
        (\<forall>bn \<in> fst ` set (cache_entries c). unat n < unat bn \<and> unat bn \<le> unat n + 6))"

lemma is_cacheable_iff:
  assumes "latest_canonical c = Some n" and "unat n < 2 ^ 64 - 6"
  shows "is_cacheable c bn \<longleftrightarrow> unat bn \<le> unat n + 6"
proof -
  have e: "n + MAX_CACHE_AHEAD_BLOCKS + 1 = n + 6" by (simp add: MAX_CACHE_AHEAD_BLOCKS_def)
  have "unat (n + 6) = unat n + 6"
    using assms(2) unat_add_small [of n 6] by simp
  then show ?thesis using assms(1) by (simp only: is_cacheable_def option.case e word_le_nat_alt)
qed

lemma keys_insert:
  "is_cacheable c (block_number_of fb) \<Longrightarrow>
   fst ` set (cache_entries (snd (cache_insert c fb))) =
     insert (block_number_of fb)
       {bn \<in> fst ` set (cache_entries c). sat_sub (block_number_of fb) MAX_CACHE_AHEAD_BLOCKS < bn}"
  by (auto simp: cache_insert_def block_number_of_def Let_def fst_set_update)

lemma window_len:
  assumes "wf_cache c" and "cache_window c"
  shows "cache_len c \<le> 6"
proof -
  obtain n :: u64 where n: "\<forall>bn \<in> fst ` set (cache_entries c). unat n < unat bn \<and> unat bn \<le> unat n + 6"
    using assms(2) unfolding cache_window_def by blast
  have "cache_len c = card (fst ` set (cache_entries c))"
    using assms(1) distinct_card [of "map fst (cache_entries c)"]
    by (simp add: wf_cache_def cache_len_def)
  also have "\<dots> = card (unat ` (fst ` set (cache_entries c)))"
    by (rule card_image [symmetric]) (simp add: inj_on_def word_unat_eq_iff)
  also have "\<dots> \<le> card {unat n + 1 .. unat n + 6}"
    using n by (intro card_mono) auto
  finally show ?thesis by simp
qed

text \<open>
  The cache stays inside the window: from a window cache, inserting a flashblock above
  the canonical block, draining, and moving the canonical block forward keep every cached
  block within six of the canonical block, so at most six blocks are ever held. (Canonical
  numbers are below \<open>2^64 - 6\<close>: past that \<open>canonical + 6\<close> wraps.)
\<close>

theorem cache_window_kept:
  assumes "wf_cache c" and "cache_window c" and "latest_canonical c = Some n"
    and "unat n < 2 ^ 64 - 6" and "n < block_number_of fb" and "n \<le> m"
  shows "cache_window (snd (cache_insert c fb)) \<and> cache_len (snd (cache_insert c fb)) \<le> 6
    \<and> cache_window (snd (cache_drain c bn))
    \<and> cache_window (update_canonical c m)"
proof -
  have w: "\<forall>b \<in> fst ` set (cache_entries c). unat n < unat b \<and> unat b \<le> unat n + 6"
    using assms(2,3) by (simp add: cache_window_def)
  have ins: "cache_window (snd (cache_insert c fb))"
  proof (cases "is_cacheable c (block_number_of fb)")
    case True
    then have "unat (block_number_of fb) \<le> unat n + 6"
      using is_cacheable_iff [OF assms(3,4)] by simp
    with True w assms(3,5) show ?thesis
      by (auto simp: cache_window_def keys_insert word_less_nat_alt)
  next
    case False
    then show ?thesis using assms(2) by (simp add: cached_insert_rejected)
  qed
  moreover have "cache_len (snd (cache_insert c fb)) \<le> 6"
    by (rule window_len [OF wf_cache_insert [OF assms(1)] ins])
  moreover have "cache_window (snd (cache_drain c bn))"
    using w assms(3)
    by (auto simp: cache_window_def cache_drain_def set_delete split: option.split)
  moreover have "cache_window (update_canonical c m)"
    using w assms(6) by (fastforce simp: cache_window_def update_canonical_def word_less_nat_alt word_le_nat_alt)
  ultimately show ?thesis by blast
qed

theorem cache_window_kept_witness:
  "cache_len (snd (cache_insert (cache_new 7) (make_flashblock 9 0))) \<le> 6"
  using cache_window_kept [of "cache_new 7" 7 "make_flashblock 9 0" 7]
  by (simp add: cache_window_def)

text \<open>
  C17. Retention is one block narrower than acceptance: accepting a flashblock of the
  furthest cacheable block, canonical + 6, evicts every flashblock of canonical + 1, the
  block the next canonical notification drains.
\<close>

theorem furthest_insert_evicts_next:
  assumes "latest_canonical c = Some n" and "unat n < 2 ^ 64 - 6"
    and "block_number_of fb = n + 6"
  shows "fst (cache_insert c fb)
    \<and> fst (cache_drain (snd (cache_insert c fb)) (n + 1)) = []"
proof -
  have u: "unat (n + 6) = unat n + 6" "unat (n + 1) = unat n + 1"
    using assms(2) unat_add_small [of n 6] unat_add_small [of n 1] by simp_all
  have acc: "is_cacheable c (block_number_of fb)"
    using is_cacheable_iff [OF assms(1,2)] assms(3) u by simp
  have "\<not> sat_sub (n + 6) MAX_CACHE_AHEAD_BLOCKS < n + 1" and "n + 1 \<noteq> n + 6"
    using u by (auto simp: word_less_nat_alt unat_sat_sub MAX_CACHE_AHEAD_BLOCKS_def)
  then have "n + 1 \<notin> fst ` set (cache_entries (snd (cache_insert c fb)))"
    using acc assms(3) by (simp add: keys_insert)
  then have "map_of (cache_entries (snd (cache_insert c fb))) (n + 1) = None"
    by (simp add: map_of_eq_None_iff)
  with acc show ?thesis by (simp add: cache_insert_accepts cache_drain_def)
qed

theorem furthest_insert_evicts_next_witness:
  "let c = snd (cache_insert (cache_new 7) (make_flashblock 8 0)) in
     fst (cache_drain c 8) = [make_flashblock 8 0]
   \<and> fst (cache_drain (snd (cache_insert c (make_flashblock 13 0))) 8) = []"
proof -
  let ?c = "snd (cache_insert (cache_new 7) (make_flashblock 8 0))"
  have "fst (cache_drain ?c 8) = [make_flashblock 8 0]"
    by (simp add: cache_insert_def cache_drain_def Let_def entry_or_default_def
        flip: block_number_of_def)
  moreover have "fst (cache_drain (snd (cache_insert ?c (make_flashblock 13 0))) 8) = []"
    using furthest_insert_evicts_next [of ?c 7 "make_flashblock 13 0"] by simp
  ultimately show ?thesis by simp
qed

end
