(* ===== verification/Sequencing.thy ===== *)
theory Sequencing
  imports Chain
begin

text \<open>
  The stateless checks of \<open>validation.rs\<close>: the position of a flashblock in the stream, the
  comparison of tracked with canonical transactions, the header oracle and the choice of
  a reconciliation strategy.
\<close>

section \<open>Sequence validation\<close>

datatype SequenceValidationResult =
    NextInSequence
  | FirstOfNextBlock
  | NewPayloadForCurrentBlock
  | Duplicate
  | NonSequentialGap u64 u64
  | InvalidNewBlockIndex u64 u64

definition seq_validate ::
    "u64 \<Rightarrow> u64 \<Rightarrow> payload_id \<Rightarrow> u64 \<Rightarrow> u64 \<Rightarrow> payload_id \<Rightarrow> SequenceValidationResult" where
  "seq_validate latest_bn latest_idx latest_pid bn idx pid =
     (if bn = latest_bn \<and> idx = 0 \<and> pid \<noteq> latest_pid then NewPayloadForCurrentBlock
      else if bn = latest_bn \<and> idx = latest_idx + 1 then NextInSequence
      else if bn = latest_bn + 1 \<and> idx = 0 then FirstOfNextBlock
      else if bn \<noteq> latest_bn then InvalidNewBlockIndex bn idx
      else if idx = latest_idx then Duplicate
      else NonSequentialGap (latest_idx + 1) idx)"

section \<open>Reorg detection\<close>

datatype ReorgDetectionResult =
    NoReorg
  | Untracked nat
  | CanonicalExtendsTracked nat nat
  | ReorgDetected nat nat

definition is_reorg :: "ReorgDetectionResult \<Rightarrow> bool" where
  "is_reorg r = (case r of ReorgDetected _ _ \<Rightarrow> True | _ \<Rightarrow> False)"

definition is_no_reorg :: "ReorgDetectionResult \<Rightarrow> bool" where
  "is_no_reorg r = (case r of NoReorg \<Rightarrow> True | _ \<Rightarrow> False)"

definition requires_rebuild :: "ReorgDetectionResult \<Rightarrow> bool" where
  "requires_rebuild r = (case r of NoReorg \<Rightarrow> False | _ \<Rightarrow> True)"

definition starts_with :: "'a list \<Rightarrow> 'a list \<Rightarrow> bool" where
  "starts_with xs p \<longleftrightarrow> length p \<le> length xs \<and> take (length p) xs = p"

definition reorg_detect :: "b256 list \<Rightarrow> b256 list \<Rightarrow> ReorgDetectionResult" where
  "reorg_detect tracked canonical =
     (if tracked = [] \<and> canonical \<noteq> [] then Untracked (length canonical)
      else if tracked = canonical then NoReorg
      else if starts_with canonical tracked
        then CanonicalExtendsTracked (length tracked) (length canonical)
      else ReorgDetected (length tracked) (length canonical))"

section \<open>The canonical oracle\<close>

datatype CanonicalMismatch = WithdrawalsRoot | RequestsHash | SlotNumber | TransactionPrefix

definition oracle_compare ::
    "Header \<Rightarrow> Header \<Rightarrow> bool \<Rightarrow> ReorgDetectionResult \<Rightarrow> CanonicalMismatch list" where
  "oracle_compare pending canonical requests_from_producer reorg =
     (if hd_withdrawals_root pending \<noteq> hd_withdrawals_root canonical then [WithdrawalsRoot] else [])
     @ (if requests_from_producer \<and> hd_requests_hash pending \<noteq> hd_requests_hash canonical
          then [RequestsHash] else [])
     @ (if hd_slot_number pending \<noteq> hd_slot_number canonical then [SlotNumber] else [])
     @ (if is_reorg reorg then [TransactionPrefix] else [])"

section \<open>Reconciliation\<close>

datatype ReconciliationStrategy =
    CatchUp
  | HandleReorg
  | DepthLimitExceeded u64 u64
  | Continue
  | NoPendingState

definition reconcile ::
    "u64 option \<Rightarrow> u64 option \<Rightarrow> u64 \<Rightarrow> u64 \<Rightarrow> bool \<Rightarrow> ReconciliationStrategy" where
  "reconcile pending_earliest pending_latest canonical max_depth rebuild =
     (case (pending_earliest, pending_latest) of
        (Some earliest, Some latest) \<Rightarrow>
          if latest \<le> canonical then CatchUp
          else if rebuild then HandleReorg
          else
            let depth = sat_sub canonical earliest in
            if depth > max_depth then DepthLimitExceeded depth max_depth else Continue
      | _ \<Rightarrow> NoPendingState)"

section \<open>Properties\<close>

text \<open>
  A stream of flashblocks, each given by block number, index and payload, of which every one
  is appended to the position the one before it left.
\<close>

fun appended :: "u64 \<times> u64 \<times> payload_id \<Rightarrow> (u64 \<times> u64 \<times> payload_id) list \<Rightarrow> bool" where
  "appended pos [] = True"
| "appended (lb, li, lp) ((b, i, p) # xs) =
     (seq_validate lb li lp b i p \<in> {NextInSequence, FirstOfNextBlock} \<and> appended (b, i, p) xs)"

text \<open>
  The positions a producer sends that builds blocks \<open>b\<close>, \<open>b + 1\<close>, and so on, with as many
  flashblocks each as the list says, from index \<open>i\<close> of the first block on.
\<close>

fun block_runs :: "nat \<Rightarrow> nat \<Rightarrow> nat list \<Rightarrow> (nat \<times> nat) list" where
  "block_runs b i [] = []"
| "block_runs b i (k # ks) = map (Pair b) [i..<k] @ block_runs (b + 1) 0 ks"

fun follows :: "nat \<times> nat \<Rightarrow> (nat \<times> nat) list \<Rightarrow> bool" where
  "follows pos [] = True"
| "follows (lb, li) ((b, i) # ys) = ((b = lb \<and> i = li + 1 \<or> b = lb + 1 \<and> i = 0) \<and> follows (b, i) ys)"

lemma word_succ_neq [simp]: "(x :: u64) \<noteq> x + 1" "(x :: u64) + 1 \<noteq> x"
  by (simp_all add: eq_neg_iff_add_eq_0)

lemma succ_iff: "unat x = (unat y + 1) mod 2 ^ 64 \<longleftrightarrow> x = y + (1 :: u64)"
  by (simp add: word_unat_eq_iff unat_word_ariths)

lemma block_runs_step: "i < k \<Longrightarrow> block_runs b i (k # ks) = (b, i) # block_runs b (Suc i) (k # ks)"
  by (simp add: upt_conv_Cons)

lemma block_runs_Cons:
  assumes "y # ys = block_runs b (i + 1) (k # ks)" and "i < k" and "0 \<notin> set ks"
  shows "(y = (b, i + 1) \<and> i + 1 < k \<and> ys = block_runs b (i + 2) (k # ks))
    \<or> (\<exists>k' ks'. ks = k' # ks' \<and> 0 < k' \<and> y = (b + 1, 0) \<and> ys = block_runs (b + 1) 1 (k' # ks'))"
proof (cases "i + 1 < k")
  case True
  then show ?thesis using assms(1) by (simp add: block_runs_step del: block_runs.simps)
next
  case False
  then have "y # ys = block_runs (b + 1) 0 ks" using assms by simp
  then show ?thesis
    using assms(3) by (cases ks) (auto simp: block_runs_step simp del: block_runs.simps(2))
qed

lemma follows_iff:
  "follows (b, i) ys \<longleftrightarrow> (\<exists>k ks. i < k \<and> 0 \<notin> set ks \<and> ys = block_runs b (i + 1) (k # ks))"
proof (induction ys arbitrary: b i)
  case Nil
  show ?case by (auto intro!: exI [of _ "i + 1"] exI [of _ "[]"])
next
  case (Cons y ys)
  obtain c j where y: "y = (c, j)" by fastforce
  show ?case
  proof
    assume "follows (b, i) (y # ys)"
    then consider "y = (b, i + 1)" "follows (b, i + 1) ys" | "y = (b + 1, 0)" "follows (b + 1, 0) ys"
      by (auto simp: y)
    then show "\<exists>k ks. i < k \<and> 0 \<notin> set ks \<and> y # ys = block_runs b (i + 1) (k # ks)"
    proof cases
      case 1
      then obtain k ks where "i + 1 < k" "0 \<notin> set ks" "ys = block_runs b (i + 2) (k # ks)"
        by (auto simp: Cons.IH simp del: block_runs.simps)
      with 1 have "i < k \<and> 0 \<notin> set ks \<and> y # ys = block_runs b (i + 1) (k # ks)"
        by (simp add: block_runs_step del: block_runs.simps)
      then show ?thesis by blast
    next
      case 2
      then obtain k ks where k: "0 < k" "0 \<notin> set ks" "ys = block_runs (b + 1) 1 (k # ks)"
        by (auto simp: Cons.IH simp del: block_runs.simps)
      have "block_runs (b + 1) 0 (k # ks) = y # ys"
        using 2 k by (simp add: block_runs_step del: block_runs.simps)
      then have "i < i + 1 \<and> 0 \<notin> set (k # ks) \<and> y # ys = block_runs b (i + 1) ((i + 1) # k # ks)"
        using k by simp
      then show ?thesis by blast
    qed
  next
    assume "\<exists>k ks. i < k \<and> 0 \<notin> set ks \<and> y # ys = block_runs b (i + 1) (k # ks)"
    then obtain k ks where k: "i < k" "0 \<notin> set ks" and "y # ys = block_runs b (i + 1) (k # ks)" by blast
    from block_runs_Cons [OF this(3,1,2)]
    show "follows (b, i) (y # ys)"
    proof (elim disjE exE conjE)
      assume "y = (b, i + 1)" "i + 1 < k" "ys = block_runs b (i + 2) (k # ks)"
      then show ?thesis using Cons.IH [of b "i + 1"] k by (auto simp del: block_runs.simps)
    next
      fix k' ks'
      assume "ks = k' # ks'" "0 < k'" "y = (b + 1, 0)" "ys = block_runs (b + 1) 1 (k' # ks')"
      then show ?thesis using Cons.IH [of "b + 1" 0] k by (auto simp del: block_runs.simps)
    qed
  qed
qed

lemma appended_follows:
  assumes "unat lb + length xs < 2 ^ 64" and "unat li + length xs < 2 ^ 64"
  shows "appended (lb, li, lp) xs \<longleftrightarrow> follows (unat lb, unat li) (map (\<lambda>(b, i, _). (unat b, unat i)) xs)"
  using assms
proof (induction xs arbitrary: lb li lp)
  case (Cons x xs)
  obtain b i p where x: "x = (b, i, p)" by (cases x)
  have s: "b = lb + 1 \<longleftrightarrow> unat b = unat lb + 1" "i = li + 1 \<longleftrightarrow> unat i = unat li + 1"
    using Cons.prems by (simp_all flip: succ_iff)
  have "seq_validate lb li lp b i p \<in> {NextInSequence, FirstOfNextBlock} \<longleftrightarrow>
      unat b = unat lb \<and> unat i = unat li + 1 \<or> unat b = unat lb + 1 \<and> unat i = 0"
    by (auto simp: seq_validate_def s unat_eq_zero word_unat_eq_iff [of b lb])
  moreover have "appended (b, i, p) xs \<longleftrightarrow> follows (unat b, unat i) (map (\<lambda>(b, i, _). (unat b, unat i)) xs)"
    if "unat b = unat lb \<and> unat i = unat li + 1 \<or> unat b = unat lb + 1 \<and> unat i = 0"
    using that Cons.prems by (intro Cons.IH) auto
  ultimately show ?case by (auto simp: x)
qed simp

text \<open>
  C14. Each verdict on a flashblock and what it reports, after block \<open>lb\<close>, index \<open>li\<close> and
  payload \<open>lp\<close>. It starts the block again exactly at index 0 of the same block with another
  payload; it is the next one exactly at the following index, and the first of the next
  block exactly at index 0 of the following block; it is a duplicate at the same position;
  any other index of the block is a gap, reported with the index expected and the one that
  came; anything else is reported with its own block and index. And the verdicts add up:
  while no number reaches the end of \<open>u64\<close>, a stream is appended flashblock by flashblock
  exactly when it is what a producer sends that continues the block from the next index
  and then builds the following blocks, none left out and none empty, each with the indices
  0, 1, 2 and on.
\<close>

theorem seq_validate_complete:
  fixes lb li b i :: u64 and lp p :: payload_id
  defines "v \<equiv> seq_validate lb li lp b i p"
    and "next_index \<equiv> (unat li + 1) mod 2 ^ 64" and "next_block \<equiv> (unat lb + 1) mod 2 ^ 64"
  shows "(v = NewPayloadForCurrentBlock \<longleftrightarrow> b = lb \<and> i = 0 \<and> p \<noteq> lp)
   \<and> (v = NextInSequence \<longleftrightarrow> b = lb \<and> unat i = next_index \<and> (i = 0 \<longrightarrow> p = lp))
   \<and> (v = FirstOfNextBlock \<longleftrightarrow> unat b = next_block \<and> i = 0)
   \<and> (v = Duplicate \<longleftrightarrow> b = lb \<and> i = li \<and> (i = 0 \<longrightarrow> p = lp))
   \<and> (v = NonSequentialGap x a \<longleftrightarrow> b = lb \<and> i \<noteq> li \<and> unat i \<noteq> next_index \<and> (i = 0 \<longrightarrow> p = lp)
        \<and> unat x = next_index \<and> a = i)
   \<and> (v = InvalidNewBlockIndex n k \<longleftrightarrow> b \<noteq> lb \<and> \<not> (unat b = next_block \<and> i = 0) \<and> n = b \<and> k = i)
   \<and> (unat lb + length xs < 2 ^ 64 \<and> unat li + length xs < 2 ^ 64 \<longrightarrow>
        (appended (lb, li, lp) xs \<longleftrightarrow>
           (\<exists>m ks. unat li < m \<and> 0 \<notin> set ks
              \<and> map (\<lambda>(b, i, _). (unat b, unat i)) xs = block_runs (unat lb) (unat li + 1) (m # ks))))"
proof (intro conjI)
  show "unat lb + length xs < 2 ^ 64 \<and> unat li + length xs < 2 ^ 64 \<longrightarrow>
        (appended (lb, li, lp) xs \<longleftrightarrow>
           (\<exists>m ks. unat li < m \<and> 0 \<notin> set ks
              \<and> map (\<lambda>(b, i, _). (unat b, unat i)) xs = block_runs (unat lb) (unat li + 1) (m # ks)))"
    using appended_follows [of lb xs li lp] follows_iff [of "unat lb" "unat li"] by simp
qed (auto simp: v_def next_index_def next_block_def seq_validate_def succ_iff [simplified])

theorem seq_validate_complete_witness:
  "appended (8, 2, 5) [(8, 3, 5), (9, 0, 6), (9, 1, 6)]
   \<and> \<not> appended (8, 2, 5) [(8, 3, 5), (10, 0, 6)]
   \<and> seq_validate 8 2 5 8 4 5 = NonSequentialGap 3 4"
proof -
  have "block_runs 8 3 [4, 2] = [(8, 3), (9, 0), (9, Suc 0)]" by (simp add: upt_rec)
  then have "\<exists>m ks. 2 < m \<and> 0 \<notin> set ks \<and> [(8, 3), (9, 0), (9, Suc 0)] = block_runs 8 3 (m # ks)"
    by (intro exI [of _ 4] exI [of _ "[2]"]) simp
  then have "appended (8, 2, 5) [(8, 3, 5), (9, 0, 6), (9, 1, 6)]"
    using seq_validate_complete [of 8 2 5 8 4 5 3 4 0 0 "[(8, 3, 5), (9, 0, 6), (9, 1, 6)]"]
    by (simp del: block_runs.simps appended.simps)
  moreover have "seq_validate 8 2 5 8 4 5 = NonSequentialGap 3 4"
    using seq_validate_complete [of 8 2 5 8 4 5 3 4 0 0 "[]"] by simp
  ultimately show ?thesis by (simp add: seq_validate_def)
qed

lemma starts_with_prefix: "starts_with xs p \<longleftrightarrow> prefix p xs"
  by (auto simp: starts_with_def prefix_def) (metis append_take_drop_id)

text \<open>
  The verdict on a canonical block is the prefix order of the two transaction lists: no
  reorg exactly on equality, extension exactly on a non-empty proper prefix, reorg exactly
  when tracked is no prefix, and pending is rebuilt exactly when the lists differ.
\<close>

theorem reorg_detect_prefix:
  "(reorg_detect t c = NoReorg \<longleftrightarrow> t = c)
   \<and> (reorg_detect t c = Untracked (length c) \<longleftrightarrow> t = [] \<and> c \<noteq> [])
   \<and> (reorg_detect t c = CanonicalExtendsTracked (length t) (length c) \<longleftrightarrow>
       t \<noteq> [] \<and> strict_prefix t c)
   \<and> (is_reorg (reorg_detect t c) \<longleftrightarrow> \<not> prefix t c)
   \<and> (requires_rebuild (reorg_detect t c) \<longleftrightarrow> t \<noteq> c)"
  by (auto simp: reorg_detect_def is_reorg_def requires_rebuild_def starts_with_prefix strict_prefix_def)

text \<open>
  The oracle reports nothing exactly when the header fields the flashblocks determine
  agree and canonical starts with the tracked transactions; each report is made once.
\<close>

theorem oracle_silent_iff:
  "(oracle_compare p c from_producer (reorg_detect t ch) = [] \<longleftrightarrow>
      hd_withdrawals_root p = hd_withdrawals_root c
    \<and> (if from_producer then hd_requests_hash p = hd_requests_hash c else True)
    \<and> hd_slot_number p = hd_slot_number c
    \<and> prefix t ch)
   \<and> distinct (oracle_compare p c from_producer (reorg_detect t ch))"
  by (auto simp: oracle_compare_def is_reorg_def reorg_detect_def starts_with_prefix)

text \<open>
  C15. The strategy against the real canonical height: pending survives untouched exactly when
  it reaches past canonical, matched it, and its earliest block is at most \<open>max_depth\<close> below
  canonical; caught-up pending is cleared whatever else holds, and the reported depth is
  the true difference.
\<close>

theorem reconcile_spec:
  "(reconcile (Some e) (Some l) c d r = Continue \<longleftrightarrow>
      unat c < unat l \<and> \<not> r \<and> unat c \<le> unat e + unat d)
   \<and> (reconcile (Some e) (Some l) c d r = CatchUp \<longleftrightarrow> unat l \<le> unat c)
   \<and> (reconcile (Some e) (Some l) c d r = HandleReorg \<longleftrightarrow> unat c < unat l \<and> r)
   \<and> (reconcile (Some e) (Some l) c d r = DepthLimitExceeded x y \<longleftrightarrow>
      unat c < unat l \<and> \<not> r \<and> unat e + unat d < unat c \<and> unat x = unat c - unat e \<and> y = d)
   \<and> (reconcile pe pl c d r = NoPendingState \<longleftrightarrow> pe = None \<or> pl = None)"
  by (auto simp: reconcile_def Let_def word_le_nat_alt word_less_nat_alt unat_sat_sub
      word_unat_eq_iff [of "sat_sub c e"] split: option.splits)

end
