(* ===== verification/Errors.thy ===== *)
theory Errors
  imports Prelude
begin

text \<open>
  The errors of the flashblocks state processor (\<open>error.rs\<close>), one constructor per variant
  and with the variant's fields. The conversions of the \<open>#[from]\<close> attributes are the
  constructors of \<open>StateProcessorError\<close>.
\<close>

datatype ProtocolError =
    InvalidSequence
  | MissingBase
  | EmptyFlashblocks
  | GenesisFlashblock
  | MissingSlotNumber u64

datatype ProviderError =
    MissingCanonicalHeader u64
  | StateProvider string

datatype ExecutionError =
    TransactionFailed b256 address string
  | MissingReceipt b256
  | StatusMismatch b256 bool
  | SenderRecovery string
  | EvmEnv string
  | BlockConversion string

datatype BuildError =
    MissingHeaders
  | NoFlashblocks
  | DuplicateTransaction b256

datatype StateProcessorError =
    Protocol ProtocolError
  | Provider ProviderError
  | Execution ExecutionError
  | Build BuildError
  | MissingFirstFlashblock

text \<open>\<open>From<RecoveryError>\<close>, for the two error types; a recovery error is its message.\<close>

definition execution_error_from_recovery :: "string \<Rightarrow> ExecutionError" where
  "execution_error_from_recovery err = SenderRecovery err"

definition processor_error_from_recovery :: "string \<Rightarrow> StateProcessorError" where
  "processor_error_from_recovery err = Execution (execution_error_from_recovery err)"

text \<open>
  \<open>to_string\<close> of the errors whose message the code shows elsewhere, with the decimal
  \<open>Display\<close> of \<open>u64\<close>.
\<close>

fun dec_digits :: "nat \<Rightarrow> string" where
  "dec_digits n =
     (if n < 10 then [char_of (48 + n)] else dec_digits (n div 10) @ [char_of (48 + n mod 10)])"

declare dec_digits.simps [simp del]

definition protocol_error_display :: "ProtocolError \<Rightarrow> string" where
  "protocol_error_display e = (case e of
     InvalidSequence \<Rightarrow> ''invalid flashblock sequence: flashblocks must be processed in order''
   | MissingBase \<Rightarrow> ''missing base: first flashblock in sequence must contain a base payload''
   | EmptyFlashblocks \<Rightarrow> ''empty flashblocks: cannot build state from zero flashblocks''
   | GenesisFlashblock \<Rightarrow> ''cannot execute a genesis flashblock: block zero has no parent''
   | MissingSlotNumber bn \<Rightarrow>
       ''missing slot number: block '' @ dec_digits (unat bn) @ '' is an Amsterdam block'')"

end
