(* ===== verification/Pending.thy ===== *)
theory Pending
  imports Chain Errors Metrics
begin

text \<open>
  The pending snapshot of \<open>pending_blocks.rs\<close>: the builder that collects it, the snapshot
  and its reads. The EVM state a transaction produced is of type \<open>'st\<close>; a log filter is the
  predicate its \<open>matches\<close> computes.
\<close>

section \<open>Data\<close>

record TransactionWithLogs =
  twl_transaction :: Transaction
  twl_logs :: "Log list"
  twl_gas_used :: u64
  twl_status :: bool
  twl_cumulative_gas_used :: u64
  twl_contract_address :: "address option"
  twl_logs_bloom :: bloom

record FlashblockBatch =
  fbb_block_number :: u64
  fbb_flashblock_index :: u64
  fbb_transactions :: "TransactionWithLogs list"

record 'st PendingBlocksBuilder =
  pbb_flashblocks :: "FlashBlock list"
  pbb_headers :: "SealedHeader list"
  pbb_transactions :: "Transaction list"
  pbb_account_balances :: "address \<rightharpoonup> u256"
  pbb_transaction_receipts :: "b256 \<rightharpoonup> TransactionReceipt"
  pbb_transactions_by_hash :: "b256 \<rightharpoonup> Transaction"
  pbb_transaction_state :: "b256 \<rightharpoonup> 'st"
  pbb_transaction_senders :: "b256 \<rightharpoonup> address"
  pbb_bundle_state :: BundleState
  pbb_anchor :: "SealedHeader option"
  pbb_deferred_error :: "BuildError option"

record 'st PendingBlocks =
  pb_earliest_header :: SealedHeader
  pb_latest_header :: SealedHeader
  pb_headers :: "SealedHeader list"
  pb_latest_flashblock_index :: u64
  pb_flashblocks :: "FlashBlock list"
  pb_transactions :: "Transaction list"
  pb_account_balances :: "address \<rightharpoonup> u256"
  pb_transaction_receipts :: "b256 \<rightharpoonup> TransactionReceipt"
  pb_transactions_by_hash :: "b256 \<rightharpoonup> Transaction"
  pb_transaction_state :: "b256 \<rightharpoonup> 'st"
  pb_transaction_senders :: "b256 \<rightharpoonup> address"
  pb_bundle_state :: BundleState
  pb_anchor :: "SealedHeader option"

section \<open>The builder\<close>

definition builder_new :: "'st PendingBlocksBuilder" where
  "builder_new = \<lparr>pbb_flashblocks = [], pbb_headers = [], pbb_transactions = [],
     pbb_account_balances = Map.empty, pbb_transaction_receipts = Map.empty,
     pbb_transactions_by_hash = Map.empty, pbb_transaction_state = Map.empty,
     pbb_transaction_senders = Map.empty, pbb_bundle_state = bundle_default,
     pbb_anchor = None, pbb_deferred_error = None\<rparr>"

definition with_flashblocks ::
    "FlashBlock list \<Rightarrow> 'st PendingBlocksBuilder \<Rightarrow> 'st PendingBlocksBuilder" where
  "with_flashblocks fbs b = b\<lparr>pbb_flashblocks := pbb_flashblocks b @ fbs\<rparr>"

definition with_header ::
    "SealedHeader \<Rightarrow> 'st PendingBlocksBuilder \<Rightarrow> 'st PendingBlocksBuilder" where
  "with_header h b = b\<lparr>pbb_headers := pbb_headers b @ [h]\<rparr>"

definition with_transaction ::
    "Transaction \<Rightarrow> 'st PendingBlocksBuilder \<Rightarrow> 'st PendingBlocksBuilder" where
  "with_transaction t b =
     (let h = rt_hash t in
      if pbb_transactions_by_hash b h \<noteq> None then
        b\<lparr>pbb_deferred_error :=
            (case pbb_deferred_error b of None \<Rightarrow> Some (DuplicateTransaction h) | Some e \<Rightarrow> Some e)\<rparr>
      else b\<lparr>pbb_transactions_by_hash := (pbb_transactions_by_hash b)(h \<mapsto> t),
             pbb_transactions := pbb_transactions b @ [t]\<rparr>)"

definition with_transaction_state ::
    "b256 \<Rightarrow> 'st \<Rightarrow> 'st PendingBlocksBuilder \<Rightarrow> 'st PendingBlocksBuilder" where
  "with_transaction_state h s b =
     b\<lparr>pbb_transaction_state := (pbb_transaction_state b)(h \<mapsto> s)\<rparr>"

definition with_transaction_sender ::
    "b256 \<Rightarrow> address \<Rightarrow> 'st PendingBlocksBuilder \<Rightarrow> 'st PendingBlocksBuilder" where
  "with_transaction_sender h a b =
     b\<lparr>pbb_transaction_senders := (pbb_transaction_senders b)(h \<mapsto> a)\<rparr>"

definition with_receipt ::
    "b256 \<Rightarrow> TransactionReceipt \<Rightarrow> 'st PendingBlocksBuilder \<Rightarrow> 'st PendingBlocksBuilder" where
  "with_receipt h r b =
     b\<lparr>pbb_transaction_receipts := (pbb_transaction_receipts b)(h \<mapsto> r)\<rparr>"

definition with_account_balance ::
    "address \<Rightarrow> u256 \<Rightarrow> 'st PendingBlocksBuilder \<Rightarrow> 'st PendingBlocksBuilder" where
  "with_account_balance a v b =
     b\<lparr>pbb_account_balances := (pbb_account_balances b)(a \<mapsto> v)\<rparr>"

definition with_bundle_state ::
    "BundleState \<Rightarrow> 'st PendingBlocksBuilder \<Rightarrow> 'st PendingBlocksBuilder" where
  "with_bundle_state s b = b\<lparr>pbb_bundle_state := s\<rparr>"

definition with_anchor ::
    "SealedHeader \<Rightarrow> 'st PendingBlocksBuilder \<Rightarrow> 'st PendingBlocksBuilder" where
  "with_anchor h b = b\<lparr>pbb_anchor := Some h\<rparr>"

definition build :: "'st PendingBlocksBuilder \<Rightarrow> StateProcessorError + 'st PendingBlocks" where
  "build b =
     (case pbb_deferred_error b of
        Some err \<Rightarrow> Inl (Build err)
      | None \<Rightarrow>
          if pbb_headers b = [] then Inl (Build MissingHeaders)
          else if pbb_flashblocks b = [] then Inl (Build NoFlashblocks)
          else Inr \<lparr>pb_earliest_header = hd (pbb_headers b),
                    pb_latest_header = last (pbb_headers b),
                    pb_headers = pbb_headers b,
                    pb_latest_flashblock_index = fb_index (last (pbb_flashblocks b)),
                    pb_flashblocks = pbb_flashblocks b,
                    pb_transactions = pbb_transactions b,
                    pb_account_balances = pbb_account_balances b,
                    pb_transaction_receipts = pbb_transaction_receipts b,
                    pb_transactions_by_hash = pbb_transactions_by_hash b,
                    pb_transaction_state = pbb_transaction_state b,
                    pb_transaction_senders = pbb_transaction_senders b,
                    pb_bundle_state = pbb_bundle_state b,
                    pb_anchor = pbb_anchor b\<rparr>)"

section \<open>Reads of a snapshot\<close>

definition transaction_with_logs :: "Transaction \<Rightarrow> TransactionReceipt \<Rightarrow> TransactionWithLogs" where
  "transaction_with_logs t r = \<lparr>twl_transaction = t, twl_logs = rwb_logs (tr_inner r),
     twl_gas_used = tr_gas_used r, twl_status = rwb_status (tr_inner r),
     twl_cumulative_gas_used = rwb_cumulative_gas_used (tr_inner r),
     twl_contract_address = tr_contract_address r, twl_logs_bloom = rwb_bloom (tr_inner r)\<rparr>"

definition latest_block_number :: "'st PendingBlocks \<Rightarrow> u64" where
  "latest_block_number pb = sh_number (pb_latest_header pb)"

definition canonical_block_number :: "'st PendingBlocks \<Rightarrow> BlockNumberOrTag" where
  "canonical_block_number pb = Number (sh_number (pb_earliest_header pb) - 1)"

definition earliest_block_number :: "'st PendingBlocks \<Rightarrow> u64" where
  "earliest_block_number pb = sh_number (pb_earliest_header pb)"

definition pb_payload_id :: "'st PendingBlocks \<Rightarrow> payload_id" where
  "pb_payload_id pb =
     (if pb_flashblocks pb = [] then 0 else fb_payload_id (last (pb_flashblocks pb)))"

definition header_for_block :: "'st PendingBlocks \<Rightarrow> u64 \<Rightarrow> SealedHeader option" where
  "header_for_block pb bn = find (\<lambda>h. sh_number h = bn) (pb_headers pb)"

definition get_flashblocks :: "'st PendingBlocks \<Rightarrow> FlashBlock list" where
  "get_flashblocks pb = pb_flashblocks pb"

definition get_transaction_state :: "'st PendingBlocks \<Rightarrow> b256 \<Rightarrow> 'st option" where
  "get_transaction_state pb h = pb_transaction_state pb h"

definition get_transaction_sender :: "'st PendingBlocks \<Rightarrow> b256 \<Rightarrow> address option" where
  "get_transaction_sender pb h = pb_transaction_senders pb h"

definition get_bundle_state :: "'st PendingBlocks \<Rightarrow> Metrics \<Rightarrow> BundleState \<times> Metrics" where
  "get_bundle_state pb m =
     (pb_bundle_state pb,
      m\<lparr>bundle_state_clone_size :=
          bundle_state_clone_size m @ [length (bs_state (pb_bundle_state pb))]\<rparr>)"

definition get_transactions_for_block :: "'st PendingBlocks \<Rightarrow> u64 \<Rightarrow> Transaction list" where
  "get_transactions_for_block pb bn =
     filter (\<lambda>t. (case rt_block_number t of None \<Rightarrow> 0 | Some n \<Rightarrow> n) = bn) (pb_transactions pb)"

definition get_withdrawals :: "'st PendingBlocks \<Rightarrow> withdrawal list" where
  "get_withdrawals pb =
     (case find (\<lambda>fb. md_block_number (fb_metadata fb) = sh_number (pb_latest_header pb))
             (rev (pb_flashblocks pb)) of
        Some fb \<Rightarrow> diff_withdrawals (fb_diff fb)
      | None \<Rightarrow> [])"

datatype BlockTransactions = Full "Transaction list" | Hashes "b256 list"

record RpcBlock =
  rbk_header :: SealedHeader
  rbk_transactions :: BlockTransactions
  rbk_uncles :: "b256 list"
  rbk_withdrawals :: "withdrawal list option"

definition get_latest_block :: "'st PendingBlocks \<Rightarrow> bool \<Rightarrow> RpcBlock" where
  "get_latest_block pb full =
     (let header = pb_latest_header pb;
          block_transactions = get_transactions_for_block pb (sh_number header)
      in \<lparr>rbk_header = header,
          rbk_transactions =
            (if full then Full block_transactions else Hashes (map rt_hash block_transactions)),
          rbk_uncles = [], rbk_withdrawals = Some (get_withdrawals pb)\<rparr>)"

definition get_receipt :: "'st PendingBlocks \<Rightarrow> b256 \<Rightarrow> TransactionReceipt option" where
  "get_receipt pb h = pb_transaction_receipts pb h"

definition get_latest_block_receipts :: "'st PendingBlocks \<Rightarrow> TransactionReceipt list" where
  "get_latest_block_receipts pb =
     List.map_filter (\<lambda>t. pb_transaction_receipts pb (rt_hash t))
       (get_transactions_for_block pb (sh_number (pb_latest_header pb)))"

definition get_latest_block_transaction :: "'st PendingBlocks \<Rightarrow> nat \<Rightarrow> Transaction option" where
  "get_latest_block_transaction pb i =
     (let ts = get_transactions_for_block pb (sh_number (pb_latest_header pb)) in
      if i < length ts then Some (ts ! i) else None)"

definition get_transaction_by_hash :: "'st PendingBlocks \<Rightarrow> b256 \<Rightarrow> Transaction option" where
  "get_transaction_by_hash pb h = pb_transactions_by_hash pb h"

definition has_transaction_hash :: "'st PendingBlocks \<Rightarrow> b256 \<Rightarrow> bool" where
  "has_transaction_hash pb h = (pb_transactions_by_hash pb h \<noteq> None)"

definition get_balance :: "'st PendingBlocks \<Rightarrow> address \<Rightarrow> u256 option" where
  "get_balance pb a = pb_account_balances pb a"

text \<open>The inner loops of the log reads: the matching logs of one transaction.\<close>

definition tx_logs :: "'st PendingBlocks \<Rightarrow> (plog \<Rightarrow> bool) \<Rightarrow> Transaction \<Rightarrow> Log list" where
  "tx_logs pb matches t =
     (case pb_transaction_receipts pb (rt_hash t) of
        None \<Rightarrow> []
      | Some r \<Rightarrow> filter (\<lambda>l. matches (rl_inner l)) (rwb_logs (tr_inner r)))"

definition get_pending_logs :: "'st PendingBlocks \<Rightarrow> (plog \<Rightarrow> bool) \<Rightarrow> Log list" where
  "get_pending_logs pb matches = concat (map (tx_logs pb matches) (pb_transactions pb))"

definition get_pending_transactions :: "'st PendingBlocks \<Rightarrow> Transaction list" where
  "get_pending_transactions pb = pb_transactions pb"

definition get_pending_transaction_hashes :: "'st PendingBlocks \<Rightarrow> b256 list" where
  "get_pending_transaction_hashes pb = map rt_hash (pb_transactions pb)"

definition previous_flashblocks_tx_count :: "'st PendingBlocks \<Rightarrow> nat" where
  "previous_flashblocks_tx_count pb =
     (if length (pb_flashblocks pb) \<le> 1 then 0
      else sum_list (map (\<lambda>fb. length (diff_transactions (fb_diff fb)))
             (take (length (pb_flashblocks pb) - 1) (pb_flashblocks pb))))"

definition get_latest_flashblock_logs :: "'st PendingBlocks \<Rightarrow> (plog \<Rightarrow> bool) \<Rightarrow> Log list" where
  "get_latest_flashblock_logs pb matches =
     concat (map (tx_logs pb matches)
       (drop (previous_flashblocks_tx_count pb) (pb_transactions pb)))"

definition get_latest_flashblock_transactions_with_logs ::
    "'st PendingBlocks \<Rightarrow> TransactionWithLogs list" where
  "get_latest_flashblock_transactions_with_logs pb =
     List.map_filter
       (\<lambda>t. map_option (transaction_with_logs t) (pb_transaction_receipts pb (rt_hash t)))
       (drop (previous_flashblocks_tx_count pb) (pb_transactions pb))"

definition get_latest_flashblock_transactions_with_logs_filtered ::
    "'st PendingBlocks \<Rightarrow> (plog \<Rightarrow> bool) \<Rightarrow> TransactionWithLogs list" where
  "get_latest_flashblock_transactions_with_logs_filtered pb matches =
     List.map_filter
       (\<lambda>t. case pb_transaction_receipts pb (rt_hash t) of
              None \<Rightarrow> None
            | Some r \<Rightarrow>
                if list_ex (\<lambda>l. matches (rl_inner l)) (rwb_logs (tr_inner r))
                then Some (transaction_with_logs t r) else None)
       (drop (previous_flashblocks_tx_count pb) (pb_transactions pb))"

definition get_latest_flashblock_batch ::
    "'st PendingBlocks \<Rightarrow> (plog \<Rightarrow> bool) option \<Rightarrow> FlashblockBatch" where
  "get_latest_flashblock_batch pb fltr =
     \<lparr>fbb_block_number = latest_block_number pb,
      fbb_flashblock_index = pb_latest_flashblock_index pb,
      fbb_transactions =
        (case fltr of
           Some matches \<Rightarrow> get_latest_flashblock_transactions_with_logs_filtered pb matches
         | None \<Rightarrow> get_latest_flashblock_transactions_with_logs pb)\<rparr>"

definition get_latest_flashblock_transaction_hashes :: "'st PendingBlocks \<Rightarrow> b256 list" where
  "get_latest_flashblock_transaction_hashes pb =
     map rt_hash (drop (previous_flashblocks_tx_count pb) (pb_transactions pb))"

section \<open>Reads through the published pointer (\<open>PendingBlocksAPI\<close>)\<close>

definition api_canonical_block_number :: "'st PendingBlocks option \<Rightarrow> BlockNumberOrTag" where
  "api_canonical_block_number g =
     (case g of None \<Rightarrow> Latest | Some pb \<Rightarrow> canonical_block_number pb)"

definition api_get_block :: "'st PendingBlocks option \<Rightarrow> bool \<Rightarrow> RpcBlock option" where
  "api_get_block g full = map_option (\<lambda>pb. get_latest_block pb full) g"

definition api_get_transaction_receipt ::
    "'st PendingBlocks option \<Rightarrow> b256 \<Rightarrow> TransactionReceipt option" where
  "api_get_transaction_receipt g h = Option.bind g (\<lambda>pb. get_receipt pb h)"

definition api_get_block_receipts :: "'st PendingBlocks option \<Rightarrow> TransactionReceipt list option" where
  "api_get_block_receipts g = map_option get_latest_block_receipts g"

definition api_get_transaction_by_index ::
    "'st PendingBlocks option \<Rightarrow> nat \<Rightarrow> Transaction option" where
  "api_get_transaction_by_index g i = Option.bind g (\<lambda>pb. get_latest_block_transaction pb i)"

definition api_get_transaction_by_hash ::
    "'st PendingBlocks option \<Rightarrow> b256 \<Rightarrow> Transaction option" where
  "api_get_transaction_by_hash g h = Option.bind g (\<lambda>pb. get_transaction_by_hash pb h)"

definition api_get_balance :: "'st PendingBlocks option \<Rightarrow> address \<Rightarrow> u256 option" where
  "api_get_balance g a = Option.bind g (\<lambda>pb. get_balance pb a)"

definition api_get_pending_logs :: "'st PendingBlocks option \<Rightarrow> (plog \<Rightarrow> bool) \<Rightarrow> Log list" where
  "api_get_pending_logs g matches =
     (case g of None \<Rightarrow> [] | Some pb \<Rightarrow> get_pending_logs pb matches)"

section \<open>What the builder guarantees\<close>

lemmas builder_defs =
  with_flashblocks_def with_header_def with_transaction_def with_transaction_state_def
  with_transaction_sender_def with_receipt_def with_account_balance_def with_bundle_state_def
  with_anchor_def

inductive builder_step :: "'st PendingBlocksBuilder \<Rightarrow> 'st PendingBlocksBuilder \<Rightarrow> bool" where
  "builder_step b (with_flashblocks fbs b)"
| "builder_step b (with_header h b)"
| "builder_step b (with_transaction t b)"
| "builder_step b (with_transaction_state hash st b)"
| "builder_step b (with_transaction_sender hash a b)"
| "builder_step b (with_receipt hash r b)"
| "builder_step b (with_account_balance a v b)"
| "builder_step b (with_bundle_state s b)"
| "builder_step b (with_anchor h b)"

text \<open>
  The index by hash and the list of transactions are the same set, each hash once, and a
  deferred error names a hash that is listed.
\<close>

definition index_consistent :: "Transaction list \<Rightarrow> (b256 \<rightharpoonup> Transaction) \<Rightarrow> bool" where
  "index_consistent ts m \<longleftrightarrow>
     distinct (map rt_hash ts) \<and> (\<forall>h t. m h = Some t \<longleftrightarrow> t \<in> set ts \<and> rt_hash t = h)"

definition builder_inv :: "'st PendingBlocksBuilder \<Rightarrow> bool" where
  "builder_inv b \<longleftrightarrow> index_consistent (pbb_transactions b) (pbb_transactions_by_hash b)
     \<and> (\<forall>e. pbb_deferred_error b = Some e \<longrightarrow>
          (\<exists>t \<in> set (pbb_transactions b). e = DuplicateTransaction (rt_hash t)))"

lemma index_consistent_snoc:
  assumes "index_consistent ts m" and "m (rt_hash t) = None"
  shows "index_consistent (ts @ [t]) (m(rt_hash t \<mapsto> t))"
proof -
  have "rt_hash t \<notin> rt_hash ` set ts"
  proof
    assume "rt_hash t \<in> rt_hash ` set ts"
    then obtain u where "u \<in> set ts" "rt_hash u = rt_hash t" by auto
    then have "m (rt_hash t) = Some u" using assms(1) by (auto simp: index_consistent_def)
    with assms(2) show False by simp
  qed
  then show ?thesis using assms(1) by (auto simp: index_consistent_def) (metis imageI)
qed

lemma builder_inv_with_transaction: "builder_inv b \<Longrightarrow> builder_inv (with_transaction t b)"
proof (cases "pbb_transactions_by_hash b (rt_hash t)")
  case None
  assume "builder_inv b"
  with None show ?thesis
    by (auto simp: builder_inv_def with_transaction_def Let_def index_consistent_snoc)
next
  case (Some u)
  assume inv: "builder_inv b"
  with Some have "u \<in> set (pbb_transactions b) \<and> rt_hash u = rt_hash t"
    by (auto simp: builder_inv_def index_consistent_def)
  with inv Some show ?thesis
    by (auto simp: builder_inv_def with_transaction_def Let_def split: option.splits) metis
qed

lemma builder_inv_simps [simp]:
  "builder_inv (with_flashblocks fbs b) = builder_inv b"
  "builder_inv (with_header h b) = builder_inv b"
  "builder_inv (with_transaction_state hash st b) = builder_inv b"
  "builder_inv (with_transaction_sender hash a b) = builder_inv b"
  "builder_inv (with_receipt hash r b) = builder_inv b"
  "builder_inv (with_account_balance a v b) = builder_inv b"
  "builder_inv (with_bundle_state s b) = builder_inv b"
  "builder_inv (with_anchor h b) = builder_inv b"
  by (simp_all add: builder_inv_def with_flashblocks_def with_header_def with_transaction_state_def
      with_transaction_sender_def with_receipt_def with_account_balance_def with_bundle_state_def
      with_anchor_def)

lemma builder_step_inv: "builder_inv b \<Longrightarrow> builder_step b c \<Longrightarrow> builder_inv c"
  by (erule builder_step.cases) (simp_all add: builder_inv_with_transaction)

lemma builder_new_inv [simp]: "builder_inv builder_new"
  by (simp add: builder_inv_def builder_new_def index_consistent_def)

interpretation builder: transition_system "\<lambda>b. b = builder_new" builder_step builder_inv
  by unfold_locales (auto intro: builder_step_inv)

text \<open>A snapshot's fields agree with each other.\<close>

definition wf_pending :: "'st PendingBlocks \<Rightarrow> bool" where
  "wf_pending pb \<longleftrightarrow>
     index_consistent (pb_transactions pb) (pb_transactions_by_hash pb)
   \<and> pb_headers pb \<noteq> [] \<and> pb_flashblocks pb \<noteq> []
   \<and> pb_earliest_header pb = hd (pb_headers pb) \<and> pb_latest_header pb = last (pb_headers pb)
   \<and> pb_latest_flashblock_index pb = fb_index (last (pb_flashblocks pb))"

lemma build_wf: "builder_inv b \<Longrightarrow> build b = Inr pb \<Longrightarrow> wf_pending pb"
  by (auto simp: build_def wf_pending_def builder_inv_def split: option.splits if_splits)

lemma build_fields:
  assumes "build b = Inr pb"
  shows "pb_flashblocks pb = pbb_flashblocks b" "pb_headers pb = pbb_headers b"
    "pb_transactions pb = pbb_transactions b"
    "pb_transaction_receipts pb = pbb_transaction_receipts b"
    "pb_transaction_state pb = pbb_transaction_state b"
    "pb_transaction_senders pb = pbb_transaction_senders b"
    "pb_anchor pb = pbb_anchor b" "pb_bundle_state pb = pbb_bundle_state b"
    "pb_account_balances pb = pbb_account_balances b"
    "pb_latest_header pb = last (pbb_headers b)" "pb_earliest_header pb = hd (pbb_headers b)"
    "pbb_headers b \<noteq> []" "pbb_flashblocks b \<noteq> []" "pbb_deferred_error b = None"
  using assms by (auto simp: build_def split: option.splits if_splits)

text \<open>
  C18. Whatever calls are made on a builder, a snapshot it builds has every transaction once,
  finds by hash exactly the listed transactions, and takes its bounds and its position
  from its first and last header and its last flashblock; a hash added twice makes the
  build fail with that hash.
\<close>

theorem builder_builds_wf:
  assumes "builder_step\<^sup>*\<^sup>* builder_new b" and "build b = Inr pb"
  shows "wf_pending pb
    \<and> (\<forall>h t. get_transaction_by_hash pb h = Some t \<longleftrightarrow>
         t \<in> set (get_pending_transactions pb) \<and> rt_hash t = h)
    \<and> distinct (get_pending_transaction_hashes pb)
    \<and> (\<forall>t. t \<in> set (get_pending_transactions pb) \<longrightarrow>
         build (with_transaction t b) = Inl (Build (DuplicateTransaction (rt_hash t))))"
proof -
  have inv: "builder_inv b" using assms(1) by (blast intro: builder.reachable_inv)
  then have wf: "wf_pending pb" using assms(2) by (rule build_wf)
  then have ic: "index_consistent (pb_transactions pb) (pb_transactions_by_hash pb)"
    by (simp add: wf_pending_def)
  have "build (with_transaction t b) = Inl (Build (DuplicateTransaction (rt_hash t)))"
    if "t \<in> set (pb_transactions pb)" for t
  proof -
    have "pbb_transactions_by_hash b (rt_hash t) = Some t"
      using inv that by (auto simp: builder_inv_def index_consistent_def build_fields [OF assms(2)])
    then show ?thesis by (simp add: build_def with_transaction_def Let_def build_fields [OF assms(2)])
  qed
  with wf ic show ?thesis
    by (simp add: get_transaction_by_hash_def get_pending_transactions_def
        get_pending_transaction_hashes_def index_consistent_def)
qed

definition example_rpc_tx :: "b256 \<Rightarrow> Transaction" where
  "example_rpc_tx h = \<lparr>rt_inner = default_tx h, rt_from = 0, rt_block_hash = None,
     rt_block_number = Some 8, rt_transaction_index = Some 0, rt_effective_gas_price = None,
     rt_block_timestamp = None\<rparr>"

lemma example_rpc_tx_hash [simp]: "rt_hash (example_rpc_tx h) = h"
  by (simp add: rt_hash_def example_rpc_tx_def)

theorem builder_builds_wf_witness:
  "let b = with_transaction (example_rpc_tx 5) (with_flashblocks [make_flashblock 8 0]
         (with_header \<lparr>sh_header = header_at 8, sh_hash = 0\<rparr> (builder_new :: nat PendingBlocksBuilder)))
   in build (with_transaction (example_rpc_tx 5) b) = Inl (Build (DuplicateTransaction 5))"
proof -
  let ?bnew = "builder_new :: nat PendingBlocksBuilder"
  let ?bh = "with_header \<lparr>sh_header = header_at 8, sh_hash = 0\<rparr> ?bnew"
  let ?bf = "with_flashblocks [make_flashblock 8 0] ?bh"
  let ?b = "with_transaction (example_rpc_tx 5) ?bf"
  have steps: "builder_step\<^sup>*\<^sup>* ?bnew ?b"
    by (meson builder_step.intros rtranclp.rtrancl_into_rtrancl rtranclp.rtrancl_refl)
  obtain pb where pb: "build ?b = Inr pb" and "pb_transactions pb = [example_rpc_tx 5]"
    by (simp add: build_def builder_defs builder_new_def Let_def)
  then show ?thesis
    using builder_builds_wf [OF steps pb] by (simp add: get_pending_transactions_def Let_def)
qed

section \<open>Deltas\<close>

text \<open>
  What a subscriber relies on: a snapshot that extends another by one flashblock shows the
  earlier view followed by its delta. Along any chain of such snapshots the deltas add up
  to the last view, so each item is streamed exactly once.
\<close>

locale delta_stream =
  fixes ext :: "'s \<Rightarrow> 's \<Rightarrow> bool"
    and view :: "'s \<Rightarrow> 'a list"
    and delta :: "'s \<Rightarrow> 'a list"
  assumes ext_view: "ext s t \<Longrightarrow> view t = view s @ delta t"
begin

lemma chain_view: "chained ext s ts \<Longrightarrow> view (last (s # ts)) = view s @ concat (map delta ts)"
proof (induction ts arbitrary: s)
  case (Cons t ts)
  then have "view (last (t # ts)) = view t @ concat (map delta ts)" by simp
  with Cons.prems show ?case by (simp add: ext_view)
qed simp

end

text \<open>
  A snapshot extends another by one flashblock when its flashblocks and transactions are
  the earlier ones followed by the new flashblock's, one transaction per entry of the
  wire list, and the earlier transactions keep their logs.
\<close>

definition logs_of :: "'st PendingBlocks \<Rightarrow> b256 \<Rightarrow> Log list" where
  "logs_of pb h =
     (case pb_transaction_receipts pb h of None \<Rightarrow> [] | Some r \<Rightarrow> rwb_logs (tr_inner r))"


definition covers :: "'st PendingBlocks \<Rightarrow> bool" where
  "covers pb \<longleftrightarrow> length (pb_transactions pb) =
     sum_list (map (\<lambda>fb. length (diff_transactions (fb_diff fb))) (pb_flashblocks pb))"

definition extends_by_one :: "'st PendingBlocks \<Rightarrow> 'st PendingBlocks \<Rightarrow> bool" where
  "extends_by_one s t \<longleftrightarrow>
     covers s \<and> covers t
   \<and> (\<exists>fb. pb_flashblocks t = pb_flashblocks s @ [fb])
   \<and> take (length (pb_transactions s)) (pb_transactions t) = pb_transactions s
   \<and> (\<forall>x \<in> set (pb_transactions s). logs_of t (rt_hash x) = logs_of s (rt_hash x))"

lemma previous_count:
  "previous_flashblocks_tx_count pb =
     sum_list (map (\<lambda>fb. length (diff_transactions (fb_diff fb))) (butlast (pb_flashblocks pb)))"
proof (cases "length (pb_flashblocks pb) \<le> 1")
  case True
  then have "butlast (pb_flashblocks pb) = []"
    by (cases "pb_flashblocks pb" rule: rev_cases) auto
  with True show ?thesis by (simp add: previous_flashblocks_tx_count_def)
next
  case False
  then show ?thesis by (simp add: previous_flashblocks_tx_count_def butlast_conv_take)
qed

lemma extends_drop:
  assumes "extends_by_one s t"
  shows "pb_transactions t =
    pb_transactions s @ drop (previous_flashblocks_tx_count t) (pb_transactions t)"
proof -
  have "previous_flashblocks_tx_count t = length (pb_transactions s)"
    using assms by (auto simp: extends_by_one_def previous_count covers_def)
  then show ?thesis using assms by (metis append_take_drop_id extends_by_one_def)
qed

interpretation hashes_stream: delta_stream extends_by_one
  get_pending_transaction_hashes get_latest_flashblock_transaction_hashes
proof
  fix s t :: "'st PendingBlocks"
  assume "extends_by_one s t"
  from extends_drop [OF this]
  show "get_pending_transaction_hashes t =
      get_pending_transaction_hashes s @ get_latest_flashblock_transaction_hashes t"
    unfolding get_pending_transaction_hashes_def get_latest_flashblock_transaction_hashes_def
    by (metis map_append)
qed

lemma tx_logs_filter: "tx_logs pb m x = filter (\<lambda>l. m (rl_inner l)) (logs_of pb (rt_hash x))"
  by (simp add: tx_logs_def logs_of_def split: option.split)

lemma tx_logs_ext:
  "extends_by_one s t \<Longrightarrow> x \<in> set (pb_transactions s) \<Longrightarrow> tx_logs t m x = tx_logs s m x"
  by (simp add: extends_by_one_def tx_logs_filter)

lemma logs_ext:
  assumes "extends_by_one s t"
  shows "get_pending_logs t m = get_pending_logs s m @ get_latest_flashblock_logs t m"
proof -
  have "map (tx_logs t m) (pb_transactions s) = map (tx_logs s m) (pb_transactions s)"
    using tx_logs_ext [OF assms] by simp
  then show ?thesis
    unfolding get_pending_logs_def get_latest_flashblock_logs_def
    using extends_drop [OF assms] by (metis concat_append map_append)
qed

interpretation logs_stream: delta_stream extends_by_one
  "\<lambda>pb. get_pending_logs pb m" "\<lambda>pb. get_latest_flashblock_logs pb m"
  for m
  by unfold_locales (rule logs_ext)

text \<open>
  Streaming is exact: over snapshots that each extend the previous one by a flashblock,
  the transaction hashes streamed as deltas are, in order, exactly what the last snapshot
  holds beyond the first, each once; likewise the logs of every filter.
\<close>

theorem deltas_stream_once:
  assumes "chained extends_by_one s ts"
  shows "get_pending_transaction_hashes (last (s # ts)) =
      get_pending_transaction_hashes s
        @ concat (map get_latest_flashblock_transaction_hashes ts)
    \<and> get_pending_logs (last (s # ts)) m =
      get_pending_logs s m @ concat (map (\<lambda>pb. get_latest_flashblock_logs pb m) ts)"
  using hashes_stream.chain_view [OF assms] logs_stream.chain_view [OF assms, of m] by blast

text \<open>A snapshot of block 8 with one empty wire transaction per listed hash.\<close>

definition example_flashblock :: "u64 \<Rightarrow> nat \<Rightarrow> FlashBlock" where
  "example_flashblock i n =
     (make_flashblock 8 i)\<lparr>fb_diff := default_diff\<lparr>diff_transactions := replicate n []\<rparr>\<rparr>"

definition example_snapshot :: "FlashBlock list \<Rightarrow> b256 list \<Rightarrow> nat PendingBlocks" where
  "example_snapshot fbs hs = \<lparr>pb_earliest_header = \<lparr>sh_header = header_at 8, sh_hash = 0\<rparr>,
     pb_latest_header = \<lparr>sh_header = header_at 8, sh_hash = 0\<rparr>,
     pb_headers = [\<lparr>sh_header = header_at 8, sh_hash = 0\<rparr>],
     pb_latest_flashblock_index = fb_index (last fbs), pb_flashblocks = fbs,
     pb_transactions = map example_rpc_tx hs, pb_account_balances = Map.empty,
     pb_transaction_receipts = Map.empty,
     pb_transactions_by_hash = map_of (map (\<lambda>h. (h, example_rpc_tx h)) hs),
     pb_transaction_state = Map.empty, pb_transaction_senders = Map.empty,
     pb_bundle_state = bundle_default,
     pb_anchor = Some \<lparr>sh_header = header_at 7, sh_hash = 0\<rparr>\<rparr>"

lemma example_snapshot_hashes [simp]: "get_pending_transaction_hashes (example_snapshot fbs hs) = hs"
  by (simp add: get_pending_transaction_hashes_def example_snapshot_def comp_def)

theorem deltas_stream_once_witness:
  "concat (map get_latest_flashblock_transaction_hashes
       [example_snapshot [example_flashblock 0 1, example_flashblock 1 2] [11, 12, 13]]) = [12, 13]"
proof -
  let ?s = "example_snapshot [example_flashblock 0 1] [11]"
  let ?t = "example_snapshot [example_flashblock 0 1, example_flashblock 1 2] [11, 12, 13]"
  have "chained extends_by_one ?s [?t]"
    by (simp add: extends_by_one_def covers_def logs_of_def example_snapshot_def example_flashblock_def)
  from deltas_stream_once [OF this, of "\<lambda>_. True"]
  show ?thesis by simp
qed

text \<open>
  The latest block is served from one block only: its transactions are those of the
  latest header's number in block order, its withdrawals are those of that block's last
  flashblock, its receipts line up with its transactions, and the index read agrees.
\<close>

theorem latest_block_consistent:
  "rbk_transactions (get_latest_block pb True) =
      Full (get_transactions_for_block pb (latest_block_number pb))
   \<and> rbk_transactions (get_latest_block pb False) =
      Hashes (map rt_hash (get_transactions_for_block pb (latest_block_number pb)))
   \<and> rbk_withdrawals (get_latest_block pb full) =
      Some (let own = filter (\<lambda>fb. block_number_of fb = latest_block_number pb) (pb_flashblocks pb)
            in if own = [] then [] else diff_withdrawals (fb_diff (last own)))
   \<and> get_latest_block_transaction pb i =
      (if i < length (get_transactions_for_block pb (latest_block_number pb))
       then Some (get_transactions_for_block pb (latest_block_number pb) ! i) else None)
   \<and> map Some (get_latest_block_receipts pb) =
      filter (\<lambda>r. r \<noteq> None)
        (map (\<lambda>t. get_receipt pb (rt_hash t)) (get_transactions_for_block pb (latest_block_number pb)))"
proof -
  have "map Some (List.map_filter f xs) = filter (\<lambda>r. r \<noteq> None) (map f xs)"
    for f :: "Transaction \<Rightarrow> TransactionReceipt option" and xs
    by (induction xs) (auto simp: List.map_filter_simps split: option.split)
  moreover have "get_withdrawals pb =
      (let own = filter (\<lambda>fb. block_number_of fb = latest_block_number pb) (pb_flashblocks pb)
       in if own = [] then [] else diff_withdrawals (fb_diff (last own)))"
    by (auto simp: get_withdrawals_def Let_def latest_block_number_def find_rev_None
        find_rev_Some_last block_number_of_def split: option.split)
  ultimately show ?thesis
    by (simp add: get_latest_block_def get_latest_block_transaction_def get_latest_block_receipts_def
        get_receipt_def latest_block_number_def Let_def)
qed

end
