(* ===== verification/Assembler.thy ===== *)
theory Assembler
  imports Chain Errors
begin

text \<open>
  Block assembly (\<open>block_assembler.rs\<close>). The chain specification's fork times, payload
  decoding, deposit parsing and requests hashing belong to other crates: they are the
  fields of \<open>chain_spec\<close>, an argument of both functions.
\<close>

record ExecutionPayloadV1 =
  ep_parent_hash :: b256
  ep_fee_recipient :: address
  ep_state_root :: b256
  ep_receipts_root :: b256
  ep_logs_bloom :: bloom
  ep_prev_randao :: b256
  ep_block_number :: u64
  ep_gas_limit :: u64
  ep_gas_used :: u64
  ep_timestamp :: u64
  ep_extra_data :: bytes
  ep_base_fee_per_gas :: u256
  ep_block_hash :: b256
  ep_transactions :: "bytes list"

record ExecutionPayloadV2 =
  ep2_payload_inner :: ExecutionPayloadV1
  ep2_withdrawals :: "withdrawal list"

record ExecutionPayloadV3 =
  ep3_payload_inner :: ExecutionPayloadV2
  ep3_blob_gas_used :: u64
  ep3_excess_blob_gas :: u64

record chain_spec =
  is_amsterdam_active_at_timestamp :: "u64 \<Rightarrow> bool"
  is_prague_active_at_timestamp :: "u64 \<Rightarrow> bool"
  try_into_block :: "ExecutionPayloadV3 \<Rightarrow> string + Block"
  parse_deposits_from_receipts :: "receipt list \<Rightarrow> string + bytes"
  hash_requests :: "requests \<Rightarrow> b256"

record AssembledBlock =
  ab_block :: Block
  ab_header :: SealedHeader

definition DEPOSIT_REQUEST_TYPE :: u8 where
  "DEPOSIT_REQUEST_TYPE = 0"

text \<open>
  \<open>Requests::push_request_with_type\<close>: the type byte followed by the data; empty data adds
  nothing.
\<close>

definition push_request_with_type :: "u8 \<Rightarrow> bytes \<Rightarrow> requests \<Rightarrow> requests" where
  "push_request_with_type ty d rs = (if d = [] then rs else rs @ [ty # d])"

text \<open>The wire receipts of a block's flashblocks, later ones overriding earlier ones.\<close>

definition wire_receipts :: "FlashBlock list \<Rightarrow> b256 \<rightharpoonup> receipt" where
  "wire_receipts fbs = foldl (\<lambda>acc fb. acc ++ md_receipts (fb_metadata fb)) Map.empty fbs"

definition requests_hash ::
    "chain_spec \<Rightarrow> Block \<Rightarrow> FlashBlock list \<Rightarrow> StateProcessorError + b256 option" where
  "requests_hash spec block fbs =
     (if \<not> is_prague_active_at_timestamp spec (hd_timestamp (blk_header block)) then Inr None
      else
        case (if fbs = [] then None else diff_requests (fb_diff (last fbs))) of
          Some requests \<Rightarrow> Inr (Some (hash_requests spec requests))
        | None \<Rightarrow>
            (let receipts = wire_receipts fbs in
             res_bind
               (map_res (\<lambda>t. ok_or (receipts (tx_hash t)) (Execution (MissingReceipt (tx_hash t))))
                  (blk_transactions block))
               (\<lambda>ordered. res_bind
                  (map_err (\<lambda>e. Execution (BlockConversion e))
                     (parse_deposits_from_receipts spec ordered))
                  (\<lambda>deposits. Inr (Some (hash_requests spec
                     (push_request_with_type DEPOSIT_REQUEST_TYPE deposits []))))))) "

text \<open>The payload the assembler hands to the decoder.\<close>

definition assemble_payload ::
    "ExecutionPayloadBaseV1 \<Rightarrow> FlashBlock \<Rightarrow> FlashBlock list \<Rightarrow> ExecutionPayloadV3" where
  "assemble_payload base latest fbs =
     \<lparr>ep3_payload_inner =
        \<lparr>ep2_payload_inner =
           \<lparr>ep_parent_hash = base_parent_hash base,
            ep_fee_recipient = base_fee_recipient base,
            ep_state_root = diff_state_root (fb_diff latest),
            ep_receipts_root = diff_receipts_root (fb_diff latest),
            ep_logs_bloom = diff_logs_bloom (fb_diff latest),
            ep_prev_randao = base_prev_randao base,
            ep_block_number = base_block_number base,
            ep_gas_limit = base_gas_limit base,
            ep_gas_used = diff_gas_used (fb_diff latest),
            ep_timestamp = base_timestamp base,
            ep_extra_data = base_extra_data base,
            ep_base_fee_per_gas = base_base_fee_per_gas base,
            ep_block_hash = diff_block_hash (fb_diff latest),
            ep_transactions = concat (map (\<lambda>fb. diff_transactions (fb_diff fb)) fbs)\<rparr>,
         ep2_withdrawals = diff_withdrawals (fb_diff latest)\<rparr>,
      ep3_blob_gas_used = diff_blob_gas_used (fb_diff latest),
      ep3_excess_blob_gas = diff_excess_blob_gas (fb_diff latest)\<rparr>"

definition seal :: "Header \<Rightarrow> b256 \<Rightarrow> SealedHeader" where
  "seal h hash = \<lparr>sh_header = h, sh_hash = hash\<rparr>"

text \<open>The header fields the payload format lacks: the beacon root, the requests hash and the slot.\<close>

definition set_beacon_root :: "ExecutionPayloadBaseV1 \<Rightarrow> Block \<Rightarrow> Block" where
  "set_beacon_root base b = b\<lparr>blk_header := (blk_header b)
     \<lparr>hd_parent_beacon_block_root := Some (base_parent_beacon_block_root base)\<rparr>\<rparr>"

definition finish_header ::
    "chain_spec \<Rightarrow> ExecutionPayloadBaseV1 \<Rightarrow> b256 option \<Rightarrow> Header \<Rightarrow> Header" where
  "finish_header spec base rh h =
     (let h2 = h\<lparr>hd_requests_hash := rh\<rparr> in
      if is_amsterdam_active_at_timestamp spec (base_timestamp base)
      then h2\<lparr>hd_slot_number := base_slot_number base\<rparr> else h2)"

definition assemble ::
    "chain_spec \<Rightarrow> FlashBlock list \<Rightarrow> StateProcessorError + AssembledBlock" where
  "assemble spec fbs =
     (case fbs of
        [] \<Rightarrow> Inl (Protocol EmptyFlashblocks)
      | first # _ \<Rightarrow>
          (case fb_base first of
             None \<Rightarrow> Inl (Protocol MissingBase)
           | Some base \<Rightarrow>
               if base_block_number base = 0 then Inl (Protocol GenesisFlashblock)
               else if is_amsterdam_active_at_timestamp spec (base_timestamp base)
                       \<and> base_slot_number base = None
                 then Inl (Protocol (MissingSlotNumber (base_block_number base)))
               else
                 (case try_into_block spec (assemble_payload base (last fbs) fbs) of
                    Inl e \<Rightarrow> Inl (Execution (BlockConversion e))
                  | Inr decoded \<Rightarrow>
                      let block1 = set_beacon_root base decoded in
                      (case requests_hash spec block1 fbs of
                         Inl e \<Rightarrow> Inl e
                       | Inr rh \<Rightarrow>
                           let block2 = block1\<lparr>blk_header := finish_header spec base rh (blk_header block1)\<rparr>
                           in Inr \<lparr>ab_block = block2, ab_header = seal (blk_header block2) 0\<rparr>))))"

section \<open>Properties\<close>

lemma wire_receipts_snoc:
  "wire_receipts (fbs @ [fb]) = wire_receipts fbs ++ md_receipts (fb_metadata fb)"
  by (simp add: wire_receipts_def)

lemma wire_receipts_latest:
  "wire_receipts fbs h =
     (case find (\<lambda>fb. md_receipts (fb_metadata fb) h \<noteq> None) (rev fbs) of
        None \<Rightarrow> None | Some fb \<Rightarrow> md_receipts (fb_metadata fb) h)"
proof (induction fbs rule: rev_induct)
  case Nil
  then show ?case by (simp add: wire_receipts_def)
next
  case (snoc fb fbs)
  then show ?case
    by (auto simp: wire_receipts_snoc map_add_def split: option.split)
qed

lemma requests_hash_cong:
  "hd_timestamp (blk_header b) = hd_timestamp (blk_header c) \<Longrightarrow>
   blk_transactions b = blk_transactions c \<Longrightarrow> requests_hash spec b fbs = requests_hash spec c fbs"
  by (simp only: requests_hash_def)

text \<open>The success case of assembly, taken apart.\<close>

definition assembled_from ::
    "chain_spec \<Rightarrow> FlashBlock list \<Rightarrow> ExecutionPayloadBaseV1 \<Rightarrow> Block \<Rightarrow> b256 option \<Rightarrow> AssembledBlock \<Rightarrow> bool" where
  "assembled_from spec fbs base decoded rh ab \<longleftrightarrow>
     fbs \<noteq> [] \<and> fb_base (hd fbs) = Some base \<and> base_block_number base \<noteq> 0
   \<and> \<not> (is_amsterdam_active_at_timestamp spec (base_timestamp base) \<and> base_slot_number base = None)
   \<and> try_into_block spec (assemble_payload base (last fbs) fbs) = Inr decoded
   \<and> requests_hash spec decoded fbs = Inr rh
   \<and> ab_block ab = decoded\<lparr>blk_header :=
        finish_header spec base rh (blk_header (set_beacon_root base decoded))\<rparr>
   \<and> ab_header ab = seal (blk_header (ab_block ab)) 0"

lemma assemble_Inr:
  assumes "assemble spec fbs = Inr ab"
  shows "\<exists>base decoded rh. assembled_from spec fbs base decoded rh ab"
proof -
  obtain first rest where f: "fbs = first # rest"
    using assms by (cases fbs) (auto simp: assemble_def)
  obtain base where b: "fb_base first = Some base" "base_block_number base \<noteq> 0"
    "\<not> (is_amsterdam_active_at_timestamp spec (base_timestamp base) \<and> base_slot_number base = None)"
    using assms f by (auto simp: assemble_def split: option.splits if_splits)
  obtain decoded where d: "try_into_block spec (assemble_payload base (last fbs) fbs) = Inr decoded"
    using assms f b by (cases "try_into_block spec (assemble_payload base (last fbs) fbs)")
      (auto simp: assemble_def)
  have rc: "requests_hash spec (set_beacon_root base decoded) fbs = requests_hash spec decoded fbs"
    by (rule requests_hash_cong) (simp_all add: set_beacon_root_def)
  obtain rh where r: "requests_hash spec decoded fbs = Inr rh"
    using assms f b d rc by (cases "requests_hash spec decoded fbs") (auto simp: assemble_def Let_def)
  have "ab = (let block = (set_beacon_root base decoded)\<lparr>blk_header :=
      finish_header spec base rh (blk_header (set_beacon_root base decoded))\<rparr>
    in \<lparr>ab_block = block, ab_header = seal (blk_header block) 0\<rparr>)"
  proof -
    have "assemble spec fbs = Inr (let block = (set_beacon_root base decoded)\<lparr>blk_header :=
        finish_header spec base rh (blk_header (set_beacon_root base decoded))\<rparr>
      in \<lparr>ab_block = block, ab_header = seal (blk_header block) 0\<rparr>)"
      using b d r rc by (simp only: f assemble_def list.case option.case sum.case Let_def if_False)
    with assms show ?thesis by (simp only: sum.inject)
  qed
  then have "assembled_from spec fbs base decoded rh ab"
    using b d r by (simp add: f assembled_from_def Let_def) (simp add: set_beacon_root_def)
  then show ?thesis by blast
qed

text \<open>
  The receipt the wire gives a transaction: that of the last flashblock of the block that
  has one. It is what the merged map returns.
\<close>

definition last_receipt :: "FlashBlock list \<Rightarrow> b256 \<Rightarrow> receipt option" where
  "last_receipt fbs h = (case find (\<lambda>fb. md_receipts (fb_metadata fb) h \<noteq> None) (rev fbs) of
     None \<Rightarrow> None | Some fb \<Rightarrow> md_receipts (fb_metadata fb) h)"

lemma wire_receipts_last: "wire_receipts fbs = last_receipt fbs"
  by (rule ext) (simp add: last_receipt_def wire_receipts_latest)

lemma requests_hash_Inl_iff:
  assumes "fbs \<noteq> []"
  shows "requests_hash spec b fbs = Inl e \<longleftrightarrow>
     is_prague_active_at_timestamp spec (hd_timestamp (blk_header b))
   \<and> diff_requests (fb_diff (last fbs)) = None
   \<and> ((\<exists>us t vs. blk_transactions b = us @ t # vs \<and> (\<forall>u \<in> set us. last_receipt fbs (tx_hash u) \<noteq> None)
        \<and> last_receipt fbs (tx_hash t) = None \<and> e = Execution (MissingReceipt (tx_hash t)))
    \<or> (\<exists>rs m. map (\<lambda>t. last_receipt fbs (tx_hash t)) (blk_transactions b) = map Some rs
        \<and> parse_deposits_from_receipts spec rs = Inl m \<and> e = Execution (BlockConversion m)))"
    (is "_ \<longleftrightarrow> ?p \<and> ?n \<and> (?missing \<or> ?deposits)")
proof -
  let ?f = "\<lambda>t. ok_or (last_receipt fbs (tx_hash t)) (Execution (MissingReceipt (tx_hash t)))"
  have f: "?f t = Inl e \<longleftrightarrow> last_receipt fbs (tx_hash t) = None \<and> e = Execution (MissingReceipt (tx_hash t))"
    "(\<exists>y. ?f t = Inr y) \<longleftrightarrow> last_receipt fbs (tx_hash t) \<noteq> None" for t
    by (cases "last_receipt fbs (tx_hash t)"; auto)+
  have m: "?missing \<longleftrightarrow> map_res ?f (blk_transactions b) = Inl e"
    by (simp only: map_res_Inl_iff f)
  have d: "?deposits \<longleftrightarrow> (\<exists>rs m. map_res ?f (blk_transactions b) = Inr rs
      \<and> parse_deposits_from_receipts spec rs = Inl m \<and> e = Execution (BlockConversion m))"
    by (simp only: map_res_ok_or_Inr)
  show ?thesis
    unfolding m d using assms
    by (cases "map_res ?f (blk_transactions b)")
      (auto simp: requests_hash_def wire_receipts_last res_bind_def map_err_def split: option.splits sum.splits)
qed

lemma requests_hash_Inr_iff:
  assumes "fbs \<noteq> []"
  shows "requests_hash spec b fbs = Inr rh \<longleftrightarrow>
     (if is_prague_active_at_timestamp spec (hd_timestamp (blk_header b)) then
        (case diff_requests (fb_diff (last fbs)) of
           Some requests \<Rightarrow> rh = Some (hash_requests spec requests)
         | None \<Rightarrow> (\<exists>rs d. map (\<lambda>t. last_receipt fbs (tx_hash t)) (blk_transactions b) = map Some rs
             \<and> parse_deposits_from_receipts spec rs = Inr d
             \<and> rh = Some (hash_requests spec (if d = [] then [] else [0 # d]))))
      else rh = None)"
  using assms
  by (auto simp: requests_hash_def wire_receipts_last res_bind_eq_Inr map_res_ok_or_Inr
      push_request_with_type_def DEPOSIT_REQUEST_TYPE_def split: option.split)

text \<open>
  C19. Assembly fails exactly in these cases, in this order and with these errors, and in every
  other case it returns a block: there are no flashblocks; the first one has no base; the
  base names block zero; it is an Amsterdam block whose base has no slot number; the decoder
  rejects the payload, and its message is the error's; and, when Prague is active and the
  last flashblock carries no requests list, some transaction of the block has no receipt on
  the wire, and the error names the first such transaction in block order, or all have one
  and the deposits in their receipts, in block order, do not parse.
\<close>

theorem assemble_errors:
  "assemble spec fbs = Inl e \<longleftrightarrow>
     fbs = [] \<and> e = Protocol EmptyFlashblocks
   \<or> fbs \<noteq> [] \<and> fb_base (hd fbs) = None \<and> e = Protocol MissingBase
   \<or> (\<exists>base. fbs \<noteq> [] \<and> fb_base (hd fbs) = Some base
      \<and> (let payload = try_into_block spec (assemble_payload base (last fbs) fbs);
             no_slot = is_amsterdam_active_at_timestamp spec (base_timestamp base)
               \<and> base_slot_number base = None
         in if base_block_number base = 0 then e = Protocol GenesisFlashblock
            else if no_slot then e = Protocol (MissingSlotNumber (base_block_number base))
            else (\<exists>m. payload = Inl m \<and> e = Execution (BlockConversion m))
              \<or> (\<exists>b. payload = Inr b
                  \<and> is_prague_active_at_timestamp spec (hd_timestamp (blk_header b))
                  \<and> diff_requests (fb_diff (last fbs)) = None
                  \<and> ((\<exists>us t vs. blk_transactions b = us @ t # vs
                        \<and> (\<forall>u \<in> set us. last_receipt fbs (tx_hash u) \<noteq> None)
                        \<and> last_receipt fbs (tx_hash t) = None
                        \<and> e = Execution (MissingReceipt (tx_hash t)))
                     \<or> (\<exists>rs m. map (\<lambda>t. last_receipt fbs (tx_hash t)) (blk_transactions b) = map Some rs
                        \<and> parse_deposits_from_receipts spec rs = Inl m
                        \<and> e = Execution (BlockConversion m))))))"
proof (cases "fbs = [] \<or> fb_base (hd fbs) = None")
  case True
  then show ?thesis by (cases fbs) (auto simp: assemble_def)
next
  case False
  then obtain f rest base where f: "fbs = f # rest" "fb_base f = Some base" by (cases fbs) auto
  then have ne: "fbs \<noteq> []" by simp
  have rc: "requests_hash spec (set_beacon_root base b) fbs = requests_hash spec b fbs" for b
    by (rule requests_hash_cong) (simp_all add: set_beacon_root_def)
  let ?no_slot = "is_amsterdam_active_at_timestamp spec (base_timestamp base) \<and> base_slot_number base = None"
  let ?payload = "try_into_block spec (assemble_payload base (last fbs) fbs)"
  have "assemble spec fbs = Inl e \<longleftrightarrow>
      (if base_block_number base = 0 then e = Protocol GenesisFlashblock
       else if ?no_slot then e = Protocol (MissingSlotNumber (base_block_number base))
       else (\<exists>m. ?payload = Inl m \<and> e = Execution (BlockConversion m))
         \<or> (\<exists>b. ?payload = Inr b \<and> requests_hash spec b fbs = Inl e))"
    using rc unfolding assemble_def Let_def f(1)
    by (auto simp: f(2) split: sum.splits)
  then show ?thesis
    unfolding requests_hash_Inl_iff [OF ne] by (simp add: f Let_def)
qed

text \<open>
  What payload decoding documents: one transaction per encoded one, in order, and the
  header fields copied from the payload (\<open>prev_randao\<close> is the header's mix hash), with no
  access list hash and no slot number.
\<close>

definition decodes_faithfully :: "chain_spec \<Rightarrow> (bytes \<Rightarrow> TransactionSigned) \<Rightarrow> bool" where
  "decodes_faithfully spec decode_tx \<longleftrightarrow>
     (\<forall>p b. try_into_block spec p = Inr b \<longrightarrow>
        (let p1 = ep2_payload_inner (ep3_payload_inner p); h = blk_header b in
         blk_transactions b = map decode_tx (ep_transactions p1)
       \<and> blk_withdrawals b = Some (ep2_withdrawals (ep3_payload_inner p))
       \<and> hd_parent_hash h = ep_parent_hash p1 \<and> hd_number h = ep_block_number p1
       \<and> hd_timestamp h = ep_timestamp p1 \<and> hd_gas_limit h = ep_gas_limit p1
       \<and> hd_gas_used h = ep_gas_used p1 \<and> hd_state_root h = ep_state_root p1
       \<and> hd_beneficiary h = ep_fee_recipient p1 \<and> hd_slot_number h = None
       \<and> hd_base_fee_per_gas h = Some (ucast (ep_base_fee_per_gas p1))
       \<and> hd_receipts_root h = ep_receipts_root p1 \<and> hd_logs_bloom h = ep_logs_bloom p1
       \<and> hd_mix_hash h = ep_prev_randao p1 \<and> hd_extra_data h = ep_extra_data p1
       \<and> hd_blob_gas_used h = Some (ep3_blob_gas_used p)
       \<and> hd_excess_blob_gas h = Some (ep3_excess_blob_gas p) \<and> hd_block_access_list_hash h = None))"

lemma decodes_faithfullyD:
  assumes "decodes_faithfully spec dt"
    and "try_into_block spec (assemble_payload base latest fbs) = Inr b"
  shows "blk_transactions b = map dt (concat (map (\<lambda>fb. diff_transactions (fb_diff fb)) fbs))"
    and "blk_withdrawals b = Some (diff_withdrawals (fb_diff latest))"
    and "hd_parent_hash (blk_header b) = base_parent_hash base"
    and "hd_number (blk_header b) = base_block_number base"
    and "hd_timestamp (blk_header b) = base_timestamp base"
    and "hd_gas_limit (blk_header b) = base_gas_limit base"
    and "hd_gas_used (blk_header b) = diff_gas_used (fb_diff latest)"
    and "hd_state_root (blk_header b) = diff_state_root (fb_diff latest)"
    and "hd_beneficiary (blk_header b) = base_fee_recipient base"
    and "hd_slot_number (blk_header b) = None"
    and "hd_base_fee_per_gas (blk_header b) = Some (ucast (base_base_fee_per_gas base))"
    and "hd_receipts_root (blk_header b) = diff_receipts_root (fb_diff latest)"
    and "hd_logs_bloom (blk_header b) = diff_logs_bloom (fb_diff latest)"
    and "hd_mix_hash (blk_header b) = base_prev_randao base"
    and "hd_extra_data (blk_header b) = base_extra_data base"
    and "hd_blob_gas_used (blk_header b) = Some (diff_blob_gas_used (fb_diff latest))"
    and "hd_excess_blob_gas (blk_header b) = Some (diff_excess_blob_gas (fb_diff latest))"
    and "hd_block_access_list_hash (blk_header b) = None"
  using assms by (auto simp: decodes_faithfully_def assemble_payload_def Let_def)

lemma finish_header_simps [simp]:
  "hd_parent_hash (finish_header spec base rh h) = hd_parent_hash h"
  "hd_number (finish_header spec base rh h) = hd_number h"
  "hd_timestamp (finish_header spec base rh h) = hd_timestamp h"
  "hd_gas_limit (finish_header spec base rh h) = hd_gas_limit h"
  "hd_gas_used (finish_header spec base rh h) = hd_gas_used h"
  "hd_state_root (finish_header spec base rh h) = hd_state_root h"
  "hd_beneficiary (finish_header spec base rh h) = hd_beneficiary h"
  "hd_parent_beacon_block_root (finish_header spec base rh h) = hd_parent_beacon_block_root h"
  "hd_requests_hash (finish_header spec base rh h) = rh"
  "hd_base_fee_per_gas (finish_header spec base rh h) = hd_base_fee_per_gas h"
  "hd_receipts_root (finish_header spec base rh h) = hd_receipts_root h"
  "hd_logs_bloom (finish_header spec base rh h) = hd_logs_bloom h"
  "hd_mix_hash (finish_header spec base rh h) = hd_mix_hash h"
  "hd_extra_data (finish_header spec base rh h) = hd_extra_data h"
  "hd_blob_gas_used (finish_header spec base rh h) = hd_blob_gas_used h"
  "hd_excess_blob_gas (finish_header spec base rh h) = hd_excess_blob_gas h"
  "hd_block_access_list_hash (finish_header spec base rh h) = hd_block_access_list_hash h"
  "hd_ommers_hash (finish_header spec base rh h) = hd_ommers_hash h"
  "hd_transactions_root (finish_header spec base rh h) = hd_transactions_root h"
  "hd_withdrawals_root (finish_header spec base rh h) = hd_withdrawals_root h"
  "hd_difficulty (finish_header spec base rh h) = hd_difficulty h"
  "hd_nonce (finish_header spec base rh h) = hd_nonce h"
  "hd_slot_number (finish_header spec base rh h) =
     (if is_amsterdam_active_at_timestamp spec (base_timestamp base) then base_slot_number base
      else hd_slot_number h)"
  by (simp_all add: finish_header_def Let_def)

lemma assemble_fields:
  assumes "decodes_faithfully spec dt" and "assemble spec fbs = Inr ab"
  shows "\<exists>base. fb_base (hd fbs) = Some base \<and> fbs \<noteq> []
    \<and> blk_transactions (ab_block ab) = map dt (concat (map (\<lambda>fb. diff_transactions (fb_diff fb)) fbs))
    \<and> hd_number (blk_header (ab_block ab)) = base_block_number base
    \<and> hd_timestamp (blk_header (ab_block ab)) = base_timestamp base
    \<and> hd_base_fee_per_gas (blk_header (ab_block ab)) = Some (ucast (base_base_fee_per_gas base))
    \<and> ab_header ab = seal (blk_header (ab_block ab)) 0"
proof -
  obtain base decoded rh where a: "assembled_from spec fbs base decoded rh ab"
    using assemble_Inr [OF assms(2)] by blast
  then have "try_into_block spec (assemble_payload base (last fbs) fbs) = Inr decoded"
    by (simp add: assembled_from_def)
  from decodes_faithfullyD [OF assms(1) this] a show ?thesis
    by (auto simp: assembled_from_def set_beacon_root_def)
qed

text \<open>
  C20. Where every field of an assembled block comes from, for a decoder that copies the
  payload's fields. From the first flashblock's base: block number, which is not zero,
  parent hash, timestamp, fee recipient, randomness, gas limit, extra data, base fee, beacon
  root, and the slot number exactly under Amsterdam. From the last flashblock's diff: state
  root, receipts root, logs bloom, gas used, blob gas used and excess, and the withdrawals.
  The transactions are those of all flashblocks in order. There is a requests hash exactly
  from Prague on: of the last flashblock's list when it carries one, and otherwise of the
  deposits parsed from the wire receipts of the block's transactions, in block order and
  the last flashblock's receipt for each, with no entry when there is no deposit. There is
  no access list hash, the remaining fields (ommers, difficulty, nonce, transactions and
  withdrawals root) are as the decoder computed them, and the sealed header is the block's
  own with the zero hash.
\<close>

theorem assemble_provenance:
  assumes "decodes_faithfully spec dt" and "assemble spec fbs = Inr ab"
  shows "\<exists>base decoded. fb_base (hd fbs) = Some base \<and> fbs \<noteq> []
    \<and> try_into_block spec (assemble_payload base (last fbs) fbs) = Inr decoded
    \<and> (let h = blk_header (ab_block ab); latest = fb_diff (last fbs);
           txs = map dt (concat (map (\<lambda>fb. diff_transactions (fb_diff fb)) fbs));
           amsterdam = is_amsterdam_active_at_timestamp spec (base_timestamp base);
           prague = is_prague_active_at_timestamp spec (base_timestamp base)
       in blk_transactions (ab_block ab) = txs
        \<and> blk_withdrawals (ab_block ab) = Some (diff_withdrawals latest)
        \<and> hd_number h = base_block_number base \<and> hd_number h \<noteq> 0
        \<and> hd_parent_hash h = base_parent_hash base \<and> hd_timestamp h = base_timestamp base
        \<and> hd_beneficiary h = base_fee_recipient base \<and> hd_mix_hash h = base_prev_randao base
        \<and> hd_gas_limit h = base_gas_limit base \<and> hd_extra_data h = base_extra_data base
        \<and> hd_base_fee_per_gas h = Some (ucast (base_base_fee_per_gas base))
        \<and> hd_parent_beacon_block_root h = Some (base_parent_beacon_block_root base)
        \<and> hd_slot_number h = (if amsterdam then base_slot_number base else None)
        \<and> \<not> (amsterdam \<and> hd_slot_number h = None)
        \<and> hd_state_root h = diff_state_root latest \<and> hd_receipts_root h = diff_receipts_root latest
        \<and> hd_logs_bloom h = diff_logs_bloom latest \<and> hd_gas_used h = diff_gas_used latest
        \<and> hd_blob_gas_used h = Some (diff_blob_gas_used latest)
        \<and> hd_excess_blob_gas h = Some (diff_excess_blob_gas latest)
        \<and> (if prague then
             (case diff_requests latest of
                Some requests \<Rightarrow> hd_requests_hash h = Some (hash_requests spec requests)
              | None \<Rightarrow> (\<exists>rs d. map (\<lambda>t. last_receipt fbs (tx_hash t)) txs = map Some rs
                  \<and> parse_deposits_from_receipts spec rs = Inr d
                  \<and> hd_requests_hash h = Some (hash_requests spec (if d = [] then [] else [0 # d]))))
           else hd_requests_hash h = None)
        \<and> hd_block_access_list_hash h = None
        \<and> hd_ommers_hash h = hd_ommers_hash (blk_header decoded)
        \<and> hd_difficulty h = hd_difficulty (blk_header decoded)
        \<and> hd_nonce h = hd_nonce (blk_header decoded)
        \<and> hd_transactions_root h = hd_transactions_root (blk_header decoded)
        \<and> hd_withdrawals_root h = hd_withdrawals_root (blk_header decoded)
        \<and> ab_header ab = seal h 0)"
proof -
  obtain base decoded rh where a: "assembled_from spec fbs base decoded rh ab"
    using assemble_Inr [OF assms(2)] by blast
  then have d: "try_into_block spec (assemble_payload base (last fbs) fbs) = Inr decoded"
    and r: "requests_hash spec decoded fbs = Inr rh" and ne: "fbs \<noteq> []"
    by (simp_all add: assembled_from_def)
  note f = decodes_faithfullyD [OF assms(1) d]
  have "rh = hd_requests_hash (blk_header (ab_block ab))" using a by (simp add: assembled_from_def)
  note q = r [unfolded requests_hash_Inr_iff [OF ne] f(1,5), unfolded this]
  show ?thesis
    unfolding Let_def
    by (intro exI [of _ base] exI [of _ decoded] conjI; (rule q)?)
      (use a in \<open>auto simp: assembled_from_def f set_beacon_root_def\<close>)
qed

text \<open>A decoder for the witnesses: it copies the fields and gives each transaction its length as hash.\<close>

definition example_decode_tx :: "bytes \<Rightarrow> TransactionSigned" where
  "example_decode_tx b = default_tx (of_nat (length b))"

definition example_spec :: chain_spec where
  "example_spec = \<lparr>is_amsterdam_active_at_timestamp = (\<lambda>t. t \<ge> 100),
     is_prague_active_at_timestamp = (\<lambda>t. t \<ge> 50),
     try_into_block = (\<lambda>p. let p1 = ep2_payload_inner (ep3_payload_inner p) in
        Inr \<lparr>blk_header = default_header\<lparr>hd_parent_hash := ep_parent_hash p1,
               hd_number := ep_block_number p1, hd_timestamp := ep_timestamp p1,
               hd_gas_limit := ep_gas_limit p1, hd_gas_used := ep_gas_used p1,
               hd_state_root := ep_state_root p1, hd_beneficiary := ep_fee_recipient p1,
               hd_base_fee_per_gas := Some (ucast (ep_base_fee_per_gas p1)),
               hd_receipts_root := ep_receipts_root p1, hd_logs_bloom := ep_logs_bloom p1,
               hd_mix_hash := ep_prev_randao p1, hd_extra_data := ep_extra_data p1,
               hd_blob_gas_used := Some (ep3_blob_gas_used p),
               hd_excess_blob_gas := Some (ep3_excess_blob_gas p)\<rparr>,
             blk_transactions = map example_decode_tx (ep_transactions p1),
             blk_withdrawals = Some (ep2_withdrawals (ep3_payload_inner p))\<rparr>),
     parse_deposits_from_receipts = (\<lambda>rs. Inr (map rc_tx_type rs)), hash_requests = (\<lambda>rs. of_nat (length rs))\<rparr>"

lemma example_spec_decodes: "decodes_faithfully example_spec example_decode_tx"
  by (auto simp: decodes_faithfully_def example_spec_def default_header_def Let_def)

definition example_base_flashblock :: FlashBlock where
  "example_base_flashblock = (make_flashblock 8 0)
     \<lparr>fb_base := Some (default_base\<lparr>base_block_number := 8, base_timestamp := 60, base_parent_hash := 7\<rparr>),
      fb_diff := default_diff\<lparr>diff_transactions := [[], [1, 2]], diff_requests := Some []\<rparr>\<rparr>"

lemma example_assembles: "\<exists>ab. assemble example_spec [example_base_flashblock] = Inr ab"
  by (simp add: assemble_def example_base_flashblock_def example_spec_def default_base_def
      requests_hash_def set_beacon_root_def assemble_payload_def default_header_def Let_def)

text \<open>The same flashblock without a requests list, and with a receipt for its first transaction only.\<close>

definition example_short_flashblock :: FlashBlock where
  "example_short_flashblock = example_base_flashblock
     \<lparr>fb_diff := default_diff\<lparr>diff_transactions := [[], [1, 2]], diff_receipts_root := 5\<rparr>,
      fb_metadata := default_metadata\<lparr>md_receipts := [0 \<mapsto>
        \<lparr>rc_tx_type = 2, rc_success = True, rc_cumulative_gas_used = 10, rc_logs = []\<rparr>]\<rparr>\<rparr>"

theorem assemble_errors_witness:
  "assemble example_spec [make_flashblock 8 0] = Inl (Protocol MissingBase)
   \<and> assemble example_spec [example_short_flashblock] = Inl (Execution (MissingReceipt 2))"
proof
  show "assemble example_spec [make_flashblock 8 0] = Inl (Protocol MissingBase)"
    by (simp add: assemble_errors)
  have "map example_decode_tx [[], [1, 2]] = [default_tx 0] @ default_tx 2 # []"
    by (simp add: example_decode_tx_def)
  then have "\<exists>us t vs. map example_decode_tx [[], [1, 2]] = us @ t # vs
      \<and> (\<forall>u \<in> set us. last_receipt [example_short_flashblock] (tx_hash u) \<noteq> None)
      \<and> last_receipt [example_short_flashblock] (tx_hash t) = None
      \<and> Execution (MissingReceipt 2) = Execution (MissingReceipt (tx_hash t))"
    by (intro exI [of _ "[default_tx 0]"] exI [of _ "default_tx 2"] exI [of _ "[]"])
      (simp add: last_receipt_def example_short_flashblock_def default_tx_def)
  then show "assemble example_spec [example_short_flashblock] = Inl (Execution (MissingReceipt 2))"
    unfolding assemble_errors
    by (simp add: example_spec_def example_short_flashblock_def example_base_flashblock_def
        default_base_def default_diff_def assemble_payload_def Let_def)
qed

theorem assemble_provenance_witness:
  "(\<exists>ab. assemble example_spec [example_base_flashblock] = Inr ab
     \<and> map tx_hash (blk_transactions (ab_block ab)) = [0, 2]
     \<and> hd_requests_hash (blk_header (ab_block ab)) = Some 0)
   \<and> (\<exists>ab. assemble example_spec [example_short_flashblock\<lparr>fb_diff := default_diff
            \<lparr>diff_transactions := [[]], diff_receipts_root := 5\<rparr>\<rparr>] = Inr ab
     \<and> hd_receipts_root (blk_header (ab_block ab)) = 5
     \<and> hd_requests_hash (blk_header (ab_block ab)) = Some 1)"
proof
  obtain ab where ab: "assemble example_spec [example_base_flashblock] = Inr ab"
    using example_assembles by blast
  from assemble_provenance [OF example_spec_decodes ab] ab
  show "\<exists>ab. assemble example_spec [example_base_flashblock] = Inr ab
     \<and> map tx_hash (blk_transactions (ab_block ab)) = [0, 2]
     \<and> hd_requests_hash (blk_header (ab_block ab)) = Some 0"
    by (auto simp: example_base_flashblock_def Let_def example_decode_tx_def example_spec_def default_base_def)
next
  let ?fb = "example_short_flashblock\<lparr>fb_diff := default_diff
     \<lparr>diff_transactions := [[]], diff_receipts_root := 5\<rparr>\<rparr>"
  have "\<exists>ab. assemble example_spec [?fb] = Inr ab"
    by (simp add: assemble_def example_short_flashblock_def example_base_flashblock_def example_spec_def
        default_base_def default_diff_def wire_receipts_def example_decode_tx_def default_tx_def
        requests_hash_def set_beacon_root_def assemble_payload_def default_header_def Let_def)
  then obtain ab where ab: "assemble example_spec [?fb] = Inr ab" by blast
  from assemble_provenance [OF example_spec_decodes ab]
  have "hd_receipts_root (blk_header (ab_block ab)) = 5"
    "hd_requests_hash (blk_header (ab_block ab)) = Some 1"
    by (auto simp: Let_def example_short_flashblock_def example_base_flashblock_def default_base_def
        default_diff_def example_spec_def example_decode_tx_def default_tx_def last_receipt_def)
  with ab show "\<exists>ab. assemble example_spec [?fb] = Inr ab
     \<and> hd_receipts_root (blk_header (ab_block ab)) = 5
     \<and> hd_requests_hash (blk_header (ab_block ab)) = Some 1" by blast
qed

end
