(* ===== verification/Processor.thy ===== *)
theory Processor
  imports Cache Sequencing Pending Assembler
begin

text \<open>
  The state processor (\<open>processor.rs\<close>). The execution engine, the provider and the receipt
  conversion are other crates' code: they are the fields of \<open>evm\<close> and \<open>client\<close>. The chain
  moves while the processor works, so every provider read is made at its own moment:
  \<open>pe_clients n\<close> is the provider as the \<open>n\<close>-th read finds it, and the processor's state
  counts its reads. Log output and wall-clock metrics are left out.
\<close>

section \<open>The environment\<close>

record NextBlockEnvAttributes =
  nb_timestamp :: u64
  nb_suggested_fee_recipient :: address
  nb_prev_randao :: b256
  nb_gas_limit :: u64
  nb_parent_beacon_block_root :: "b256 option"
  nb_withdrawals :: "withdrawal list option"
  nb_extra_data :: bytes
  nb_slot_number :: "u64 option"

record BlobParams =
  bp_target_blob_count :: u64
  bp_max_blob_count :: u64
  bp_update_fraction :: u128

record TransactionMeta =
  tm_tx_hash :: b256
  tm_index :: u64
  tm_block_hash :: b256
  tm_block_number :: u64
  tm_base_fee :: "u64 option"
  tm_excess_blob_gas :: "u64 option"
  tm_timestamp :: u64

record ConvertReceiptInput =
  ci_receipt :: receipt
  ci_tx :: TransactionSigned
  ci_sender :: address
  ci_gas_used :: u64
  ci_next_log_index :: nat
  ci_meta :: TransactionMeta

record 'sp client =
  cl_best_block_number :: "string + u64"
  cl_header_by_number :: "u64 \<Rightarrow> string + Header option"
  cl_state_by_block_number :: "u64 \<Rightarrow> string + 'sp"

record ('sp, 'db, 'env, 'st) evm =
  ev_spec :: chain_spec
  ev_hash_slow :: "Header \<Rightarrow> b256"
  ev_state_db :: "'sp \<Rightarrow> BundleState option \<Rightarrow> 'db"
  ev_insert_block_hash :: "u64 \<Rightarrow> b256 \<Rightarrow> 'db \<Rightarrow> 'db"
  ev_next_evm_env :: "Header \<Rightarrow> NextBlockEnvAttributes \<Rightarrow> string + 'env"
  ev_blockhashes_call :: "b256 \<Rightarrow> 'env \<Rightarrow> 'db \<Rightarrow> string + 'db"
  ev_beacon_root_call :: "b256 option \<Rightarrow> 'env \<Rightarrow> 'db \<Rightarrow> string + 'db"
  ev_recover_signer :: "TransactionSigned \<Rightarrow> string + address"
  ev_effective_tip_per_gas :: "TransactionSigned \<Rightarrow> u64 \<Rightarrow> u128 option"
  ev_blob_params_at_timestamp :: "u64 \<Rightarrow> BlobParams option"
  ev_logs_bloom :: "Log list \<Rightarrow> bloom"
  ev_build_receipt :: "ConvertReceiptInput \<Rightarrow> BlobParams option
      \<Rightarrow> (receipt \<Rightarrow> nat \<Rightarrow> TransactionMeta \<Rightarrow> ReceiptWithBloom) \<Rightarrow> TransactionReceipt"
  ev_transact :: "'env \<Rightarrow> 'db \<Rightarrow> TransactionSigned \<Rightarrow> address \<Rightarrow> string + (bool \<times> 'st \<times> 'db)"
  ev_commit :: "'st \<Rightarrow> 'db \<Rightarrow> 'db"
  ev_take_bundle :: "'db \<Rightarrow> BundleState"

record ('sp, 'db, 'env, 'st) processor_env =
  pe_clients :: "nat \<Rightarrow> 'sp client"
  pe_evm :: "('sp, 'db, 'env, 'st) evm"
  pe_max_depth :: u64

section \<open>State and messages\<close>

datatype StateUpdate = Canonical RecoveredBlock | Flashblock FlashBlock

record 'st processor =
  ps_pending :: "'st PendingBlocks arc option"
  ps_cache :: FlashblockCache
  ps_last_canonical_block :: u64
  ps_sent :: "'st PendingBlocks arc list"
  ps_metrics :: Metrics
  ps_next_arc :: nat
  ps_reads :: nat

definition read_client ::
    "('sp, 'db, 'env, 'st) processor_env \<Rightarrow> 'st processor \<Rightarrow> 'sp client \<times> 'st processor" where
  "read_client pe s = (pe_clients pe (ps_reads s), s\<lparr>ps_reads := ps_reads s + 1\<rparr>)"

definition incr :: "counter \<Rightarrow> 'st processor \<Rightarrow> 'st processor" where
  "incr c s = s\<lparr>ps_metrics := increment c (ps_metrics s)\<rparr>"

text \<open>\<open>StateProcessor::new\<close>, with the shared cells as the state manager made them.\<close>

definition processor_new ::
    "('sp, 'db, 'env, 'st) processor_env \<Rightarrow> 'st PendingBlocks arc option \<Rightarrow> u64 \<Rightarrow> 'st processor" where
  "processor_new pe pending last_canonical =
     \<lparr>ps_pending = pending,
      ps_cache = (case cl_best_block_number (pe_clients pe 0) of
                    Inl _ \<Rightarrow> cache_new 0 | Inr best \<Rightarrow> cache_new best),
      ps_last_canonical_block = last_canonical, ps_sent = [], ps_metrics = metrics_default,
      ps_next_arc = (case pending of None \<Rightarrow> 0 | Some a \<Rightarrow> arc_id a + 1), ps_reads = 1\<rparr>"

definition record_pending_snapshot ::
    "'st PendingBlocks arc option \<Rightarrow> 'st processor \<Rightarrow> 'st processor" where
  "record_pending_snapshot pending s =
     (let (height, index) =
        (case pending of
           None \<Rightarrow> (0, 0)
         | Some pb \<Rightarrow> (latest_block_number (arc_val pb), pb_latest_flashblock_index (arc_val pb)))
      in s\<lparr>ps_metrics := (ps_metrics s)\<lparr>pending_snapshot_height := height,
                                         pending_snapshot_fb_index := index\<rparr>\<rparr>)"

section \<open>Staleness checks\<close>

definition canonical_tip ::
    "('sp, 'db, 'env, 'st) processor_env \<Rightarrow> 'st processor \<Rightarrow> u64 option \<times> 'st processor" where
  "canonical_tip pe s =
     (let (c, s') = read_client pe s in
      (case cl_best_block_number c of Inr best \<Rightarrow> Some best | Inl _ \<Rightarrow> None, s'))"

definition effective_canonical_number ::
    "('sp, 'db, 'env, 'st) processor_env \<Rightarrow> 'st processor \<Rightarrow> u64 \<Rightarrow> u64 \<times> 'st processor" where
  "effective_canonical_number pe s notified =
     (let (tip, s') = canonical_tip pe s in
      (case tip of None \<Rightarrow> notified | Some best \<Rightarrow> max notified best, s'))"

definition is_superseded ::
    "('sp, 'db, 'env, 'st) processor_env \<Rightarrow> 'st processor \<Rightarrow> FlashBlock \<Rightarrow> bool \<times> 'st processor" where
  "is_superseded pe s fb =
     (let (canonical, s') = effective_canonical_number pe s (ps_last_canonical_block s) in
      (md_block_number (fb_metadata fb) \<le> canonical, s'))"

definition is_anchored_near :: "u64 \<Rightarrow> 'st PendingBlocks \<Rightarrow> u64 \<Rightarrow> bool" where
  "is_anchored_near max_depth pb best \<longleftrightarrow> sat_sub best (earliest_block_number pb) \<le> max_depth"

definition extends_canonical_tip ::
    "('sp, 'db, 'env, 'st) processor_env \<Rightarrow> 'st processor \<Rightarrow> 'st PendingBlocks \<Rightarrow> bool \<times> 'st processor" where
  "extends_canonical_tip pe s pb =
     (let (tip, s') = canonical_tip pe s in
      case tip of
        None \<Rightarrow> (True, s')
      | Some best \<Rightarrow>
          if \<not> is_anchored_near (pe_max_depth pe) pb best then (False, s')
          else if latest_block_number pb \<le> best then (False, s')
          else (True, s'))"

definition publishable ::
    "('sp, 'db, 'env, 'st) processor_env \<Rightarrow> 'st processor \<Rightarrow> 'st PendingBlocks arc option
      \<Rightarrow> 'st PendingBlocks arc option \<times> 'st processor" where
  "publishable pe s new =
     (case new of
        None \<Rightarrow> (None, s)
      | Some candidate \<Rightarrow>
          (let (ok, s') = extends_canonical_tip pe s (arc_val candidate) in
           if ok then (Some candidate, s') else (None, incr pending_drop_stale s')))"

definition load_pending_or_drop_stale ::
    "('sp, 'db, 'env, 'st) processor_env \<Rightarrow> 'st processor
      \<Rightarrow> 'st PendingBlocks arc option \<times> 'st processor" where
  "load_pending_or_drop_stale pe s =
     (case ps_pending s of
        None \<Rightarrow> (None, s)
      | Some pb \<Rightarrow>
          (let (tip, s1) = canonical_tip pe s in
           case tip of
             None \<Rightarrow> (Some pb, s1)
           | Some best \<Rightarrow>
               if is_anchored_near (pe_max_depth pe) (arc_val pb) best then (Some pb, s1)
               else
                 (let s2 = record_pending_snapshot None (incr pending_drop_stale s1) in
                  (None, s2\<lparr>ps_pending := None\<rparr>))))"

section \<open>Building pending state\<close>

text \<open>The \<open>BTreeMap\<close> from block number to flashblocks, as its entries in key order.\<close>

fun bt_push :: "u64 \<Rightarrow> FlashBlock \<Rightarrow> (u64 \<times> FlashBlock list) list \<Rightarrow> (u64 \<times> FlashBlock list) list" where
  "bt_push bn fb [] = [(bn, [fb])]"
| "bt_push bn fb ((k, fbs) # m) =
     (if bn = k then (k, fbs @ [fb]) # m
      else if bn < k then (bn, [fb]) # (k, fbs) # m
      else (k, fbs) # bt_push bn fb m)"

definition flashblocks_per_block :: "FlashBlock list \<Rightarrow> (u64 \<times> FlashBlock list) list" where
  "flashblocks_per_block fbs =
     foldl (\<lambda>m fb. bt_push (md_block_number (fb_metadata fb)) fb m) [] fbs"

definition updated_balances :: "FlashBlock list \<Rightarrow> address \<rightharpoonup> u256" where
  "updated_balances fbs = foldl (\<lambda>acc fb. acc ++ md_new_account_balances (fb_metadata fb)) Map.empty fbs"

definition recover_senders ::
    "(TransactionSigned \<Rightarrow> string + address) \<Rightarrow> TransactionSigned list \<Rightarrow> (b256 \<Rightarrow> address option)
      \<Rightarrow> StateProcessorError + address list" where
  "recover_senders recover_signer txs cached_sender =
     map_res (\<lambda>t. case cached_sender (tx_hash t) of
                    Some sender \<Rightarrow> Inr sender
                  | None \<Rightarrow> map_err processor_error_from_recovery (recover_signer t)) txs"

text \<open>The closure given to \<open>build_receipt\<close>: RPC logs numbered from \<open>next_log_index\<close>.\<close>

definition rpc_log :: "TransactionMeta \<Rightarrow> nat \<Rightarrow> plog \<Rightarrow> Log" where
  "rpc_log meta idx log = \<lparr>rl_inner = log, rl_block_hash = Some (tm_block_hash meta),
     rl_block_number = Some (tm_block_number meta), rl_block_timestamp = Some (tm_timestamp meta),
     rl_transaction_hash = Some (tm_tx_hash meta), rl_transaction_index = Some (tm_index meta),
     rl_log_index = Some (of_nat idx), rl_removed = False\<rparr>"

fun rpc_logs :: "TransactionMeta \<Rightarrow> nat \<Rightarrow> plog list \<Rightarrow> Log list" where
  "rpc_logs meta log_index [] = []"
| "rpc_logs meta log_index (log # ls) = rpc_log meta log_index log # rpc_logs meta (log_index + 1) ls"

definition rpc_receipt ::
    "(Log list \<Rightarrow> bloom) \<Rightarrow> receipt \<Rightarrow> nat \<Rightarrow> TransactionMeta \<Rightarrow> ReceiptWithBloom" where
  "rpc_receipt logs_bloom r next_log_index meta =
     (let ls = rpc_logs meta next_log_index (rc_logs r) in
      \<lparr>rwb_tx_type = rc_tx_type r, rwb_status = rc_success r,
       rwb_cumulative_gas_used = rc_cumulative_gas_used r, rwb_logs = ls, rwb_bloom = logs_bloom ls\<rparr>)"

definition effective_gas_price ::
    "(TransactionSigned \<Rightarrow> u64 \<Rightarrow> u128 option) \<Rightarrow> u64 option \<Rightarrow> TransactionSigned \<Rightarrow> u128" where
  "effective_gas_price tip base_fee t =
     (case base_fee of
        Some bf \<Rightarrow> (case tip t bf of None \<Rightarrow> 0 | Some p \<Rightarrow> p) + ucast bf
      | None \<Rightarrow> tx_max_fee_per_gas t)"

definition rpc_transaction ::
    "('sp, 'db, 'env, 'st) evm \<Rightarrow> Block \<Rightarrow> ExecutionPayloadBaseV1 \<Rightarrow> nat \<Rightarrow> TransactionSigned \<Rightarrow> address
      \<Rightarrow> Transaction" where
  "rpc_transaction ev block base idx t sender =
     \<lparr>rt_inner = t, rt_from = sender, rt_block_hash = None,
      rt_block_number = Some (base_block_number base), rt_transaction_index = Some (of_nat idx),
      rt_effective_gas_price = Some (effective_gas_price (ev_effective_tip_per_gas ev)
         (hd_base_fee_per_gas (blk_header block)) t),
      rt_block_timestamp = Some (base_timestamp base)\<rparr>"

definition transaction_meta :: "Block \<Rightarrow> nat \<Rightarrow> TransactionSigned \<Rightarrow> TransactionMeta" where
  "transaction_meta block idx t =
     \<lparr>tm_tx_hash = tx_hash t, tm_index = of_nat idx, tm_block_hash = 0,
      tm_block_number = hd_number (blk_header block),
      tm_base_fee = hd_base_fee_per_gas (blk_header block),
      tm_excess_blob_gas = hd_excess_blob_gas (blk_header block),
      tm_timestamp = hd_timestamp (blk_header block)\<rparr>"

definition eth_receipt ::
    "('sp, 'db, 'env, 'st) evm \<Rightarrow> Block \<Rightarrow> nat \<Rightarrow> TransactionSigned \<Rightarrow> address \<Rightarrow> receipt \<Rightarrow> u64 \<Rightarrow> nat
      \<Rightarrow> TransactionReceipt" where
  "eth_receipt ev block idx t sender r tx_gas_used next_log_index =
     (let input = \<lparr>ci_receipt = r, ci_tx = t, ci_sender = sender, ci_gas_used = tx_gas_used,
                   ci_next_log_index = next_log_index, ci_meta = transaction_meta block idx t\<rparr>
      in ev_build_receipt ev input (ev_blob_params_at_timestamp ev (tm_timestamp (ci_meta input)))
           (rpc_receipt (ev_logs_bloom ev)))"

record ('db, 'st) tx_loop =
  tl_builder :: "'st PendingBlocksBuilder"
  tl_db :: 'db
  tl_gas_used :: u64
  tl_next_log_index :: nat

text \<open>
  One transaction: the body of the loop over the block's transactions. The metrics are
  returned beside the result, because a status mismatch counts before it fails.
\<close>

definition process_transaction ::
    "('sp, 'db, 'env, 'st) evm \<Rightarrow> 'st PendingBlocks option \<Rightarrow> 'env \<Rightarrow> Block \<Rightarrow> ExecutionPayloadBaseV1
      \<Rightarrow> (b256 \<rightharpoonup> receipt) \<Rightarrow> nat \<Rightarrow> TransactionSigned \<Rightarrow> address \<Rightarrow> ('db, 'st) tx_loop \<Rightarrow> Metrics
      \<Rightarrow> (StateProcessorError + ('db, 'st) tx_loop) \<times> Metrics" where
  "process_transaction ev prev env block base receipts idx t sender ac m =
     (let h = tx_hash t; b1 = with_transaction_sender h sender (tl_builder ac) in
      case receipts h of
        None \<Rightarrow> (Inl (Execution (TransactionFailed h sender ''missing receipt'')), m)
      | Some r \<Rightarrow>
          (case checked_sub (rc_cumulative_gas_used r) (tl_gas_used ac) of
             None \<Rightarrow> (Inl (Execution (TransactionFailed h sender ''cumulative gas decreased'')), m)
           | Some tx_gas_used \<Rightarrow>
               (let b2 = with_transaction (rpc_transaction ev block base idx t sender) b1;
                    b3 = with_receipt h
                           (eth_receipt ev block idx t sender r tx_gas_used (tl_next_log_index ac)) b2;
                    ac' = ac\<lparr>tl_gas_used := rc_cumulative_gas_used r,
                             tl_next_log_index := tl_next_log_index ac + length (rc_logs r)\<rparr>
                in case Option.bind prev (\<lambda>pb. get_transaction_state pb h) of
                     Some st \<Rightarrow> (Inr (ac'\<lparr>tl_builder := with_transaction_state h st b3\<rparr>), m)
                   | None \<Rightarrow>
                       (case ev_transact ev env (tl_db ac) t sender of
                          Inl e \<Rightarrow> (Inl (Execution (TransactionFailed h sender e)), m)
                        | Inr (success, st, db) \<Rightarrow>
                            if success \<noteq> rc_success r then
                              (Inl (Execution (StatusMismatch h (rc_success r))),
                               increment transaction_status_mismatch m)
                            else
                              (Inr (ac'\<lparr>tl_builder := with_transaction_state h st b3,
                                        tl_db := ev_commit ev st db\<rparr>), m)))))"

fun process_transactions ::
    "('sp, 'db, 'env, 'st) evm \<Rightarrow> 'st PendingBlocks option \<Rightarrow> 'env \<Rightarrow> Block \<Rightarrow> ExecutionPayloadBaseV1
      \<Rightarrow> (b256 \<rightharpoonup> receipt) \<Rightarrow> address list \<Rightarrow> nat \<Rightarrow> TransactionSigned list \<Rightarrow> ('db, 'st) tx_loop \<Rightarrow> Metrics
      \<Rightarrow> (StateProcessorError + ('db, 'st) tx_loop) \<times> Metrics" where
  "process_transactions ev prev env block base receipts senders idx [] ac m = (Inr ac, m)"
| "process_transactions ev prev env block base receipts senders idx (t # ts) ac m =
     (case process_transaction ev prev env block base receipts idx t (senders ! idx) ac m of
        (Inl e, m') \<Rightarrow> (Inl e, m')
      | (Inr ac', m') \<Rightarrow>
          process_transactions ev prev env block base receipts senders (idx + 1) ts ac' m')"

record ('db, 'st) block_loop =
  bl_builder :: "'st PendingBlocksBuilder"
  bl_db :: 'db
  bl_last_block_header :: Header

definition block_env_attributes :: "ExecutionPayloadBaseV1 \<Rightarrow> SealedHeader \<Rightarrow> NextBlockEnvAttributes" where
  "block_env_attributes base header =
     \<lparr>nb_timestamp = base_timestamp base, nb_suggested_fee_recipient = base_fee_recipient base,
      nb_prev_randao = base_prev_randao base, nb_gas_limit = base_gas_limit base,
      nb_parent_beacon_block_root = Some (base_parent_beacon_block_root base),
      nb_withdrawals = None, nb_extra_data = base_extra_data base,
      nb_slot_number = hd_slot_number (sh_header header)\<rparr>"

text \<open>
  The environment of a block: the parent hash made readable, the environment of the next
  block, and the two system calls before the first transaction.
\<close>

definition prepare_block ::
    "('sp, 'db, 'env, 'st) evm \<Rightarrow> ExecutionPayloadBaseV1 \<Rightarrow> SealedHeader \<Rightarrow> Header \<Rightarrow> 'db
      \<Rightarrow> StateProcessorError + 'env \<times> 'db" where
  "prepare_block ev base header last_block_header db =
     (let db1 = ev_insert_block_hash ev (base_block_number base - 1) (base_parent_hash base) db in
      res_bind (map_err (\<lambda>e. Execution (EvmEnv e))
                  (ev_next_evm_env ev last_block_header (block_env_attributes base header)))
        (\<lambda>env. res_bind (map_err (\<lambda>e. Execution (EvmEnv e))
                  (ev_blockhashes_call ev (base_parent_hash base) env db1))
           (\<lambda>db2. res_bind (map_err (\<lambda>e. Execution (EvmEnv e))
                  (ev_beacon_root_call ev (Some (base_parent_beacon_block_root base)) env db2))
              (\<lambda>db3. Inr (env, db3)))))"

definition with_account_balances ::
    "(address \<rightharpoonup> u256) \<Rightarrow> 'st PendingBlocksBuilder \<Rightarrow> 'st PendingBlocksBuilder" where
  "with_account_balances bals b = b\<lparr>pbb_account_balances := pbb_account_balances b ++ bals\<rparr>"

text \<open>One block: the body of the loop over the grouped flashblocks.\<close>

definition process_block ::
    "('sp, 'db, 'env, 'st) evm \<Rightarrow> 'st PendingBlocks option \<Rightarrow> FlashBlock list \<Rightarrow> ('db, 'st) block_loop
      \<Rightarrow> Metrics \<Rightarrow> (StateProcessorError + ('db, 'st) block_loop) \<times> Metrics" where
  "process_block ev prev fbs bl m =
     (case fbs of
        [] \<Rightarrow> (Inl (Protocol EmptyFlashblocks), m)
      | first # _ \<Rightarrow>
          (case fb_base first of
             None \<Rightarrow> (Inl (Protocol MissingBase), m)
           | Some base \<Rightarrow>
               (case assemble (ev_spec ev) fbs of
                  Inl e \<Rightarrow> (Inl e, m)
                | Inr assembled \<Rightarrow>
                    (let block = ab_block assembled; header = ab_header assembled;
                         b1 = with_header header (with_flashblocks fbs (bl_builder bl))
                     in case prepare_block ev base header (bl_last_block_header bl) (bl_db bl) of
                          Inl e \<Rightarrow> (Inl e, m)
                        | Inr (env, db) \<Rightarrow>
                            (case recover_senders (ev_recover_signer ev) (blk_transactions block)
                                    (\<lambda>h. Option.bind prev (\<lambda>p. get_transaction_sender p h)) of
                               Inl e \<Rightarrow> (Inl e, m)
                             | Inr senders \<Rightarrow>
                                 (case process_transactions ev prev env block base (wire_receipts fbs)
                                         senders 0 (blk_transactions block)
                                         \<lparr>tl_builder = b1, tl_db = db, tl_gas_used = 0,
                                          tl_next_log_index = 0\<rparr> m of
                                    (Inl e, m') \<Rightarrow> (Inl e, m')
                                  | (Inr ac, m') \<Rightarrow>
                                      (Inr \<lparr>bl_builder =
                                              with_account_balances (updated_balances fbs) (tl_builder ac),
                                            bl_db = tl_db ac,
                                            bl_last_block_header = blk_header block\<rparr>, m')))))))"

fun process_blocks ::
    "('sp, 'db, 'env, 'st) evm \<Rightarrow> 'st PendingBlocks option \<Rightarrow> (u64 \<times> FlashBlock list) list
      \<Rightarrow> ('db, 'st) block_loop \<Rightarrow> Metrics
      \<Rightarrow> (StateProcessorError + ('db, 'st) block_loop) \<times> Metrics" where
  "process_blocks ev prev [] bl m = (Inr bl, m)"
| "process_blocks ev prev ((bn, fbs) # groups) bl m =
     (case process_block ev prev fbs bl m of
        (Inl e, m') \<Rightarrow> (Inl e, m')
      | (Inr bl', m') \<Rightarrow> process_blocks ev prev groups bl' m')"

text \<open>The rest of the build, from the anchor's header and state on.\<close>

definition build_from_anchor ::
    "('sp, 'db, 'env, 'st) evm \<Rightarrow> 'st PendingBlocks option \<Rightarrow> (u64 \<times> FlashBlock list) list
      \<Rightarrow> Header \<Rightarrow> 'sp \<Rightarrow> Metrics \<Rightarrow> (StateProcessorError + 'st PendingBlocks) \<times> Metrics" where
  "build_from_anchor ev prev groups last_block_header state_provider m =
     (let anchor = seal last_block_header (ev_hash_slow ev last_block_header);
          (prestate, m1) =
            (case prev of
               None \<Rightarrow> (None, m)
             | Some pb \<Rightarrow> (let (b, m') = get_bundle_state pb m in (Some b, m')));
          db = ev_state_db ev state_provider prestate
      in case process_blocks ev prev groups
                \<lparr>bl_builder = builder_new, bl_db = db, bl_last_block_header = last_block_header\<rparr> m1 of
           (Inl e, m2) \<Rightarrow> (Inl e, m2)
         | (Inr bl, m2) \<Rightarrow>
             (build (with_anchor anchor
                (with_bundle_state (ev_take_bundle ev (bl_db bl)) (bl_builder bl))), m2))"

definition arc_new :: "'st PendingBlocks \<Rightarrow> 'st processor \<Rightarrow> 'st PendingBlocks arc \<times> 'st processor" where
  "arc_new pb s = (\<lparr>arc_id = ps_next_arc s, arc_val = pb\<rparr>, s\<lparr>ps_next_arc := ps_next_arc s + 1\<rparr>)"

definition build_pending_state ::
    "('sp, 'db, 'env, 'st) processor_env \<Rightarrow> 'st processor \<Rightarrow> 'st PendingBlocks arc option
      \<Rightarrow> FlashBlock list \<Rightarrow> (StateProcessorError + 'st PendingBlocks arc option) \<times> 'st processor" where
  "build_pending_state pe s prev fbs =
     (case flashblocks_per_block fbs of
        [] \<Rightarrow> (Inr None, s)
      | (earliest, g) # groups \<Rightarrow>
          (case checked_sub earliest 1 of
             None \<Rightarrow> (Inl (Protocol GenesisFlashblock), s)
           | Some canonical_block \<Rightarrow>
               (let (c1, s1) = read_client pe s in
                case cl_header_by_number c1 canonical_block of
                  Inl e \<Rightarrow> (Inl (Provider (StateProvider e)), s1)
                | Inr None \<Rightarrow> (Inl (Provider (MissingCanonicalHeader canonical_block)), s1)
                | Inr (Some header) \<Rightarrow>
                    (let (c2, s2) = read_client pe s1 in
                     case cl_state_by_block_number c2 canonical_block of
                       Inl e \<Rightarrow> (Inl (Provider (StateProvider e)), s2)
                     | Inr state_provider \<Rightarrow>
                         (let (r, m) = build_from_anchor (pe_evm pe) (map_option arc_val prev)
                                ((earliest, g) # groups) header state_provider (ps_metrics s2);
                              s3 = s2\<lparr>ps_metrics := m\<rparr>
                          in case r of
                               Inl e \<Rightarrow> (Inl e, s3)
                             | Inr pb \<Rightarrow> (let (a, s4) = arc_new pb s3 in (Inr (Some a), s4)))))))"

section \<open>Canonical blocks\<close>

definition mismatch_counter :: "CanonicalMismatch \<Rightarrow> counter" where
  "mismatch_counter x = (case x of
     WithdrawalsRoot \<Rightarrow> pending_withdrawals_root_mismatch
   | RequestsHash \<Rightarrow> pending_requests_hash_mismatch
   | SlotNumber \<Rightarrow> pending_slot_number_mismatch
   | TransactionPrefix \<Rightarrow> pending_tx_prefix_violation)"

definition compare_with_canonical ::
    "'st PendingBlocks \<Rightarrow> FlashBlock list \<Rightarrow> RecoveredBlock \<Rightarrow> ReorgDetectionResult
      \<Rightarrow> 'st processor \<Rightarrow> 'st processor" where
  "compare_with_canonical pb fbs block reorg s =
     (case header_for_block pb (rb_number block) of
        None \<Rightarrow> s
      | Some pending_header \<Rightarrow>
          (let requests_from_producer =
             (case find (\<lambda>fb. md_block_number (fb_metadata fb) = rb_number block) (rev fbs) of
                None \<Rightarrow> False
              | Some fb \<Rightarrow> diff_requests (fb_diff fb) \<noteq> None)
           in foldl (\<lambda>s x. incr (mismatch_counter x) s) s
                (oracle_compare (sh_header pending_header) (blk_header (rb_block block))
                   requests_from_producer reorg)))"

definition rebuild_counter :: "ReorgDetectionResult \<Rightarrow> counter" where
  "rebuild_counter r = (case r of
     CanonicalExtendsTracked _ _ \<Rightarrow> pending_rebase_canonical_extended
   | Untracked _ \<Rightarrow> pending_rebase_untracked
   | _ \<Rightarrow> pending_clear_reorg)"

definition process_canonical_block ::
    "('sp, 'db, 'env, 'st) processor_env \<Rightarrow> 'st processor \<Rightarrow> 'st PendingBlocks arc option
      \<Rightarrow> RecoveredBlock
      \<Rightarrow> (StateProcessorError + 'st PendingBlocks arc option) \<times> 'st processor" where
  "process_canonical_block pe s prev block =
     (case prev of
        None \<Rightarrow> (Inr None, s)
      | Some a \<Rightarrow>
          (let pb = arc_val a;
               flashblocks = get_flashblocks pb;
               tracked = map rt_hash (get_transactions_for_block pb (rb_number block));
               block_hashes = map tx_hash (blk_transactions (rb_block block));
               reorg = reorg_detect tracked block_hashes;
               s1 = compare_with_canonical pb flashblocks block reorg s;
               (canonical_number, s2) = effective_canonical_number pe s1 (rb_number block);
               retained = filter (\<lambda>fb. md_block_number (fb_metadata fb) > canonical_number) flashblocks
           in case reconcile (Some (earliest_block_number pb)) (Some (latest_block_number pb))
                     canonical_number (pe_max_depth pe) (requires_rebuild reorg) of
                CatchUp \<Rightarrow> (Inr None, incr pending_clear_catchup s2)
              | HandleReorg \<Rightarrow> build_pending_state pe (incr (rebuild_counter reorg) s2) None retained
              | DepthLimitExceeded _ _ \<Rightarrow> build_pending_state pe s2 None retained
              | Continue \<Rightarrow> build_pending_state pe s2 prev flashblocks
              | NoPendingState \<Rightarrow> (Inr None, s2)))"

section \<open>Flashblocks\<close>

definition process_flashblock ::
    "('sp, 'db, 'env, 'st) processor_env \<Rightarrow> 'st processor \<Rightarrow> 'st PendingBlocks arc option \<Rightarrow> FlashBlock
      \<Rightarrow> (StateProcessorError + 'st PendingBlocks arc option) \<times> 'st processor" where
  "process_flashblock pe s prev fb =
     (case prev of
        None \<Rightarrow>
          if fb_index fb = 0 then build_pending_state pe s None [fb]
          else (Inl MissingFirstFlashblock, s)
      | Some a \<Rightarrow>
          (let pb = arc_val a in
           case seq_validate (latest_block_number pb) (pb_latest_flashblock_index pb)
                  (pb_payload_id pb) (md_block_number (fb_metadata fb)) (fb_index fb)
                  (fb_payload_id fb) of
             NextInSequence \<Rightarrow> build_pending_state pe s prev (get_flashblocks pb @ [fb])
           | FirstOfNextBlock \<Rightarrow>
               (let s' = s\<lparr>ps_metrics := (ps_metrics s)\<lparr>flashblocks_in_block :=
                      flashblocks_in_block (ps_metrics s) @ [unat (pb_latest_flashblock_index pb) + 1]\<rparr>\<rparr>
                in build_pending_state pe s' prev (get_flashblocks pb @ [fb]))
           | NewPayloadForCurrentBlock \<Rightarrow> build_pending_state pe s None [fb]
           | Duplicate \<Rightarrow> (Inr prev, incr unexpected_block_order s)
           | InvalidNewBlockIndex _ _ \<Rightarrow> (Inr None, incr unexpected_block_order s)
           | NonSequentialGap _ _ \<Rightarrow> (Inr None, incr unexpected_block_order s)))"

definition cache_early :: "FlashBlock \<Rightarrow> 'st processor \<Rightarrow> 'st processor" where
  "cache_early fb s = s\<lparr>ps_cache := snd (cache_insert (ps_cache s) fb)\<rparr>"

text \<open>The error arm of \<open>apply_flashblock\<close>: what is cached, what is counted, what is ignored.\<close>

definition handle_flashblock_error ::
    "StateProcessorError \<Rightarrow> FlashBlock \<Rightarrow> 'st processor \<Rightarrow> 'st processor" where
  "handle_flashblock_error e fb s =
     (case e of
        Provider (MissingCanonicalHeader _) \<Rightarrow> cache_early fb s
      | MissingFirstFlashblock \<Rightarrow>
          if fb_index fb > 0
             \<and> has_flashblock (ps_cache s) (md_block_number (fb_metadata fb)) (fb_index fb - 1)
          then cache_early fb s else s
      | _ \<Rightarrow> incr block_processing_error s)"

definition publish_flashblock ::
    "('sp, 'db, 'env, 'st) processor_env \<Rightarrow> 'st processor \<Rightarrow> 'st PendingBlocks arc option
      \<Rightarrow> 'st PendingBlocks arc option \<Rightarrow> 'st processor" where
  "publish_flashblock pe s prev new =
     (let (new', s1) = publishable pe s new;
          unchanged = (case (prev, new') of (Some p, Some n) \<Rightarrow> ptr_eq p n | _ \<Rightarrow> False);
          s2 = (case new' of
                  Some pb \<Rightarrow> if \<not> unchanged then s1\<lparr>ps_sent := ps_sent s1 @ [pb]\<rparr> else s1
                | None \<Rightarrow> s1)
      in (record_pending_snapshot new' s2)\<lparr>ps_pending := new'\<rparr>)"

definition apply_flashblock ::
    "('sp, 'db, 'env, 'st) processor_env \<Rightarrow> 'st processor \<Rightarrow> 'st PendingBlocks arc option \<Rightarrow> FlashBlock
      \<Rightarrow> 'st processor" where
  "apply_flashblock pe s prev fb =
     (let (superseded, s1) = is_superseded pe s fb in
      if superseded then incr flashblock_superseded s1
      else
        (case process_flashblock pe s1 prev fb of
           (Inr new, s2) \<Rightarrow> publish_flashblock pe s2 prev new
         | (Inl e, s2) \<Rightarrow> handle_flashblock_error e fb s2))"

section \<open>The loop\<close>

definition replay_cached ::
    "('sp, 'db, 'env, 'st) processor_env \<Rightarrow> 'st processor \<Rightarrow> FlashBlock \<Rightarrow> 'st processor" where
  "replay_cached pe s fb =
     (let (fb_prev, s') = load_pending_or_drop_stale pe s in apply_flashblock pe s' fb_prev fb)"

definition on_update ::
    "('sp, 'db, 'env, 'st) processor_env \<Rightarrow> 'st processor \<Rightarrow> StateUpdate \<Rightarrow> 'st processor" where
  "on_update pe s u =
     (let (prev, s1) = load_pending_or_drop_stale pe s in
      case u of
        Canonical block \<Rightarrow>
          (case process_canonical_block pe s1 prev block of
             (Inl e, s2) \<Rightarrow> s2
           | (Inr new, s2) \<Rightarrow>
               (let (new', s3) = publishable pe s2 new;
                    s4 = (record_pending_snapshot new' s3)\<lparr>ps_pending := new'\<rparr>;
                    cache = update_canonical (ps_cache s4) (rb_number block);
                    (cached_fbs, cache') = cache_drain cache (rb_number block + 1);
                    s5 = s4\<lparr>ps_cache := cache'\<rparr>
                in foldl (replay_cached pe) s5 cached_fbs))
      | Flashblock fb \<Rightarrow> apply_flashblock pe s1 prev fb)"

definition start ::
    "('sp, 'db, 'env, 'st) processor_env \<Rightarrow> 'st processor \<Rightarrow> StateUpdate list \<Rightarrow> 'st processor" where
  "start pe s queue = foldl (on_update pe) s queue"

end
