(* ===== verification/ProcessorSafety.thy ===== *)
theory ProcessorSafety
  imports Processor
begin

text \<open>
  What every run of the processor keeps: which part of the state each step touches, the
  identity of snapshots, the conditions under which a snapshot is published or broadcast,
  and what an error or a superseded flashblock leaves alone.
\<close>

section \<open>Frames\<close>

definition tip_at :: "('sp, 'db, 'env, 'st) processor_env \<Rightarrow> nat \<Rightarrow> u64 option" where
  "tip_at pe n = res_ok (cl_best_block_number (pe_clients pe n))"

lemma canonical_tip_eq:
  "canonical_tip pe s = (tip_at pe (ps_reads s), s\<lparr>ps_reads := ps_reads s + 1\<rparr>)"
  by (simp add: canonical_tip_def read_client_def tip_at_def res_ok_def split: sum.split)

text \<open>A snapshot is usable at a read when it is anchored near the tip seen there and extends past it.\<close>

definition usable :: "('sp, 'db, 'env, 'st) processor_env \<Rightarrow> nat \<Rightarrow> 'st PendingBlocks \<Rightarrow> bool" where
  "usable pe n pb \<longleftrightarrow> (case tip_at pe n of
     None \<Rightarrow> True
   | Some best \<Rightarrow> unat best < unat (latest_block_number pb)
       \<and> unat best \<le> unat (earliest_block_number pb) + unat (pe_max_depth pe))"

lemma is_anchored_near_iff:
  "is_anchored_near d pb best \<longleftrightarrow> unat best \<le> unat (earliest_block_number pb) + unat d"
  by (simp add: is_anchored_near_def sat_sub_le_iff)

lemma extends_canonical_tip_eq:
  "extends_canonical_tip pe s pb = (usable pe (ps_reads s) pb, s\<lparr>ps_reads := ps_reads s + 1\<rparr>)"
  by (auto simp: extends_canonical_tip_def canonical_tip_eq usable_def is_anchored_near_iff
      word_le_nat_alt split: option.split)

lemma publishable_eq:
  "publishable pe s new =
     (case new of
        None \<Rightarrow> (None, s)
      | Some a \<Rightarrow>
          if usable pe (ps_reads s) (arc_val a) then (Some a, s\<lparr>ps_reads := ps_reads s + 1\<rparr>)
          else (None, incr pending_drop_stale (s\<lparr>ps_reads := ps_reads s + 1\<rparr>)))"
  by (simp add: publishable_def extends_canonical_tip_eq split: option.split)

lemma is_superseded_eq:
  "is_superseded pe s fb =
     (block_number_of fb \<le> (case tip_at pe (ps_reads s) of
          None \<Rightarrow> ps_last_canonical_block s | Some best \<Rightarrow> max (ps_last_canonical_block s) best),
      s\<lparr>ps_reads := ps_reads s + 1\<rparr>)"
  by (simp add: is_superseded_def effective_canonical_number_def canonical_tip_eq block_number_of_def
      split: option.split)

text \<open>
  The steps that only count, read or allocate: everything a client of the processor sees
  (the published snapshot, the broadcasts, the cache, the canonical height) is unchanged.
\<close>

definition same_visible :: "'st processor \<Rightarrow> 'st processor \<Rightarrow> bool" where
  "same_visible s t \<longleftrightarrow> ps_pending t = ps_pending s \<and> ps_cache t = ps_cache s
     \<and> ps_last_canonical_block t = ps_last_canonical_block s \<and> ps_sent t = ps_sent s
     \<and> ps_reads s \<le> ps_reads t \<and> ps_next_arc s \<le> ps_next_arc t"

lemma same_visible_refl [simp]: "same_visible s s"
  by (simp add: same_visible_def)

lemma same_visible_trans: "same_visible s t \<Longrightarrow> same_visible t u \<Longrightarrow> same_visible s u"
  by (auto simp: same_visible_def)

lemma same_visible_steps [simp]:
  "same_visible s (incr c s)"
  "same_visible s (s\<lparr>ps_reads := ps_reads s + n\<rparr>)"
  "same_visible s (s\<lparr>ps_metrics := m\<rparr>)"
  "same_visible s (s\<lparr>ps_next_arc := ps_next_arc s + k\<rparr>)"
  "same_visible s (s\<lparr>ps_reads := Suc (ps_reads s)\<rparr>)"
  by (simp_all add: same_visible_def incr_def)

lemma incr_fields [simp]:
  "ps_pending (incr c s) = ps_pending s" "ps_cache (incr c s) = ps_cache s"
  "ps_sent (incr c s) = ps_sent s" "ps_next_arc (incr c s) = ps_next_arc s"
  "ps_reads (incr c s) = ps_reads s" "ps_last_canonical_block (incr c s) = ps_last_canonical_block s"
  by (simp_all add: incr_def)

lemma record_fields [simp]:
  "ps_pending (record_pending_snapshot p s) = ps_pending s"
  "ps_cache (record_pending_snapshot p s) = ps_cache s"
  "ps_sent (record_pending_snapshot p s) = ps_sent s"
  "ps_next_arc (record_pending_snapshot p s) = ps_next_arc s"
  "ps_reads (record_pending_snapshot p s) = ps_reads s"
  "ps_last_canonical_block (record_pending_snapshot p s) = ps_last_canonical_block s"
  by (simp_all add: record_pending_snapshot_def case_prod_beta Let_def)

text \<open>A build touches nothing visible, and a snapshot it returns has a fresh identity.\<close>

definition fresh_or_none ::
    "'st processor \<Rightarrow> StateProcessorError + 'st PendingBlocks arc option \<Rightarrow> 'st processor \<Rightarrow> bool" where
  "fresh_or_none s r t \<longleftrightarrow> same_visible s t
     \<and> (\<forall>a. r = Inr (Some a) \<longrightarrow> arc_id a = ps_next_arc s \<and> ps_next_arc t = ps_next_arc s + 1)"

lemma build_pending_state_fresh:
  assumes "build_pending_state pe s prev fbs = (r, t)"
  shows "fresh_or_none s r t"
proof (cases "flashblocks_per_block fbs")
  case Nil
  with assms show ?thesis by (auto simp: build_pending_state_def fresh_or_none_def)
next
  case (Cons g groups)
  obtain e fs where g: "g = (e, fs)" by fastforce
  show ?thesis
  proof (cases "checked_sub e 1")
    case None
    with assms Cons g show ?thesis by (auto simp: build_pending_state_def fresh_or_none_def)
  next
    case (Some n)
    let ?h = "cl_header_by_number (pe_clients pe (ps_reads s)) n"
    let ?p = "cl_state_by_block_number (pe_clients pe (ps_reads s + 1)) n"
    show ?thesis
    proof (cases "\<exists>h. ?h = Inr (Some h)")
      case False
      with assms Cons g Some show ?thesis
        by (auto simp: build_pending_state_def read_client_def fresh_or_none_def
            split: sum.splits option.splits)
    next
      case True
      then obtain h where h: "?h = Inr (Some h)" by blast
      show ?thesis
      proof (cases ?p)
        case (Inl m)
        with assms Cons g Some h show ?thesis
          by (auto simp: build_pending_state_def read_client_def fresh_or_none_def same_visible_def)
      next
        case (Inr sp)
        with assms Cons g Some h show ?thesis
          by (auto simp: build_pending_state_def read_client_def fresh_or_none_def same_visible_def
              arc_new_def Let_def case_prod_beta split: sum.splits)
      qed
    qed
  qed
qed

lemma fresh_or_none_after:
  "same_visible s s' \<Longrightarrow> ps_next_arc s' = ps_next_arc s \<Longrightarrow> fresh_or_none s' r t \<Longrightarrow> fresh_or_none s r t"
  by (auto simp: fresh_or_none_def intro: same_visible_trans)

lemma compare_with_canonical_visible:
  "same_visible s (compare_with_canonical pb fbs block reorg s)
   \<and> ps_next_arc (compare_with_canonical pb fbs block reorg s) = ps_next_arc s"
proof -
  have "same_visible s (foldl (\<lambda>s x. incr (mismatch_counter x) s) s xs)
      \<and> ps_next_arc (foldl (\<lambda>s x. incr (mismatch_counter x) s) s xs) = ps_next_arc s" for xs
    by (induction xs rule: rev_induct) (auto intro: same_visible_trans)
  then show ?thesis by (simp add: compare_with_canonical_def Let_def split: option.split)
qed

lemma process_canonical_block_fresh:
  assumes "process_canonical_block pe s prev block = (r, t)"
  shows "fresh_or_none s r t"
proof (cases prev)
  case None
  with assms show ?thesis by (auto simp: process_canonical_block_def fresh_or_none_def)
next
  case (Some a)
  define reorg where "reorg = reorg_detect
     (map rt_hash (get_transactions_for_block (arc_val a) (rb_number block)))
     (map tx_hash (blk_transactions (rb_block block)))"
  define s1 where "s1 = compare_with_canonical (arc_val a) (get_flashblocks (arc_val a)) block reorg s"
  obtain cn s2 where ecn: "effective_canonical_number pe s1 (rb_number block) = (cn, s2)"
    and s2: "s2 = s1\<lparr>ps_reads := ps_reads s1 + 1\<rparr>"
    by (simp add: effective_canonical_number_def canonical_tip_eq)
  have "same_visible s s1" "ps_next_arc s1 = ps_next_arc s"
    by (simp_all add: s1_def compare_with_canonical_visible)
  then have v: "same_visible s s2" "ps_next_arc s2 = ps_next_arc s"
    by (auto simp: s2 intro: same_visible_trans)
  then have vi: "same_visible s (incr c s2)" "ps_next_arc (incr c s2) = ps_next_arc s" for c
    by (auto intro: same_visible_trans)
  note eq = assms [unfolded process_canonical_block_def Let_def Some option.case,
      folded reorg_def, folded s1_def, unfolded ecn prod.case]
  have b: "fresh_or_none s q u" if "build_pending_state pe s2 p x = (q, u)" for p x q u
    by (rule fresh_or_none_after [OF v build_pending_state_fresh [OF that]])
  have bi: "fresh_or_none s q u" if "build_pending_state pe (incr c s2) p x = (q, u)" for c p x q u
    by (rule fresh_or_none_after [OF vi build_pending_state_fresh [OF that]])
  have n: "fresh_or_none s (Inr None) s2" "fresh_or_none s (Inr None) (incr c s2)" for c
    using v vi by (simp_all add: fresh_or_none_def)
  show ?thesis
    using eq n by (auto split: ReconciliationStrategy.splits dest: b bi)
qed

section \<open>Flashblocks\<close>

text \<open>What processing a flashblock may return: the previous snapshot itself, nothing, or a fresh one.\<close>

lemma process_flashblock_fresh:
  assumes "process_flashblock pe s prev fb = (r, t)"
  shows "r = Inr prev \<and> prev \<noteq> None \<and> same_visible s t \<or> fresh_or_none s r t"
proof (cases prev)
  case None
  with assms show ?thesis
    by (auto simp: process_flashblock_def fresh_or_none_def split: if_splits
        dest!: build_pending_state_fresh)
next
  case (Some a)
  have m: "fresh_or_none s q t" if "build_pending_state pe (s\<lparr>ps_metrics := m\<rparr>) p x = (q, t)" for m p x q
    using build_pending_state_fresh [OF that]
    by (rule fresh_or_none_after [rotated 2]) simp_all
  show ?thesis
    using assms Some
    by (auto simp: process_flashblock_def Let_def fresh_or_none_def [of _ "Inr None"]
        split: SequenceValidationResult.splits dest: m build_pending_state_fresh)
qed

lemma handle_error_visible:
  "ps_pending (handle_flashblock_error e fb s) = ps_pending s"
  "ps_sent (handle_flashblock_error e fb s) = ps_sent s"
  "ps_next_arc (handle_flashblock_error e fb s) = ps_next_arc s"
  "ps_reads (handle_flashblock_error e fb s) = ps_reads s"
  "ps_last_canonical_block (handle_flashblock_error e fb s) = ps_last_canonical_block s"
  by (auto simp: handle_flashblock_error_def cache_early_def
      split: StateProcessorError.split ProviderError.split)

lemma wf_cache_handle_error: "wf_cache (ps_cache s) \<Longrightarrow> wf_cache (ps_cache (handle_flashblock_error e fb s))"
  by (auto simp: handle_flashblock_error_def cache_early_def intro: wf_cache_insert
      split: StateProcessorError.split ProviderError.split)

text \<open>Publishing the snapshot that is already published, and publishing nothing.\<close>

lemma record_counters [simp]: "counters (ps_metrics (record_pending_snapshot p s)) = counters (ps_metrics s)"
  by (simp add: record_pending_snapshot_def case_prod_beta Let_def)

lemma incr_counters [simp]:
  "counters (ps_metrics (incr c s)) d = counters (ps_metrics s) d + (if d = c then 1 else 0)"
  by (simp add: incr_def)

lemma publish_unchanged:
  fixes pe :: "('sp, 'db, 'env, 'st) processor_env" and s :: "'st processor"
  defines "ok \<equiv> \<lambda>p. usable pe (ps_reads s) (arc_val p)"
    and "t \<equiv> \<lambda>p. publish_flashblock pe s (Some p) (Some p)"
  shows "ps_sent (t p) = ps_sent s" "ps_cache (t p) = ps_cache s"
    "ps_pending (t p) = (if ok p then Some p else None)"
    "counters (ps_metrics (t p)) c = counters (ps_metrics s) c
       + (if c = pending_drop_stale \<and> \<not> ok p then 1 else 0)"
  unfolding t_def ok_def
  by (simp_all add: publish_flashblock_def publishable_eq ptr_eq_def incr_def)

lemma publish_nothing:
  "ps_sent (publish_flashblock pe s prev None) = ps_sent s"
  "ps_cache (publish_flashblock pe s prev None) = ps_cache s"
  "ps_pending (publish_flashblock pe s prev None) = None"
  "counters (ps_metrics (publish_flashblock pe s prev None)) = counters (ps_metrics s)"
  by (simp_all add: publish_flashblock_def publishable_eq split: option.split)

section \<open>The invariant of a run\<close>

text \<open>
  Identities: every snapshot that is published or was broadcast has an identity below the
  next one, and broadcasts have strictly increasing identities. Usability: each of them
  was usable at a tip read that the processor made. The cache is well formed.
\<close>

definition was_usable :: "('sp, 'db, 'env, 'st) processor_env \<Rightarrow> nat \<Rightarrow> 'st PendingBlocks arc \<Rightarrow> bool" where
  "was_usable pe reads a \<longleftrightarrow> (\<exists>n < reads. usable pe n (arc_val a))"

definition processor_inv :: "('sp, 'db, 'env, 'st) processor_env \<Rightarrow> 'st processor \<Rightarrow> bool" where
  "processor_inv pe s \<longleftrightarrow>
     sorted_wrt (<) (map arc_id (ps_sent s))
   \<and> (\<forall>a \<in> set (ps_sent s) \<union> set_option (ps_pending s).
        arc_id a < ps_next_arc s \<and> was_usable pe (ps_reads s) a)
   \<and> wf_cache (ps_cache s)"

lemma was_usable_mono: "was_usable pe n a \<Longrightarrow> n \<le> m \<Longrightarrow> was_usable pe m a"
  by (auto simp: was_usable_def intro: less_le_trans)

lemma was_usable_Suc [intro]: "was_usable pe n a \<Longrightarrow> was_usable pe (Suc n) a"
  by (auto simp: was_usable_def intro: less_SucI)

lemma inv_same_visible: "processor_inv pe s \<Longrightarrow> same_visible s t \<Longrightarrow> processor_inv pe t"
  by (auto simp: processor_inv_def same_visible_def intro: was_usable_mono less_le_trans)

lemma inv_pending:
  assumes "processor_inv pe s"
    and "\<And>a. p = Some a \<Longrightarrow> arc_id a < ps_next_arc s \<and> was_usable pe (ps_reads s) a"
  shows "processor_inv pe (s\<lparr>ps_pending := p\<rparr>)"
  using assms by (auto simp: processor_inv_def)

lemma load_pending_inv:
  assumes "load_pending_or_drop_stale pe s = (prev, t)" and "processor_inv pe s"
  shows "processor_inv pe t \<and> (\<forall>a. prev = Some a \<longrightarrow> ps_pending t = Some a)
    \<and> ps_cache t = ps_cache s \<and> ps_sent t = ps_sent s"
proof (cases "ps_pending s")
  case None
  with assms show ?thesis by (auto simp: load_pending_or_drop_stale_def)
next
  case (Some a)
  have "processor_inv pe (s\<lparr>ps_reads := ps_reads s + 1\<rparr>)"
    using assms(2) by (rule inv_same_visible) simp
  moreover have "processor_inv pe ((record_pending_snapshot None (incr pending_drop_stale
      (s\<lparr>ps_reads := ps_reads s + 1\<rparr>)))\<lparr>ps_pending := None\<rparr>)"
    using calculation by (auto simp: processor_inv_def)
  ultimately show ?thesis
    using assms(1) Some
    by (auto simp: load_pending_or_drop_stale_def canonical_tip_eq Let_def split: option.splits if_splits)
qed

text \<open>
  Publishing after a flashblock: the published snapshot is usable at the read the check
  made, and it is broadcast unless it is the very snapshot that was published before.
\<close>

lemma publish_flashblock_inv:
  assumes inv: "processor_inv pe s"
    and new: "\<And>a. new = Some a \<Longrightarrow> arc_id a < ps_next_arc s
       \<and> (prev = new \<or> (\<forall>b \<in> set (ps_sent s). arc_id b < arc_id a))"
  shows "processor_inv pe (publish_flashblock pe s prev new)"
proof (cases new)
  case None
  then show ?thesis
    using inv by (auto simp: publish_flashblock_def publishable_eq processor_inv_def)
next
  case (Some a)
  show ?thesis
  proof (cases "usable pe (ps_reads s) (arc_val a)")
    case False
    with Some inv show ?thesis
      by (auto simp: publish_flashblock_def publishable_eq processor_inv_def intro: was_usable_mono)
  next
    case True
    then have u: "was_usable pe (ps_reads s + 1) a" by (auto simp: was_usable_def)
    have old: "was_usable pe (ps_reads s + 1) b \<and> arc_id b < ps_next_arc s"
      if "b \<in> set (ps_sent s)" for b
      using inv that by (auto simp: processor_inv_def intro: was_usable_mono)
    have id: "arc_id a < ps_next_arc s" using new Some by blast
    have sent: "sorted_wrt (<) (map arc_id (ps_sent s))" "wf_cache (ps_cache s)"
      using inv by (auto simp: processor_inv_def)
    show ?thesis
    proof (cases "case prev of Some p \<Rightarrow> ptr_eq p a | None \<Rightarrow> False")
      case True
      then show ?thesis
        using Some u old id sent \<open>usable pe (ps_reads s) (arc_val a)\<close>
        by (auto simp: publish_flashblock_def publishable_eq processor_inv_def split: option.splits)
    next
      case False
      then have "\<forall>b \<in> set (ps_sent s). arc_id b < arc_id a"
        using new Some by (auto simp: ptr_eq_def split: option.splits)
      with False show ?thesis
        using Some u old id sent \<open>usable pe (ps_reads s) (arc_val a)\<close>
        by (auto simp: publish_flashblock_def publishable_eq processor_inv_def sorted_wrt_append
            split: option.splits)
    qed
  qed
qed

lemma apply_flashblock_inv:
  assumes "processor_inv pe s" and "\<And>a. prev = Some a \<Longrightarrow> ps_pending s = Some a"
  shows "processor_inv pe (apply_flashblock pe s prev fb)"
proof -
  define s1 where "s1 = s\<lparr>ps_reads := ps_reads s + 1\<rparr>"
  have v1: "same_visible s s1" by (simp add: s1_def)
  then have i1: "processor_inv pe s1" by (rule inv_same_visible [OF assms(1)])
  obtain r t where p: "process_flashblock pe s1 prev fb = (r, t)" by fastforce
  from process_flashblock_fresh [OF p] have vt: "same_visible s1 t"
    by (auto simp: fresh_or_none_def)
  then have it: "processor_inv pe t" by (rule inv_same_visible [OF i1])
  have pub: "processor_inv pe (publish_flashblock pe t prev new)" if rn: "r = Inr new" for new
  proof (rule publish_flashblock_inv [OF it])
    fix a assume a: "new = Some a"
    consider "new = prev" | "fresh_or_none s1 r t" using process_flashblock_fresh [OF p] rn by blast
    then show "arc_id a < ps_next_arc t \<and> (prev = new \<or> (\<forall>b \<in> set (ps_sent t). arc_id b < arc_id a))"
    proof cases
      case 1
      then have "prev = Some a" using a by simp
      then have "ps_pending s = Some a" by (rule assms(2))
      then have "ps_pending t = Some a" using v1 vt by (simp add: same_visible_def)
      with 1 it show ?thesis by (auto simp: processor_inv_def)
    next
      case 2
      then have "arc_id a = ps_next_arc s1" "ps_next_arc t = ps_next_arc s1 + 1" "ps_sent t = ps_sent s1"
        using rn a by (auto simp: fresh_or_none_def same_visible_def)
      with i1 show ?thesis by (auto simp: processor_inv_def)
    qed
  qed
  have err: "processor_inv pe (handle_flashblock_error e fb t)" for e
    using it by (auto simp: processor_inv_def handle_error_visible wf_cache_handle_error)
  have sup: "processor_inv pe (incr flashblock_superseded s1)"
    by (rule inv_same_visible [OF i1]) simp
  obtain b where "is_superseded pe s fb = (b, s1)" by (simp add: is_superseded_eq s1_def)
  then show ?thesis
    using pub err sup p by (cases r) (simp_all add: apply_flashblock_def)
qed

lemma replay_cached_inv:
  assumes "processor_inv pe s"
  shows "processor_inv pe (replay_cached pe s fb)"
proof -
  obtain prev t where l: "load_pending_or_drop_stale pe s = (prev, t)" by fastforce
  from load_pending_inv [OF l assms] have "processor_inv pe t" "\<And>a. prev = Some a \<Longrightarrow> ps_pending t = Some a"
    by auto
  then have "processor_inv pe (apply_flashblock pe t prev fb)" by (rule apply_flashblock_inv)
  then show ?thesis by (simp add: replay_cached_def l)
qed

lemma foldl_replay_inv: "processor_inv pe s \<Longrightarrow> processor_inv pe (foldl (replay_cached pe) s fbs)"
  by (induction fbs arbitrary: s) (auto intro: replay_cached_inv)

lemma on_canonical_inv:
  assumes "processor_inv pe s" and new: "\<And>a. new = Some a \<Longrightarrow> arc_id a < ps_next_arc s"
    and "publishable pe s new = (new', s')"
  shows "processor_inv pe ((record_pending_snapshot new' s')\<lparr>ps_pending := new'\<rparr>)"
proof (cases new)
  case None
  with assms show ?thesis by (auto simp: publishable_eq processor_inv_def)
next
  case (Some a)
  then have "arc_id a < ps_next_arc s" using new by blast
  moreover have "was_usable pe (ps_reads s + 1) a" if "usable pe (ps_reads s) (arc_val a)"
    using that by (auto simp: was_usable_def)
  moreover have "was_usable pe (Suc (ps_reads s)) b" if "b \<in> set (ps_sent s)" for b
    using assms(1) that by (auto simp: processor_inv_def)
  ultimately show ?thesis
    using assms(1,3) Some by (auto simp: publishable_eq processor_inv_def split: if_splits)
qed

lemma on_update_inv:
  assumes "processor_inv pe s"
  shows "processor_inv pe (on_update pe s u)"
proof -
  obtain prev s1 where l: "load_pending_or_drop_stale pe s = (prev, s1)" by fastforce
  from load_pending_inv [OF l assms] have i1: "processor_inv pe s1"
    and pr: "\<And>a. prev = Some a \<Longrightarrow> ps_pending s1 = Some a" by auto
  show ?thesis
  proof (cases u)
    case (Flashblock fb)
    then show ?thesis using apply_flashblock_inv [OF i1 pr] by (simp add: on_update_def l)
  next
    case (Canonical block)
    obtain r s2 where p: "process_canonical_block pe s1 prev block = (r, s2)" by fastforce
    note f = process_canonical_block_fresh [OF p]
    then have i2: "processor_inv pe s2" by (auto simp: fresh_or_none_def intro: inv_same_visible [OF i1])
    show ?thesis
    proof (cases r)
      case (Inl e)
      then show ?thesis using i2 by (simp add: on_update_def l Canonical p)
    next
      case (Inr new)
      obtain new' s3 where q: "publishable pe s2 new = (new', s3)" by fastforce
      have "arc_id a < ps_next_arc s2" if "new = Some a" for a
        using f Inr that by (auto simp: fresh_or_none_def)
      from on_canonical_inv [OF i2 this q]
      have i4: "processor_inv pe ((record_pending_snapshot new' s3)\<lparr>ps_pending := new'\<rparr>)" .
      then have "wf_cache (ps_cache s3)" by (simp add: processor_inv_def)
      then have w: "wf_cache (snd (cache_drain (update_canonical (ps_cache s3) (rb_number block))
          (rb_number block + 1)))"
        by (intro wf_cache_drain wf_update_canonical)
      have "processor_inv pe ((record_pending_snapshot new' s3)\<lparr>ps_pending := new', ps_cache :=
          snd (cache_drain (update_canonical (ps_cache s3) (rb_number block)) (rb_number block + 1))\<rparr>)"
        using i4 w by (simp add: processor_inv_def)
      from foldl_replay_inv [OF this] show ?thesis
        by (simp add: on_update_def l Canonical p Inr q case_prod_beta Let_def)
    qed
  qed
qed

inductive processor_step ::
    "('sp, 'db, 'env, 'st) processor_env \<Rightarrow> 'st processor \<Rightarrow> 'st processor \<Rightarrow> bool"
  for pe where
  step_update: "processor_step pe s (on_update pe s u)"
| step_notified: "processor_step pe s (s\<lparr>ps_last_canonical_block := n\<rparr>)"
| step_dropped: "processor_step pe s (s\<lparr>ps_pending := None\<rparr>)"
| step_counted: "processor_step pe s (s\<lparr>ps_metrics := m\<rparr>)"

lemma processor_step_inv:
  assumes "processor_inv pe s" and "processor_step pe s t"
  shows "processor_inv pe t"
  using assms(2,1)
proof cases
  case (step_update u)
  then show ?thesis using on_update_inv assms(1) by blast
qed (auto simp: processor_inv_def)

lemma processor_new_inv: "processor_inv pe (processor_new pe None n)"
  by (simp add: processor_inv_def processor_new_def split: sum.split)

interpretation run: transition_system
  "\<lambda>s. \<exists>n. s = processor_new pe None n" "processor_step pe" "processor_inv pe"
  for pe :: "('sp, 'db, 'env, 'st) processor_env"
  by unfold_locales (auto intro: processor_step_inv processor_new_inv)

section \<open>The check behind each publication\<close>

text \<open>
  The states an update passes through: the one it starts from, the one after its own arm,
  and, after a canonical block, one for every cached flashblock replayed.
\<close>

fun states_from :: "('s \<Rightarrow> 'a \<Rightarrow> 's) \<Rightarrow> 's \<Rightarrow> 'a list \<Rightarrow> 's list" where
  "states_from f s [] = [s]"
| "states_from f s (x # xs) = s # states_from f (f s x) xs"

definition update_states ::
    "('sp, 'db, 'env, 'st) processor_env \<Rightarrow> 'st processor \<Rightarrow> StateUpdate \<Rightarrow> 'st processor list" where
  "update_states pe s u =
     (let (prev, s1) = load_pending_or_drop_stale pe s in
      case u of
        Canonical block \<Rightarrow>
          (case process_canonical_block pe s1 prev block of
             (Inl e, s2) \<Rightarrow> [s, s2]
           | (Inr new, s2) \<Rightarrow>
               (let (new', s3) = publishable pe s2 new;
                    s4 = (record_pending_snapshot new' s3)\<lparr>ps_pending := new'\<rparr>;
                    (cached_fbs, cache') =
                      cache_drain (update_canonical (ps_cache s4) (rb_number block)) (rb_number block + 1)
                in s # states_from (replay_cached pe) (s4\<lparr>ps_cache := cache'\<rparr>) cached_fbs))
      | Flashblock fb \<Rightarrow> [s, apply_flashblock pe s1 prev fb])"

lemma states_from_not_Nil [simp]: "states_from f s xs \<noteq> []"
  by (cases xs) simp_all

lemma hd_states_from [simp]: "hd (states_from f s xs) = s"
  by (cases xs) simp_all

lemma last_states_from [simp]: "last (states_from f s xs) = foldl f s xs"
  by (induction xs arbitrary: s) simp_all

lemma successively_states_from:
  assumes "\<And>s x. P s (f s x)"
  shows "successively P (states_from f s xs)"
  by (induction xs arbitrary: s) (simp_all add: successively_Cons assms)

lemma update_states_ends:
  "update_states pe s u \<noteq> []" "hd (update_states pe s u) = s" "last (update_states pe s u) = on_update pe s u"
  by (auto simp: update_states_def on_update_def Let_def split: prod.split StateUpdate.split sum.split)

text \<open>
  What one such step may publish. A snapshot it publishes was usable at the tip that the
  step read last, so no read of the processor comes between the check and the publication;
  or the step left the snapshot it found, which its first read saw anchored near the tip,
  and broadcast nothing. Only the snapshot it publishes is broadcast.
\<close>

definition anchored_at :: "('sp, 'db, 'env, 'st) processor_env \<Rightarrow> nat \<Rightarrow> 'st PendingBlocks \<Rightarrow> bool" where
  "anchored_at pe n pb \<longleftrightarrow> (case tip_at pe n of
     None \<Rightarrow> True
   | Some best \<Rightarrow> unat best \<le> unat (earliest_block_number pb) + unat (pe_max_depth pe))"

definition published_by ::
    "('sp, 'db, 'env, 'st) processor_env \<Rightarrow> 'st processor \<Rightarrow> 'st processor \<Rightarrow> 'st PendingBlocks arc \<Rightarrow> bool" where
  "published_by pe x y a \<longleftrightarrow> ps_pending y = Some a \<and> ps_reads x < ps_reads y
     \<and> usable pe (ps_reads y - 1) (arc_val a)"

definition left_by ::
    "('sp, 'db, 'env, 'st) processor_env \<Rightarrow> 'st processor \<Rightarrow> 'st processor \<Rightarrow> 'st PendingBlocks arc \<Rightarrow> bool" where
  "left_by pe x y a \<longleftrightarrow> ps_pending x = Some a \<and> ps_pending y = Some a \<and> ps_sent y = ps_sent x
     \<and> ps_reads x < ps_reads y \<and> anchored_at pe (ps_reads x) (arc_val a)"

definition checked_step ::
    "('sp, 'db, 'env, 'st) processor_env \<Rightarrow> 'st processor \<Rightarrow> 'st processor \<Rightarrow> bool" where
  "checked_step pe x y \<longleftrightarrow>
     (\<forall>a. ps_pending y = Some a \<longrightarrow> published_by pe x y a \<or> left_by pe x y a)
   \<and> (ps_sent y = ps_sent x \<or> (\<exists>a. ps_sent y = ps_sent x @ [a] \<and> published_by pe x y a))"

text \<open>A step that leaves snapshot and broadcasts alone, after the load judged the snapshot.\<close>

lemma load_pending_facts:
  assumes "load_pending_or_drop_stale pe x = (prev, t)"
  shows "ps_pending t = prev" "ps_sent t = ps_sent x" "ps_reads x \<le> ps_reads t"
    "prev = Some a \<Longrightarrow> ps_pending x = Some a \<and> ps_reads x < ps_reads t \<and> anchored_at pe (ps_reads x) (arc_val a)"
  using assms
  by (auto simp: load_pending_or_drop_stale_def canonical_tip_eq is_anchored_near_iff anchored_at_def
      Let_def split: option.splits if_splits)

lemma checked_step_left:
  assumes "load_pending_or_drop_stale pe x = (prev, t)"
    and "ps_pending y = ps_pending t" "ps_sent y = ps_sent t" "ps_reads t \<le> ps_reads y"
  shows "checked_step pe x y"
  using assms(2-4) load_pending_facts [OF assms(1)]
  by (auto simp: checked_step_def left_by_def intro: less_le_trans)

lemma checked_step_apply:
  assumes l: "load_pending_or_drop_stale pe x = (prev, t)"
  shows "checked_step pe x (apply_flashblock pe t prev fb)"
proof -
  define t1 where "t1 = t\<lparr>ps_reads := ps_reads t + 1\<rparr>"
  obtain b where b: "is_superseded pe t fb = (b, t1)" by (simp add: is_superseded_eq t1_def)
  obtain r t2 where p: "process_flashblock pe t1 prev fb = (r, t2)" by fastforce
  from process_flashblock_fresh [OF p] have v: "same_visible t1 t2" by (auto simp: fresh_or_none_def)
  have "checked_step pe x (incr flashblock_superseded t1)"
    by (rule checked_step_left [OF l]) (simp_all add: t1_def)
  moreover have "checked_step pe x (handle_flashblock_error e fb t2)" for e
    using v by (intro checked_step_left [OF l]) (simp_all add: handle_error_visible same_visible_def t1_def)
  moreover have "checked_step pe x (publish_flashblock pe t2 prev new)" for new
    using v load_pending_facts(2,3) [OF l]
    by (auto simp: checked_step_def published_by_def publish_flashblock_def publishable_eq
        same_visible_def t1_def Let_def split: option.splits)
  ultimately show ?thesis by (simp add: apply_flashblock_def b p split: sum.split)
qed

lemma checked_step_replay: "checked_step pe x (replay_cached pe x fb)"
  by (cases "load_pending_or_drop_stale pe x") (simp add: replay_cached_def checked_step_apply)

lemma checked_step_canonical:
  assumes "load_pending_or_drop_stale pe x = (prev, t)"
    and "process_canonical_block pe t prev block = (r, t2)" and "publishable pe t2 new = (new', t3)"
  shows "checked_step pe x ((record_pending_snapshot new' t3)\<lparr>ps_pending := new', ps_cache := c\<rparr>)"
proof -
  have "ps_sent t2 = ps_sent x" "ps_reads x \<le> ps_reads t2"
    using process_canonical_block_fresh [OF assms(2)] load_pending_facts(2,3) [OF assms(1)]
    by (auto simp: fresh_or_none_def same_visible_def)
  then show ?thesis
    using assms(3)
    by (auto simp: checked_step_def published_by_def publishable_eq split: option.splits if_splits)
qed

lemma update_states_checked: "successively (checked_step pe) (update_states pe s u)"
proof -
  obtain prev s1 where l: "load_pending_or_drop_stale pe s = (prev, s1)" by fastforce
  show ?thesis
  proof (cases u)
    case (Flashblock fb)
    then show ?thesis by (simp add: update_states_def l checked_step_apply [OF l])
  next
    case (Canonical block)
    obtain r s2 where p: "process_canonical_block pe s1 prev block = (r, s2)" by fastforce
    have "same_visible s1 s2" using process_canonical_block_fresh [OF p] by (simp add: fresh_or_none_def)
    then have e: "checked_step pe s s2"
      by (intro checked_step_left [OF l]) (simp_all add: same_visible_def)
    have c: "checked_step pe s ((record_pending_snapshot new' s3)\<lparr>ps_pending := new', ps_cache := c\<rparr>)"
      if "publishable pe s2 new = (new', s3)" for new new' s3 c
      by (rule checked_step_canonical [OF l p that])
    show ?thesis
      by (auto simp: update_states_def l Canonical p Let_def e c successively_Cons
          successively_states_from checked_step_replay split: sum.split prod.split)
  qed
qed

text \<open>A property that holds at the end of a list of states and not at its start arises at some step.\<close>

lemma successively_arises:
  assumes "successively R xs" "xs \<noteq> []" "P (last xs)" "\<not> P (hd xs)"
    and "\<And>x y. R x y \<Longrightarrow> P y \<Longrightarrow> P x \<or> Q x y"
  shows "\<exists>i. Suc i < length xs \<and> Q (xs ! i) (xs ! Suc i)"
  using assms(1-4)
proof (induction xs)
  case (Cons x xs)
  then show ?case
  proof (cases xs)
    case (Cons y ys)
    show ?thesis
    proof (cases "P y")
      case True
      then have "Q x y" using assms(5) [of x y] Cons Cons.prems by auto
      then show ?thesis using Cons by (intro exI [of _ 0]) simp
    next
      case False
      then obtain i where "Suc i < length xs" "Q (xs ! i) (xs ! Suc i)"
        using Cons Cons.IH Cons.prems by auto
      then show ?thesis by (intro exI [of _ "Suc i"]) simp
    qed
  qed simp
qed simp

definition seen :: "'st processor \<Rightarrow> 'st PendingBlocks arc \<Rightarrow> bool" where
  "seen s a \<longleftrightarrow> ps_pending s = Some a \<or> a \<in> set (ps_sent s)"

lemma checked_step_seen: "checked_step pe x y \<Longrightarrow> seen y a \<Longrightarrow> seen x a \<or> published_by pe x y a"
  by (fastforce simp: checked_step_def left_by_def seen_def)

lemma update_publishes:
  assumes "seen (on_update pe s u) a" "\<not> seen s a"
  shows "\<exists>i. Suc i < length (update_states pe s u)
    \<and> published_by pe (update_states pe s u ! i) (update_states pe s u ! Suc i) a"
  by (rule successively_arises [where P = "\<lambda>s. seen s a", OF update_states_checked])
    (use assms update_states_ends [of pe s u] checked_step_seen in auto)

lemma seen_traced:
  assumes "(processor_step pe)\<^sup>*\<^sup>* s0 s" and "\<not> seen s0 a" and "seen s a"
  shows "\<exists>s' u i. (processor_step pe)\<^sup>*\<^sup>* s0 s' \<and> (processor_step pe)\<^sup>*\<^sup>* (on_update pe s' u) s
     \<and> Suc i < length (update_states pe s' u)
     \<and> published_by pe (update_states pe s' u ! i) (update_states pe s' u ! Suc i) a"
  using assms(1,3)
proof (induction rule: rtranclp_induct)
  case base
  then show ?case using assms(2) by simp
next
  case (step s t)
  show ?case
  proof (cases "seen s a")
    case True
    from step.IH [OF this] step.hyps(2) show ?thesis by (meson rtranclp.rtrancl_into_rtrancl)
  next
    case False
    obtain u where "t = on_update pe s u"
      using step.hyps(2) step.prems False by cases (auto simp: seen_def)
    then show ?thesis using update_publishes [of pe s u a] step False by blast
  qed
qed

section \<open>Properties\<close>

text \<open>
  C1. Published state is never stale. Take any run, interleaved with canonical notifications
  and with the drops of the receiving task, and any snapshot that is published or was
  broadcast. An update of that very run published it, and at the canonical tip that the
  processor read last before it did, the snapshot extended past the tip and was anchored at
  most the maximum depth behind it; only a failure of that one read lets it pass unchecked.
  And every further update keeps to it: at each step of the update, replays included, what
  is published was checked at the last read of that step, or is the snapshot found, which
  the first read of the step saw anchored at most the maximum depth behind the tip; and a
  broadcast is always of the snapshot so checked.
\<close>

theorem published_usable:
  assumes "(processor_step pe)\<^sup>*\<^sup>* (processor_new pe None n) s"
  shows "(\<forall>a. ps_pending s = Some a \<or> a \<in> set (ps_sent s) \<longrightarrow>
       (\<exists>s' u x y i. (processor_step pe)\<^sup>*\<^sup>* (processor_new pe None n) s'
          \<and> (processor_step pe)\<^sup>*\<^sup>* (on_update pe s' u) s
          \<and> Suc i < length (update_states pe s' u)
          \<and> x = update_states pe s' u ! i \<and> y = update_states pe s' u ! Suc i
          \<and> ps_pending y = Some a \<and> ps_reads x < ps_reads y
          \<and> (case cl_best_block_number (pe_clients pe (ps_reads y - 1)) of
               Inl e \<Rightarrow> True
             | Inr best \<Rightarrow> unat best < unat (latest_block_number (arc_val a))
                 \<and> unat best \<le> unat (earliest_block_number (arc_val a)) + unat (pe_max_depth pe))))
   \<and> hd (update_states pe s u) = s \<and> last (update_states pe s u) = on_update pe s u
   \<and> successively (checked_step pe) (update_states pe s u)"
proof -
  have n: "\<not> seen (processor_new pe None n) a" for a
    by (auto simp: seen_def processor_new_def)
  have u: "usable pe k pb = (case cl_best_block_number (pe_clients pe k) of
      Inl e \<Rightarrow> True
    | Inr best \<Rightarrow> unat best < unat (latest_block_number pb)
        \<and> unat best \<le> unat (earliest_block_number pb) + unat (pe_max_depth pe))" for k pb
    by (simp add: usable_def tip_at_def res_ok_def split: sum.split)
  show ?thesis
  proof (intro conjI allI impI)
    fix a
    assume "ps_pending s = Some a \<or> a \<in> set (ps_sent s)"
    then have "seen s a" by (simp add: seen_def)
    from seen_traced [OF assms n this, unfolded published_by_def u]
    show "\<exists>s' u x y i. (processor_step pe)\<^sup>*\<^sup>* (processor_new pe None n) s'
          \<and> (processor_step pe)\<^sup>*\<^sup>* (on_update pe s' u) s
          \<and> Suc i < length (update_states pe s' u)
          \<and> x = update_states pe s' u ! i \<and> y = update_states pe s' u ! Suc i
          \<and> ps_pending y = Some a \<and> ps_reads x < ps_reads y
          \<and> (case cl_best_block_number (pe_clients pe (ps_reads y - 1)) of
               Inl e \<Rightarrow> True
             | Inr best \<Rightarrow> unat best < unat (latest_block_number (arc_val a))
                 \<and> unat best \<le> unat (earliest_block_number (arc_val a)) + unat (pe_max_depth pe))"
      by (elim exE conjE) (intro exI conjI, (assumption | rule refl)+)
  qed (rule update_states_ends update_states_checked)+
qed

text \<open>
  C2. No snapshot is broadcast twice: in every run the broadcast snapshots have strictly
  increasing identities.
\<close>

theorem broadcasts_distinct:
  assumes "(processor_step pe)\<^sup>*\<^sup>* (processor_new pe None n) s"
  shows "sorted_wrt (<) (map arc_id (ps_sent s)) \<and> distinct (ps_sent s)"
proof -
  have "processor_inv pe s" using assms by (blast intro: run.reachable_inv)
  then have s: "sorted_wrt (<) (map arc_id (ps_sent s))" by (simp add: processor_inv_def)
  then have "distinct (map arc_id (ps_sent s))" by (simp add: strict_sorted_iff)
  with s show ?thesis by (simp add: distinct_map)
qed

text \<open>
  C13. A flashblock that does not advance the chain does no harm. Superseded: it is counted,
  and snapshot, cache and broadcasts stay. Failing: snapshot and broadcasts stay, and the
  cache takes the flashblock exactly when its canonical parent is missing, or when it is not
  the first of its block and continues a run in the cache. Duplicate: it is counted, cache
  and broadcasts stay, and the snapshot stays too unless the check it passes again finds
  that it no longer extends the tip within the maximum depth, when it is dropped and the
  drop is counted. A gap, or a new block that does not start at index zero: it is counted,
  the snapshot is dropped, and cache and broadcasts stay.
\<close>

theorem flashblock_harmless:
  fixes pe :: "('sp, 'db, 'env, 'st) processor_env" and s :: "'st processor"
    and prev :: "'st PendingBlocks arc option" and fb :: FlashBlock
  defines "s1 \<equiv> s\<lparr>ps_reads := ps_reads s + 1\<rparr>"
    and "t \<equiv> apply_flashblock pe s prev fb"
    and "verdict \<equiv> \<lambda>p. seq_validate (latest_block_number (arc_val p))
       (pb_latest_flashblock_index (arc_val p)) (pb_payload_id (arc_val p))
       (md_block_number (fb_metadata fb)) (fb_index fb) (fb_payload_id fb)"
  shows "(fst (is_superseded pe s fb) \<longrightarrow> t = incr flashblock_superseded s1)
   \<and> (\<not> fst (is_superseded pe s fb) \<and> fst (process_flashblock pe s1 prev fb) = Inl e \<longrightarrow>
        ps_pending t = ps_pending s \<and> ps_sent t = ps_sent s
      \<and> ps_cache t =
          (if (\<exists>n. e = Provider (MissingCanonicalHeader n))
            \<or> e = MissingFirstFlashblock \<and> 0 < fb_index fb
              \<and> has_flashblock (ps_cache s) (block_number_of fb) (fb_index fb - 1)
           then snd (cache_insert (ps_cache s) fb) else ps_cache s))
   \<and> (\<not> fst (is_superseded pe s fb) \<and> prev = Some p \<and> verdict p = Duplicate \<longrightarrow>
        ps_sent t = ps_sent s \<and> ps_cache t = ps_cache s
      \<and> ps_pending t = (if usable pe (ps_reads s + 1) (arc_val p) then Some p else None)
      \<and> counters (ps_metrics t) unexpected_block_order
          = counters (ps_metrics s) unexpected_block_order + 1
      \<and> counters (ps_metrics t) pending_drop_stale
          = counters (ps_metrics s) pending_drop_stale
            + (if usable pe (ps_reads s + 1) (arc_val p) then 0 else 1))
   \<and> (\<not> fst (is_superseded pe s fb) \<and> prev = Some p
      \<and> ((\<exists>b i. verdict p = InvalidNewBlockIndex b i) \<or> (\<exists>x i. verdict p = NonSequentialGap x i)) \<longrightarrow>
        ps_sent t = ps_sent s \<and> ps_cache t = ps_cache s \<and> ps_pending t = None
      \<and> counters (ps_metrics t) unexpected_block_order
          = counters (ps_metrics s) unexpected_block_order + 1)"
proof -
  obtain r t2 where p: "process_flashblock pe s1 prev fb = (r, t2)" by fastforce
  from process_flashblock_fresh [OF p] have v: "same_visible s1 t2" by (auto simp: fresh_or_none_def)
  then have vt: "ps_pending t2 = ps_pending s" "ps_sent t2 = ps_sent s" "ps_cache t2 = ps_cache s"
    by (simp_all add: same_visible_def s1_def)
  obtain b where b: "is_superseded pe s fb = (b, s1)" by (simp add: is_superseded_eq s1_def)
  have sup: "t = incr flashblock_superseded s1" if "fst (is_superseded pe s fb)"
    using that by (simp add: t_def apply_flashblock_def b)
  have ap: "t = (case r of Inr new \<Rightarrow> publish_flashblock pe t2 prev new | Inl e \<Rightarrow> handle_flashblock_error e fb t2)"
    if "\<not> fst (is_superseded pe s fb)"
    using that p by (auto simp: t_def apply_flashblock_def b split: sum.split)
  have err: "ps_cache (handle_flashblock_error e fb t2) =
      (if (\<exists>n. e = Provider (MissingCanonicalHeader n))
          \<or> e = MissingFirstFlashblock \<and> 0 < fb_index fb
            \<and> has_flashblock (ps_cache s) (block_number_of fb) (fb_index fb - 1)
       then snd (cache_insert (ps_cache s) fb) else ps_cache s)"
    using vt by (auto simp: handle_flashblock_error_def cache_early_def block_number_of_def
        split: StateProcessorError.splits ProviderError.splits)
  have dup: "r = Inr prev" "t2 = incr unexpected_block_order s1" if "prev = Some p" "verdict p = Duplicate"
    using p that by (auto simp: process_flashblock_def verdict_def)
  have gap: "r = Inr None" "t2 = incr unexpected_block_order s1"
    if "prev = Some p" "(\<exists>b i. verdict p = InvalidNewBlockIndex b i) \<or> (\<exists>x i. verdict p = NonSequentialGap x i)"
    using p that by (auto simp: process_flashblock_def verdict_def)
  have "\<not> fst (is_superseded pe s fb) \<and> prev = Some p \<and> verdict p = Duplicate \<longrightarrow>
        ps_sent t = ps_sent s \<and> ps_cache t = ps_cache s
      \<and> ps_pending t = (if usable pe (ps_reads s + 1) (arc_val p) then Some p else None)
      \<and> counters (ps_metrics t) unexpected_block_order
          = counters (ps_metrics s) unexpected_block_order + 1
      \<and> counters (ps_metrics t) pending_drop_stale
          = counters (ps_metrics s) pending_drop_stale
            + (if usable pe (ps_reads s + 1) (arc_val p) then 0 else 1)"
    using ap dup by (auto simp: publish_unchanged s1_def)
  moreover have "\<not> fst (is_superseded pe s fb) \<and> prev = Some p
      \<and> ((\<exists>b i. verdict p = InvalidNewBlockIndex b i) \<or> (\<exists>x i. verdict p = NonSequentialGap x i)) \<longrightarrow>
        ps_sent t = ps_sent s \<and> ps_cache t = ps_cache s \<and> ps_pending t = None
      \<and> counters (ps_metrics t) unexpected_block_order
          = counters (ps_metrics s) unexpected_block_order + 1"
    using ap gap by (auto simp: publish_nothing s1_def)
  moreover have "\<not> fst (is_superseded pe s fb) \<and> r = Inl e \<longrightarrow>
        ps_pending t = ps_pending s \<and> ps_sent t = ps_sent s
      \<and> ps_cache t =
          (if (\<exists>n. e = Provider (MissingCanonicalHeader n))
            \<or> e = MissingFirstFlashblock \<and> 0 < fb_index fb
              \<and> has_flashblock (ps_cache s) (block_number_of fb) (fb_index fb - 1)
           then snd (cache_insert (ps_cache s) fb) else ps_cache s)"
    using ap err by (simp add: handle_error_visible vt)
  ultimately show ?thesis using sup p by simp
qed

end
