(* ===== verification/FbState.thy ===== *)
theory FbState
  imports Fee ProcessorSafety
begin

text \<open>
  The shared state manager (\<open>state.rs\<close>): the gates in front of the queue, the held fee, and
  the drop of a stranded snapshot on the task that receives canonical blocks. Its functions
  run on tasks of their own; each is cut here into parts with at most one access to a cell
  that another task writes, and the theory Tasks runs these parts interleaved.
  The queue's receiver lives as long as the manager, so sending never fails.
\<close>

definition BUFFER_SIZE :: nat where
  "BUFFER_SIZE = 20"

record 'st FlashblocksState =
  fs_shared :: "'st processor"
  fs_queue :: "StateUpdate list"
  fs_max_pending_blocks_depth :: u64
  fs_inclusion_fee :: "ReceivedInclusionFee option"
  fs_sync_state :: bool

text \<open>
  \<open>FlashblocksState::new\<close>. \<open>fs_sync_state\<close> says whether a sync source is bound; what the
  source answers is an argument of the receiving functions.
\<close>

definition fs_new :: "'st processor \<Rightarrow> u64 \<Rightarrow> 'st FlashblocksState" where
  "fs_new shared depth = \<lparr>fs_shared = shared\<lparr>ps_pending := None, ps_last_canonical_block := 0\<rparr>,
     fs_queue = [], fs_max_pending_blocks_depth = depth, fs_inclusion_fee = None,
     fs_sync_state = False\<rparr>"

definition fs_default :: "'st processor \<Rightarrow> 'st FlashblocksState" where
  "fs_default shared = fs_new shared 10"

definition bind_sync_state :: "'st FlashblocksState \<Rightarrow> 'st FlashblocksState" where
  "bind_sync_state fs = fs\<lparr>fs_sync_state := True\<rparr>"

definition is_syncing :: "'st FlashblocksState \<Rightarrow> bool \<Rightarrow> bool" where
  "is_syncing fs source_syncing \<longleftrightarrow> fs_sync_state fs \<and> source_syncing"

definition fs_incr :: "counter \<Rightarrow> 'st FlashblocksState \<Rightarrow> 'st FlashblocksState" where
  "fs_incr c fs = fs\<lparr>fs_shared := incr c (fs_shared fs)\<rparr>"

text \<open>
  \<open>drop_pending_behind\<close> from its second read of the cell on: \<open>published\<close> was loaded before,
  and \<open>compare_and_swap\<close> replaces the cell only while it still holds that pointer.
\<close>

definition drop_pending_behind ::
    "'st PendingBlocks arc option \<Rightarrow> u64 \<Rightarrow> 'st FlashblocksState \<Rightarrow> 'st FlashblocksState" where
  "drop_pending_behind published canonical fs =
     (case published of
        None \<Rightarrow> fs
      | Some stale \<Rightarrow>
          if sat_sub canonical (earliest_block_number (arc_val stale)) \<le> fs_max_pending_blocks_depth fs
          then fs
          else
            (case ps_pending (fs_shared fs) of
               Some current \<Rightarrow>
                 if ptr_eq current stale
                 then fs_incr pending_drop_stale (fs\<lparr>fs_shared := (fs_shared fs)\<lparr>ps_pending := None\<rparr>\<rparr>)
                 else fs
             | None \<Rightarrow> fs))"

text \<open>\<open>on_canonical_block_received\<close>: the tip is stored, the snapshot loaded and judged, the block queued.\<close>

definition store_last_canonical :: "u64 \<Rightarrow> 'st FlashblocksState \<Rightarrow> 'st FlashblocksState" where
  "store_last_canonical n fs = fs\<lparr>fs_shared := (fs_shared fs)\<lparr>ps_last_canonical_block := n\<rparr>\<rparr>"

definition enqueue :: "StateUpdate \<Rightarrow> 'st FlashblocksState \<Rightarrow> 'st FlashblocksState" where
  "enqueue u fs = fs\<lparr>fs_queue := fs_queue fs @ [u]\<rparr>"

definition on_canonical_block_received ::
    "RecoveredBlock \<Rightarrow> 'st FlashblocksState \<Rightarrow> 'st FlashblocksState" where
  "on_canonical_block_received block fs =
     (let fs1 = store_last_canonical (rb_number block) fs;
          published = ps_pending (fs_shared fs1);
          fs2 = drop_pending_behind published (rb_number block) fs1
      in enqueue (Canonical block) fs2)"

definition received_fee :: "FlashBlock \<Rightarrow> instant \<Rightarrow> ReceivedInclusionFee option" where
  "received_fee fb now = map_option (\<lambda>fee.
     \<lparr>rif_inclusion_fee = fee, rif_block_number = md_block_number (fb_metadata fb),
      rif_flashblock_index = fb_index fb, rif_received_at = now\<rparr>) (md_inclusion_fee (fb_metadata fb))"

text \<open>
  \<open>on_flashblock_received\<close>: the two gates, the fee that is held from then on, and the queue.
\<close>

definition admit_flashblock ::
    "bool \<Rightarrow> FlashBlock \<Rightarrow> 'st FlashblocksState \<Rightarrow> bool \<times> 'st FlashblocksState" where
  "admit_flashblock source_syncing fb fs =
     (if is_syncing fs source_syncing then (False, fs_incr flashblock_dropped_syncing fs)
      else if md_block_number (fb_metadata fb) \<le> ps_last_canonical_block (fs_shared fs)
        then (False, fs_incr flashblock_superseded fs)
      else (True, fs))"

definition store_inclusion_fee ::
    "instant \<Rightarrow> FlashBlock \<Rightarrow> 'st FlashblocksState \<Rightarrow> 'st FlashblocksState" where
  "store_inclusion_fee now fb fs =
     (let received = received_fee fb now;
          fs1 = (if received \<noteq> None then fs_incr inclusion_fee_received fs else fs)
      in fs1\<lparr>fs_inclusion_fee := received\<rparr>)"

definition on_flashblock_received ::
    "bool \<Rightarrow> instant \<Rightarrow> FlashBlock \<Rightarrow> 'st FlashblocksState \<Rightarrow> 'st FlashblocksState" where
  "on_flashblock_received source_syncing now fb fs =
     (case admit_flashblock source_syncing fb fs of
        (True, fs1) \<Rightarrow> enqueue (Flashblock fb) (store_inclusion_fee now fb fs1)
      | (False, fs1) \<Rightarrow> fs1)"

definition get_pending_blocks :: "'st FlashblocksState \<Rightarrow> 'st PendingBlocks arc option" where
  "get_pending_blocks fs = ps_pending (fs_shared fs)"

definition latest_inclusion_fee :: "'st FlashblocksState \<Rightarrow> ReceivedInclusionFee option" where
  "latest_inclusion_fee fs = fs_inclusion_fee fs"

definition set_pending_blocks_for_testing ::
    "'st PendingBlocks option \<Rightarrow> 'st FlashblocksState \<Rightarrow> 'st FlashblocksState" where
  "set_pending_blocks_for_testing pb fs =
     (case pb of
        None \<Rightarrow> fs\<lparr>fs_shared := (fs_shared fs)\<lparr>ps_pending := None\<rparr>\<rparr>
      | Some b \<Rightarrow> (let (a, s) = arc_new b (fs_shared fs) in fs\<lparr>fs_shared := s\<lparr>ps_pending := Some a\<rparr>\<rparr>))"

section \<open>What each call changes\<close>

lemma drop_pending_cases:
  "fs_shared (drop_pending_behind p n fs) = fs_shared fs
   \<or> fs_shared (drop_pending_behind p n fs) = incr pending_drop_stale ((fs_shared fs)\<lparr>ps_pending := None\<rparr>)"
  by (auto simp: drop_pending_behind_def fs_incr_def split: option.split)

lemma drop_pending_fields [simp]:
  "fs_queue (drop_pending_behind p n fs) = fs_queue fs"
  "fs_inclusion_fee (drop_pending_behind p n fs) = fs_inclusion_fee fs"
  "fs_max_pending_blocks_depth (drop_pending_behind p n fs) = fs_max_pending_blocks_depth fs"
  by (auto simp: drop_pending_behind_def fs_incr_def split: option.split)

lemma enqueue_fields [simp]:
  "fs_shared (enqueue u fs) = fs_shared fs" "fs_queue (enqueue u fs) = fs_queue fs @ [u]"
  by (simp_all add: enqueue_def)

lemma store_last_canonical_fields [simp]:
  "fs_shared (store_last_canonical n fs) = (fs_shared fs)\<lparr>ps_last_canonical_block := n\<rparr>"
  "fs_queue (store_last_canonical n fs) = fs_queue fs"
  by (simp_all add: store_last_canonical_def)

lemma fs_incr_fields [simp]:
  "fs_shared (fs_incr c fs) = incr c (fs_shared fs)" "fs_queue (fs_incr c fs) = fs_queue fs"
  by (simp_all add: fs_incr_def)

text \<open>What the swap does when the identity of the judged snapshot is its own.\<close>

lemma drop_pending_exact:
  assumes "\<And>stale c. published = Some stale \<Longrightarrow> get_pending_blocks fs = Some c
      \<Longrightarrow> arc_id c = arc_id stale \<Longrightarrow> c = stale"
  shows "get_pending_blocks (drop_pending_behind published n fs) =
      (case published of
         Some stale \<Rightarrow>
           if get_pending_blocks fs = Some stale
              \<and> unat (earliest_block_number (arc_val stale)) + unat (fs_max_pending_blocks_depth fs) < unat n
           then None else get_pending_blocks fs
       | None \<Rightarrow> get_pending_blocks fs)"
  using assms
  by (auto simp: drop_pending_behind_def get_pending_blocks_def sat_sub_le_iff not_le ptr_eq_def
      split: option.splits)

text \<open>
  The gates in front of the queue: while the bound sync source reports syncing, or when
  the block is already canonical, a flashblock changes nothing but its counter; any other
  one is queued last and replaces the held fee by its own, none when it carries none.
\<close>

theorem flashblock_gates:
  "on_flashblock_received syncing now fb fs =
     (if fs_sync_state fs \<and> syncing then fs_incr flashblock_dropped_syncing fs
      else if unat (block_number_of fb) \<le> unat (ps_last_canonical_block (fs_shared fs))
        then fs_incr flashblock_superseded fs
      else (if md_inclusion_fee (fb_metadata fb) = None then fs else fs_incr inclusion_fee_received fs)
        \<lparr>fs_inclusion_fee := received_fee fb now, fs_queue := fs_queue fs @ [Flashblock fb]\<rparr>)"
  by (auto simp: on_flashblock_received_def admit_flashblock_def store_inclusion_fee_def enqueue_def
      is_syncing_def received_fee_def Let_def word_le_nat_alt block_number_of_def fs_incr_def)

end
