(* ===== verification/ProcessorTask.thy ===== *)
theory ProcessorTask
  imports ProcessorSafety
begin

text \<open>
  The processor as a task that runs beside others. The other tasks of the node write two
  cells it shares with them, the published snapshot and the last canonical number, so here
  an update is cut into steps with at most one access to such a cell each; what the task
  holds between two steps (the snapshot it loaded, the one it is about to publish) is part
  of its state. Run without interruption the steps are \<open>on_update\<close>.
\<close>

section \<open>The task\<close>

text \<open>What a loaded snapshot is for: an update of the queue, or a cached flashblock and those after it.\<close>

datatype job = UpdateJob StateUpdate | ReplayJob FlashBlock "FlashBlock list"

datatype 'st task =
    Idle
  | Load job
  | StoreNone job
  | ApplyFlashblock FlashBlock "FlashBlock list" "'st PendingBlocks arc option"
  | ApplyCanonical RecoveredBlock "'st PendingBlocks arc option"
  | Swap "'st PendingBlocks arc option" "FlashBlock list"
  | SwapCanonical "'st PendingBlocks arc option" RecoveredBlock

definition proceed :: "job \<Rightarrow> 'st PendingBlocks arc option \<Rightarrow> 'st task" where
  "proceed job prev =
     (case job of
        UpdateJob (Canonical block) \<Rightarrow> ApplyCanonical block prev
      | UpdateJob (Flashblock fb) \<Rightarrow> ApplyFlashblock fb [] prev
      | ReplayJob fb rest \<Rightarrow> ApplyFlashblock fb rest prev)"

definition replay_next :: "FlashBlock list \<Rightarrow> 'st task" where
  "replay_next fbs = (case fbs of [] \<Rightarrow> Idle | fb # rest \<Rightarrow> Load (ReplayJob fb rest))"

text \<open>\<open>load_pending_or_drop_stale\<close> up to the store of \<open>None\<close>.\<close>

definition load_and_judge ::
    "('sp, 'db, 'env, 'st) processor_env \<Rightarrow> job \<Rightarrow> 'st processor \<Rightarrow> 'st task \<times> 'st processor" where
  "load_and_judge pe job s =
     (case ps_pending s of
        None \<Rightarrow> (proceed job None, s)
      | Some pb \<Rightarrow>
          (let (tip, s1) = canonical_tip pe s in
           case tip of
             None \<Rightarrow> (proceed job (Some pb), s1)
           | Some best \<Rightarrow>
               if is_anchored_near (pe_max_depth pe) (arc_val pb) best then (proceed job (Some pb), s1)
               else (StoreNone job, record_pending_snapshot None (incr pending_drop_stale s1))))"

text \<open>\<open>apply_flashblock\<close> and the canonical arm of \<open>start\<close>, up to the swap of the cell.\<close>

definition offer_flashblock ::
    "('sp, 'db, 'env, 'st) processor_env \<Rightarrow> 'st processor \<Rightarrow> 'st PendingBlocks arc option
      \<Rightarrow> 'st PendingBlocks arc option \<Rightarrow> 'st PendingBlocks arc option \<times> 'st processor" where
  "offer_flashblock pe s prev new =
     (let (new', s1) = publishable pe s new;
          unchanged = (case (prev, new') of (Some p, Some n) \<Rightarrow> ptr_eq p n | _ \<Rightarrow> False);
          s2 = (case new' of
                  Some pb \<Rightarrow> if \<not> unchanged then s1\<lparr>ps_sent := ps_sent s1 @ [pb]\<rparr> else s1
                | None \<Rightarrow> s1)
      in (new', record_pending_snapshot new' s2))"

definition work_on_flashblock ::
    "('sp, 'db, 'env, 'st) processor_env \<Rightarrow> FlashBlock \<Rightarrow> FlashBlock list \<Rightarrow> 'st PendingBlocks arc option
      \<Rightarrow> 'st processor \<Rightarrow> 'st task \<times> 'st processor" where
  "work_on_flashblock pe fb rest prev s =
     (let (superseded, s1) = is_superseded pe s fb in
      if superseded then (replay_next rest, incr flashblock_superseded s1)
      else
        (case process_flashblock pe s1 prev fb of
           (Inr new, s2) \<Rightarrow> (let (new', s3) = offer_flashblock pe s2 prev new in (Swap new' rest, s3))
         | (Inl e, s2) \<Rightarrow> (replay_next rest, handle_flashblock_error e fb s2)))"

definition work_on_canonical ::
    "('sp, 'db, 'env, 'st) processor_env \<Rightarrow> RecoveredBlock \<Rightarrow> 'st PendingBlocks arc option
      \<Rightarrow> 'st processor \<Rightarrow> 'st task \<times> 'st processor" where
  "work_on_canonical pe block prev s =
     (case process_canonical_block pe s prev block of
        (Inl e, s1) \<Rightarrow> (Idle, s1)
      | (Inr new, s1) \<Rightarrow>
          (let (new', s2) = publishable pe s1 new
           in (SwapCanonical new' block, record_pending_snapshot new' s2)))"

definition drain_after ::
    "RecoveredBlock \<Rightarrow> 'st processor \<Rightarrow> FlashBlock list \<times> 'st processor" where
  "drain_after block s =
     (let (cached_fbs, cache') =
        cache_drain (update_canonical (ps_cache s) (rb_number block)) (rb_number block + 1)
      in (cached_fbs, s\<lparr>ps_cache := cache'\<rparr>))"

definition task_step ::
    "('sp, 'db, 'env, 'st) processor_env \<Rightarrow> 'st task \<times> 'st processor \<Rightarrow> 'st task \<times> 'st processor" where
  "task_step pe c =
     (case c of (t, s) \<Rightarrow>
        (case t of
           Idle \<Rightarrow> (Idle, s)
         | Load job \<Rightarrow> load_and_judge pe job s
         | StoreNone job \<Rightarrow> (proceed job None, s\<lparr>ps_pending := None\<rparr>)
         | ApplyFlashblock fb rest prev \<Rightarrow> work_on_flashblock pe fb rest prev s
         | ApplyCanonical block prev \<Rightarrow> work_on_canonical pe block prev s
         | Swap new rest \<Rightarrow> (replay_next rest, s\<lparr>ps_pending := new\<rparr>)
         | SwapCanonical new block \<Rightarrow>
             (case drain_after block (s\<lparr>ps_pending := new\<rparr>) of (fbs, s') \<Rightarrow> (replay_next fbs, s'))))"

inductive task_runs ::
    "('sp, 'db, 'env, 'st) processor_env \<Rightarrow> 'st task \<times> 'st processor \<Rightarrow> 'st task \<times> 'st processor \<Rightarrow> bool"
  for pe where
  runs_done: "task_runs pe c c"
| runs_step: "task_runs pe (task_step pe c) d \<Longrightarrow> task_runs pe c d"

section \<open>Run alone, the task is the update\<close>

lemma task_runs_trans: "task_runs pe c d \<Longrightarrow> task_runs pe d e \<Longrightarrow> task_runs pe c e"
  by (induction rule: task_runs.induct) (auto intro: task_runs.intros)

lemma task_runs_one: "task_step pe c = d \<Longrightarrow> task_runs pe c d"
  by (auto intro: task_runs.intros)

lemma load_runs:
  "task_runs pe (Load job, s)
     (proceed job (fst (load_pending_or_drop_stale pe s)), snd (load_pending_or_drop_stale pe s))"
proof (cases "fst (load_and_judge pe job s) = StoreNone job")
  case True
  then have "task_step pe (task_step pe (Load job, s)) =
      (proceed job (fst (load_pending_or_drop_stale pe s)), snd (load_pending_or_drop_stale pe s))"
    by (auto simp: task_step_def load_and_judge_def load_pending_or_drop_stale_def canonical_tip_eq
        proceed_def Let_def split: option.splits if_splits job.splits StateUpdate.splits)
  then show ?thesis by (metis runs_step task_runs_one)
next
  case False
  then have "task_step pe (Load job, s) =
      (proceed job (fst (load_pending_or_drop_stale pe s)), snd (load_pending_or_drop_stale pe s))"
    by (auto simp: task_step_def load_and_judge_def load_pending_or_drop_stale_def canonical_tip_eq
        Let_def split: option.splits if_splits)
  then show ?thesis by (rule task_runs_one)
qed

lemma publish_flashblock_offer:
  "publish_flashblock pe s prev new =
     (case offer_flashblock pe s prev new of (new', s') \<Rightarrow> s'\<lparr>ps_pending := new'\<rparr>)"
  by (simp add: publish_flashblock_def offer_flashblock_def case_prod_beta Let_def)

lemma apply_runs:
  "task_runs pe (ApplyFlashblock fb rest prev, s) (replay_next rest, apply_flashblock pe s prev fb)"
proof -
  obtain b s1 where b: "is_superseded pe s fb = (b, s1)" by fastforce
  obtain r s2 where r: "process_flashblock pe s1 prev fb = (r, s2)" by fastforce
  note w = task_step_def work_on_flashblock_def b r
  show ?thesis
  proof (cases "b \<or> isl r")
    case True
    then have "task_step pe (ApplyFlashblock fb rest prev, s) = (replay_next rest, apply_flashblock pe s prev fb)"
      by (cases r) (auto simp: w apply_flashblock_def)
    then show ?thesis by (rule task_runs_one)
  next
    case False
    then obtain new where new: "r = Inr new" "\<not> b" by (cases r) auto
    obtain new' s3 where o: "offer_flashblock pe s2 prev new = (new', s3)" by fastforce
    have "task_step pe (ApplyFlashblock fb rest prev, s) = (Swap new' rest, s3)"
      using new by (simp add: w o)
    moreover have "task_step pe (Swap new' rest, s3) = (replay_next rest, apply_flashblock pe s prev fb)"
      using new by (simp add: task_step_def apply_flashblock_def b r publish_flashblock_offer o)
    ultimately show ?thesis by (metis runs_step task_runs_one)
  qed
qed

lemma replay_runs: "task_runs pe (replay_next fbs, s) (Idle, foldl (replay_cached pe) s fbs)"
proof (induction fbs arbitrary: s)
  case Nil
  then show ?case by (simp add: replay_next_def runs_done)
next
  case (Cons fb fbs)
  obtain prev t where l: "load_pending_or_drop_stale pe s = (prev, t)" by fastforce
  have "task_runs pe (replay_next (fb # fbs), s) (ApplyFlashblock fb fbs prev, t)"
    using load_runs [of pe "ReplayJob fb fbs" s] by (simp add: replay_next_def proceed_def l)
  from task_runs_trans [OF this apply_runs]
  have "task_runs pe (replay_next (fb # fbs), s) (replay_next fbs, replay_cached pe s fb)"
    by (simp add: replay_cached_def l)
  from task_runs_trans [OF this Cons.IH] show ?case by simp
qed

lemma canonical_runs:
  assumes "load_pending_or_drop_stale pe s = (prev, s1)"
  shows "task_runs pe (ApplyCanonical block prev, s1) (Idle, on_update pe s (Canonical block))"
proof -
  obtain r s2 where p: "process_canonical_block pe s1 prev block = (r, s2)" by fastforce
  show ?thesis
  proof (cases r)
    case (Inl e)
    then show ?thesis
      by (intro task_runs_one) (simp add: task_step_def work_on_canonical_def on_update_def assms p)
  next
    case (Inr new)
    obtain new' s3 where q: "publishable pe s2 new = (new', s3)" by fastforce
    let ?s4 = "(record_pending_snapshot new' s3)\<lparr>ps_pending := new'\<rparr>"
    obtain fbs s5 where d: "drain_after block ?s4 = (fbs, s5)" by fastforce
    have "task_step pe (ApplyCanonical block prev, s1) = (SwapCanonical new' block, record_pending_snapshot new' s3)"
      by (simp add: task_step_def work_on_canonical_def p Inr q)
    moreover have "task_step pe (SwapCanonical new' block, record_pending_snapshot new' s3) = (replay_next fbs, s5)"
      by (simp add: task_step_def d)
    moreover have "on_update pe s (Canonical block) = foldl (replay_cached pe) s5 fbs"
      using d by (auto simp: on_update_def assms p Inr q drain_after_def Let_def split: prod.splits)
    ultimately show ?thesis using replay_runs [of pe fbs s5] by (metis runs_step)
  qed
qed

lemma update_runs: "task_runs pe (Load (UpdateJob u), s) (Idle, on_update pe s u)"
proof -
  obtain prev s1 where l: "load_pending_or_drop_stale pe s = (prev, s1)" by fastforce
  have loaded: "task_runs pe (Load (UpdateJob u), s) (proceed (UpdateJob u) prev, s1)"
    using load_runs [of pe "UpdateJob u" s] by (simp add: l)
  show ?thesis
  proof (cases u)
    case (Canonical block)
    then show ?thesis
      using task_runs_trans [OF loaded] canonical_runs [OF l] by (simp add: proceed_def)
  next
    case (Flashblock fb)
    have "task_runs pe (ApplyFlashblock fb [] prev, s1) (Idle, on_update pe s u)"
      using apply_runs [of pe fb "[]" prev s1] by (simp add: replay_next_def on_update_def l Flashblock)
    then show ?thesis using task_runs_trans [OF loaded] Flashblock by (simp add: proceed_def)
  qed
qed

text \<open>The task is deterministic and an idle task stays idle, so there is one way to end.\<close>

lemma idle_stays:
  fixes s :: "'st processor"
  assumes "task_runs pe (Idle, s) d"
  shows "d = (Idle, s)"
  using assms by (induction "(Idle :: 'st task, s)" d rule: task_runs.induct) (simp_all add: task_step_def)

lemma idle_unique:
  fixes s :: "'st processor"
  assumes "task_runs pe c (Idle, s)" and "task_runs pe c (Idle, t)"
  shows "s = t"
  using assms
proof (induction c "(Idle :: 'st task, s)" rule: task_runs.induct)
  case runs_done
  then show ?case using idle_stays by fastforce
next
  case (runs_step c)
  from runs_step.prems show ?case
  proof cases
    case runs_done
    then show ?thesis using runs_step.hyps(1) idle_stays by (fastforce simp: task_step_def)
  qed (rule runs_step.hyps(2))
qed

text \<open>
  C12. The steps of the processor's task are the update: when no other task comes in between,
  the task that takes an update always ends, and it ends in exactly the state that
  \<open>on_update\<close> gives.
\<close>

theorem task_is_update:
  "task_runs pe (Load (UpdateJob u), s) (Idle, t) \<longleftrightarrow> t = on_update pe s u"
  using update_runs idle_unique by blast

section \<open>What a step keeps, whatever the other tasks do\<close>

text \<open>The snapshots a task holds between two steps.\<close>

definition task_arcs :: "'st task \<Rightarrow> 'st PendingBlocks arc set" where
  "task_arcs t =
     (case t of
        Idle \<Rightarrow> {} | Load _ \<Rightarrow> {} | StoreNone _ \<Rightarrow> {}
      | ApplyFlashblock _ _ prev \<Rightarrow> set_option prev
      | ApplyCanonical _ prev \<Rightarrow> set_option prev
      | Swap new _ \<Rightarrow> set_option new
      | SwapCanonical new _ \<Rightarrow> set_option new)"

lemma task_arcs_simps [simp]:
  "task_arcs Idle = {}" "task_arcs (Load job) = {}" "task_arcs (StoreNone job) = {}"
  "task_arcs (ApplyFlashblock fb rest prev) = set_option prev"
  "task_arcs (ApplyCanonical block prev) = set_option prev"
  "task_arcs (Swap new rest) = set_option new" "task_arcs (SwapCanonical new block) = set_option new"
  "task_arcs (proceed job prev) = set_option prev" "task_arcs (replay_next fbs) = {}"
  by (simp_all add: task_arcs_def proceed_def replay_next_def split: job.split StateUpdate.split list.split)

text \<open>
  Every snapshot in use: published, broadcast, held by the processor's task, or held by
  another one (\<open>others\<close>).
\<close>

definition arcs_in_use ::
    "'st PendingBlocks arc set \<Rightarrow> 'st task \<Rightarrow> 'st processor \<Rightarrow> 'st PendingBlocks arc set" where
  "arcs_in_use others t s = others \<union> task_arcs t \<union> set (ps_sent s) \<union> set_option (ps_pending s)"

definition task_inv ::
    "('sp, 'db, 'env, 'st) processor_env \<Rightarrow> 'st PendingBlocks arc set \<Rightarrow> 'st task \<Rightarrow> 'st processor \<Rightarrow> bool" where
  "task_inv pe others t s \<longleftrightarrow>
     sorted_wrt (<) (map arc_id (ps_sent s)) \<and> wf_cache (ps_cache s)
   \<and> arcs_coherent (arcs_in_use others t s)
   \<and> (\<forall>a \<in> arcs_in_use others t s. arc_id a < ps_next_arc s \<and> was_usable pe (ps_reads s) a)"

text \<open>
  What a step may do: bring one new snapshot into use, broadcast that one, and read or
  allocate.
\<close>

definition evolves ::
    "('sp, 'db, 'env, 'st) processor_env \<Rightarrow> 'st PendingBlocks arc option \<Rightarrow>
      'st task \<times> 'st processor \<Rightarrow> 'st task \<times> 'st processor \<Rightarrow> bool" where
  "evolves pe new c c' \<longleftrightarrow> (case (c, c') of ((t, s), (t', s')) \<Rightarrow>
     arcs_in_use {} t' s' \<subseteq> arcs_in_use {} t s \<union> set_option new
   \<and> (\<forall>a. new = Some a \<longrightarrow> arc_id a = ps_next_arc s \<and> ps_next_arc s < ps_next_arc s'
        \<and> was_usable pe (ps_reads s') a)
   \<and> ps_next_arc s \<le> ps_next_arc s' \<and> ps_reads s \<le> ps_reads s'
   \<and> (ps_sent s' = ps_sent s \<or> (\<exists>a. new = Some a \<and> ps_sent s' = ps_sent s @ [a]))
   \<and> (wf_cache (ps_cache s) \<longrightarrow> wf_cache (ps_cache s')))"

lemma task_inv_evolves:
  assumes inv: "task_inv pe others t s" and ev: "evolves pe new (t, s) (t', s')"
  shows "task_inv pe others t' s'"
proof -
  let ?A = "arcs_in_use others t s"
  have sub: "arcs_in_use others t' s' \<subseteq> ?A \<union> set_option new"
    using ev by (auto simp: evolves_def arcs_in_use_def)
  have new: "arc_id a = ps_next_arc s" "arc_id a < ps_next_arc s'" "was_usable pe (ps_reads s') a"
    if "a \<in> set_option new" for a using ev that by (auto simp: evolves_def)
  have old: "arc_id a < ps_next_arc s" "was_usable pe (ps_reads s) a" if "a \<in> ?A" for a
    using inv that by (auto simp: task_inv_def)
  have mono: "ps_next_arc s \<le> ps_next_arc s'" "ps_reads s \<le> ps_reads s'" using ev by (auto simp: evolves_def)
  have "arcs_coherent (?A \<union> set_option new)"
    using inv by (intro arcs_coherent_alloc [where n = "ps_next_arc s"]) (auto simp: task_inv_def new old)
  then have "arcs_coherent (arcs_in_use others t' s')" using sub by (rule arcs_coherent_mono)
  moreover have "arc_id a < ps_next_arc s' \<and> was_usable pe (ps_reads s') a" if "a \<in> arcs_in_use others t' s'" for a
    using that sub new old mono by (meson UnE less_le_trans subsetD was_usable_mono)
  moreover have "sorted_wrt (<) (map arc_id (ps_sent s'))"
    using ev inv by (auto simp: evolves_def task_inv_def arcs_in_use_def sorted_wrt_append)
  moreover have "wf_cache (ps_cache s')" using ev inv by (auto simp: evolves_def task_inv_def)
  ultimately show ?thesis by (simp add: task_inv_def)
qed

lemma evolves_visible:
  "same_visible s s' \<Longrightarrow> task_arcs t' \<subseteq> arcs_in_use {} t s \<Longrightarrow> evolves pe None (t, s) (t', s')"
  by (auto simp: evolves_def same_visible_def arcs_in_use_def)

lemma load_evolves: "evolves pe None (Load job, s) (load_and_judge pe job s)"
  by (auto simp: load_and_judge_def canonical_tip_eq Let_def evolves_def arcs_in_use_def split: option.split)

text \<open>Publishing keeps the candidate or gives it up.\<close>

lemma publishable_cases:
  assumes "publishable pe s new = (new', s')"
  obtains "new' = None" "same_visible s s'" "ps_next_arc s' = ps_next_arc s"
  | a where "new = Some a" "new' = Some a" "was_usable pe (ps_reads s') a"
      "same_visible s s'" "ps_next_arc s' = ps_next_arc s"
proof (cases new)
  case (Some a)
  have "was_usable pe (Suc (ps_reads s)) a" if "usable pe (ps_reads s) (arc_val a)"
    using that by (auto simp: was_usable_def)
  with Some assms that show ?thesis
    by (auto simp: publishable_eq same_visible_def split: if_splits)
qed (use assms that in \<open>auto simp: publishable_eq\<close>)

lemma offer_unchanged:
  assumes "offer_flashblock pe s prev new = (new', s')" and "new = prev"
  shows "same_visible s s' \<and> (new' = None \<or> new' = prev)"
  using assms
  by (auto simp: offer_flashblock_def publishable_eq ptr_eq_def Let_def same_visible_def
      split: option.splits if_splits)

lemma offer_fresh:
  assumes "offer_flashblock pe t prev new = (new', t')" and "fresh_or_none s (Inr new) t"
    and "\<And>p. prev = Some p \<Longrightarrow> arc_id p < ps_next_arc s"
  shows "new' = None \<and> same_visible s t'
    \<or> (\<exists>a. new' = Some a \<and> arc_id a = ps_next_arc s \<and> ps_next_arc s < ps_next_arc t'
        \<and> was_usable pe (ps_reads t') a \<and> ps_sent t' = ps_sent s @ [a]
        \<and> ps_pending t' = ps_pending s \<and> ps_cache t' = ps_cache s \<and> ps_reads s \<le> ps_reads t')"
proof -
  obtain q u where q: "publishable pe t new = (q, u)" by fastforce
  from q show ?thesis
  proof (cases rule: publishable_cases)
    case 1
    with assms(1,2) q show ?thesis
      by (auto simp: offer_flashblock_def fresh_or_none_def same_visible_def Let_def split: option.splits)
  next
    case (2 a)
    have "prev = Some p \<Longrightarrow> \<not> ptr_eq p a" for p
      using assms(2,3) 2 by (auto simp: fresh_or_none_def ptr_eq_def)
    with assms(1,2) q 2 show ?thesis
      by (auto simp: offer_flashblock_def fresh_or_none_def same_visible_def Let_def split: option.splits)
  qed
qed

lemma work_on_flashblock_evolves:
  assumes "\<And>p. prev = Some p \<Longrightarrow> arc_id p < ps_next_arc s"
  shows "\<exists>new. evolves pe new (ApplyFlashblock fb rest prev, s) (work_on_flashblock pe fb rest prev s)"
proof -
  define s1 where "s1 = s\<lparr>ps_reads := ps_reads s + 1\<rparr>"
  have v1: "same_visible s s1" "ps_next_arc s1 = ps_next_arc s" by (simp_all add: s1_def)
  obtain b where b: "is_superseded pe s fb = (b, s1)" by (simp add: is_superseded_eq s1_def)
  obtain r t where p: "process_flashblock pe s1 prev fb = (r, t)" by fastforce
  note f = process_flashblock_fresh [OF p]
  have vt: "same_visible s t" using f v1(1) by (auto simp: fresh_or_none_def intro: same_visible_trans)
  consider "b" | e where "\<not> b" "r = Inl e" | new where "\<not> b" "r = Inr new" by (cases r) auto
  then show ?thesis
  proof cases
    case 1
    then have "evolves pe None (ApplyFlashblock fb rest prev, s) (work_on_flashblock pe fb rest prev s)"
      using v1 by (auto simp: work_on_flashblock_def b intro!: evolves_visible intro: same_visible_trans)
    then show ?thesis ..
  next
    case (2 e)
    then have "evolves pe None (ApplyFlashblock fb rest prev, s) (work_on_flashblock pe fb rest prev s)"
      using vt by (auto simp: work_on_flashblock_def b p evolves_def arcs_in_use_def same_visible_def
          handle_error_visible wf_cache_handle_error)
    then show ?thesis ..
  next
    case (3 new)
    obtain new' u where o: "offer_flashblock pe t prev new = (new', u)" by fastforce
    have w: "work_on_flashblock pe fb rest prev s = (Swap new' rest, u)"
      using 3 by (simp add: work_on_flashblock_def b p o)
    show ?thesis
    proof (cases "new = prev")
      case True
      from offer_unchanged [OF o True] have "evolves pe None (ApplyFlashblock fb rest prev, s) (Swap new' rest, u)"
        using vt by (intro evolves_visible) (auto simp: arcs_in_use_def intro: same_visible_trans)
      then show ?thesis using w by auto
    next
      case False
      then have "fresh_or_none s (Inr new) t"
        using f 3 v1 by (auto intro: fresh_or_none_after)
      from offer_fresh [OF o this assms]
      have "evolves pe new' (ApplyFlashblock fb rest prev, s) (Swap new' rest, u)"
        by (auto simp: evolves_def arcs_in_use_def same_visible_def)
      then show ?thesis using w by auto
    qed
  qed
qed

lemma work_on_canonical_evolves:
  "\<exists>new. evolves pe new (ApplyCanonical block prev, s) (work_on_canonical pe block prev s)"
proof -
  obtain r t where p: "process_canonical_block pe s prev block = (r, t)" by fastforce
  note f = process_canonical_block_fresh [OF p]
  show ?thesis
  proof (cases r)
    case (Inl e)
    then have "evolves pe None (ApplyCanonical block prev, s) (work_on_canonical pe block prev s)"
      using f by (simp add: work_on_canonical_def p fresh_or_none_def evolves_visible)
    then show ?thesis ..
  next
    case (Inr new)
    obtain new' u where q: "publishable pe t new = (new', u)" by fastforce
    have "evolves pe new' (ApplyCanonical block prev, s) (SwapCanonical new' block, record_pending_snapshot new' u)"
      using q
    proof (cases rule: publishable_cases)
      case 1
      with f Inr show ?thesis by (auto simp: evolves_def arcs_in_use_def fresh_or_none_def same_visible_def)
    next
      case (2 a)
      with f Inr show ?thesis by (auto simp: evolves_def arcs_in_use_def fresh_or_none_def same_visible_def)
    qed
    moreover have "work_on_canonical pe block prev s = (SwapCanonical new' block, record_pending_snapshot new' u)"
      by (simp add: work_on_canonical_def p Inr q)
    ultimately show ?thesis by auto
  qed
qed

lemma task_step_evolves:
  assumes "\<And>a. a \<in> task_arcs t \<Longrightarrow> arc_id a < ps_next_arc s"
  shows "\<exists>new. evolves pe new (t, s) (task_step pe (t, s))"
proof (cases t)
  case (Load job)
  then show ?thesis using load_evolves [of pe job s] by (auto simp: task_step_def)
next
  case (ApplyFlashblock fb rest prev)
  then show ?thesis using assms work_on_flashblock_evolves [of prev s] by (simp add: task_step_def)
next
  case (ApplyCanonical block prev)
  then show ?thesis using work_on_canonical_evolves by (simp add: task_step_def)
next
  case (SwapCanonical new block)
  then have "evolves pe None (t, s) (task_step pe (t, s))"
    by (auto simp: task_step_def drain_after_def evolves_def arcs_in_use_def case_prod_beta Let_def
        intro: wf_cache_drain wf_update_canonical)
  then show ?thesis ..
qed (auto simp: task_step_def evolves_def arcs_in_use_def intro!: exI [of _ None])

lemma task_step_inv:
  assumes "task_inv pe others t s" and "task_step pe (t, s) = (t', s')"
  shows "task_inv pe others t' s'"
proof -
  obtain new where "evolves pe new (t, s) (task_step pe (t, s))"
    using task_step_evolves [of t s pe] assms(1) by (auto simp: task_inv_def arcs_in_use_def)
  with assms show ?thesis by (metis task_inv_evolves)
qed

text \<open>The writes of the other tasks keep the invariant as well.\<close>

lemma task_inv_frame:
  assumes "task_inv pe others t s" and "arcs_in_use others' t' s' \<subseteq> arcs_in_use others t s"
    and "ps_sent s' = ps_sent s" "ps_cache s' = ps_cache s" "ps_next_arc s' = ps_next_arc s" "ps_reads s' = ps_reads s"
  shows "task_inv pe others' t' s'"
  using assms arcs_coherent_mono unfolding task_inv_def by (metis subsetD)

section \<open>Each update checks the snapshot again\<close>

text \<open>
  A snapshot was near the tip since a read when, at some read from there on, the tip was at
  most the maximum depth above its earliest block, or could not be read.
\<close>

definition near_at :: "('sp, 'db, 'env, 'st) processor_env \<Rightarrow> nat \<Rightarrow> 'st PendingBlocks \<Rightarrow> bool" where
  "near_at pe k pb \<longleftrightarrow> (case tip_at pe k of
     None \<Rightarrow> True
   | Some best \<Rightarrow> unat best \<le> unat (earliest_block_number pb) + unat (pe_max_depth pe))"

definition near_since ::
    "('sp, 'db, 'env, 'st) processor_env \<Rightarrow> nat \<Rightarrow> 'st processor \<Rightarrow> 'st PendingBlocks arc \<Rightarrow> bool" where
  "near_since pe r s a \<longleftrightarrow> (\<exists>k. r \<le> k \<and> k < ps_reads s \<and> near_at pe k (arc_val a))"

lemma usable_near: "usable pe k pb \<Longrightarrow> near_at pe k pb"
  by (auto simp: usable_def near_at_def split: option.splits)

lemma near_since_mono: "near_since pe r s a \<Longrightarrow> ps_reads s \<le> ps_reads s' \<Longrightarrow> near_since pe r s' a"
  by (auto simp: near_since_def)

text \<open>Until the snapshot is loaded and judged nothing is known; from then on everything held is near.\<close>

definition unjudged :: "'st task \<Rightarrow> bool" where
  "unjudged t \<longleftrightarrow> (\<exists>u. t = Load (UpdateJob u) \<or> t = StoreNone (UpdateJob u))"

definition all_near :: "('sp, 'db, 'env, 'st) processor_env \<Rightarrow> nat \<Rightarrow> 'st task \<Rightarrow> 'st processor \<Rightarrow> bool" where
  "all_near pe r t s \<longleftrightarrow> (\<forall>a \<in> task_arcs t \<union> set_option (ps_pending s). near_since pe r s a)"

lemma all_near_frame:
  assumes "all_near pe r t s" and "ps_reads s \<le> ps_reads s'"
    and "set_option (ps_pending s') \<subseteq> set_option (ps_pending s)"
    and "\<And>a. a \<in> task_arcs t' \<Longrightarrow> a \<in> task_arcs t \<or> near_since pe r s' a"
  shows "all_near pe r t' s'"
proof -
  have "near_since pe r s' a" if "a \<in> task_arcs t \<union> set_option (ps_pending s)" for a
    using assms(1,2) that near_since_mono unfolding all_near_def by blast
  then show ?thesis using assms(3,4) unfolding all_near_def by blast
qed

lemma load_all_near:
  assumes "load_and_judge pe job s = (t, s')" and "r \<le> ps_reads s"
  shows "t = StoreNone job \<or> all_near pe r t s'"
proof (cases "ps_pending s")
  case None
  with assms show ?thesis by (auto simp: load_and_judge_def all_near_def)
next
  case (Some a)
  let ?s = "s\<lparr>ps_reads := ps_reads s + 1\<rparr>"
  have "near_since pe r ?s a" if "near_at pe (ps_reads s) (arc_val a)"
    using that assms(2) by (auto simp: near_since_def)
  with assms(1) Some show ?thesis
    by (auto simp: load_and_judge_def canonical_tip_eq all_near_def near_at_def is_anchored_near_iff Let_def
        split: option.splits if_splits)
qed

lemma publishable_near:
  assumes "publishable pe s new = (new', s')" and "r \<le> ps_reads s" and "new' = Some a"
  shows "near_since pe r s' a"
  using assms usable_near [of pe "ps_reads s" "arc_val a"]
  by (auto simp: publishable_eq near_since_def split: option.splits if_splits)

lemma near_since_reads: "near_since pe r s a \<Longrightarrow> ps_reads s' = ps_reads s \<Longrightarrow> near_since pe r s' a"
  by (simp add: near_since_def)

text \<open>Working on an update leaves the published snapshot alone and offers one that is near.\<close>

lemma work_on_flashblock_near:
  assumes "work_on_flashblock pe fb rest prev s = (t, s')" and "r \<le> ps_reads s"
  shows "ps_pending s' = ps_pending s \<and> ps_reads s \<le> ps_reads s' \<and> (\<forall>a \<in> task_arcs t. near_since pe r s' a)"
proof -
  define s1 where "s1 = s\<lparr>ps_reads := ps_reads s + 1\<rparr>"
  obtain b where b: "is_superseded pe s fb = (b, s1)" by (simp add: is_superseded_eq s1_def)
  obtain q u where p: "process_flashblock pe s1 prev fb = (q, u)" by fastforce
  have v1: "same_visible s s1" by (simp add: s1_def)
  have v: "same_visible s u" using process_flashblock_fresh [OF p] v1
    by (auto simp: fresh_or_none_def intro: same_visible_trans)
  consider "b" | e where "\<not> b" "q = Inl e" | new where "\<not> b" "q = Inr new" by (cases q) auto
  then show ?thesis
  proof cases
    case 3
    obtain new' u1 where o: "publishable pe u new = (new', u1)" by fastforce
    have "r \<le> ps_reads u" using v assms(2) by (simp add: same_visible_def)
    then have n: "near_since pe r u1 a" if "new' = Some a" for a using publishable_near [OF o _ that] by blast
    have "same_visible u u1" using o by (cases rule: publishable_cases)
    with v have "same_visible s u1" by (rule same_visible_trans)
    moreover have "t = Swap new' rest" "ps_pending s' = ps_pending u1" "ps_reads s' = ps_reads u1"
      using assms(1) 3 by (auto simp: work_on_flashblock_def b p offer_flashblock_def o Let_def split: option.splits)
    ultimately show ?thesis using n near_since_reads [of pe r u1] by (auto simp: same_visible_def)
  qed (use assms(1) v v1 in \<open>auto simp: work_on_flashblock_def b p same_visible_def handle_error_visible\<close>)
qed

lemma work_on_canonical_near:
  assumes "work_on_canonical pe block prev s = (t, s')" and "r \<le> ps_reads s"
  shows "ps_pending s' = ps_pending s \<and> ps_reads s \<le> ps_reads s' \<and> (\<forall>a \<in> task_arcs t. near_since pe r s' a)"
proof -
  obtain q u where p: "process_canonical_block pe s prev block = (q, u)" by fastforce
  have v: "same_visible s u" using process_canonical_block_fresh [OF p] by (simp add: fresh_or_none_def)
  show ?thesis
  proof (cases q)
    case (Inl e)
    with assms(1) v show ?thesis by (auto simp: work_on_canonical_def p same_visible_def)
  next
    case (Inr new)
    obtain new' u1 where o: "publishable pe u new = (new', u1)" by fastforce
    have "r \<le> ps_reads u" using v assms(2) by (simp add: same_visible_def)
    then have n: "near_since pe r u1 a" if "new' = Some a" for a using publishable_near [OF o _ that] by blast
    have "same_visible u u1" using o by (cases rule: publishable_cases)
    with v have "same_visible s u1" by (rule same_visible_trans)
    moreover have "t = SwapCanonical new' block" "s' = record_pending_snapshot new' u1"
      using assms(1) by (simp_all add: work_on_canonical_def p Inr o)
    ultimately show ?thesis using n near_since_reads [of pe r u1] by (auto simp: same_visible_def)
  qed
qed

lemma load_frame:
  "load_and_judge pe job s = (t, s') \<Longrightarrow> ps_pending s' = ps_pending s \<and> ps_reads s \<le> ps_reads s'"
  by (auto simp: load_and_judge_def canonical_tip_eq Let_def split: option.splits if_splits)

lemma task_step_reads: "task_step pe (t, s) = (t', s') \<Longrightarrow> ps_reads s \<le> ps_reads s'"
  by (cases t) (auto simp: task_step_def drain_after_def dest: load_frame
      work_on_flashblock_near [where r = 0] work_on_canonical_near [where r = 0] split: prod.splits)

text \<open>A step judges the snapshot, or leaves everything that is held near.\<close>

lemma task_step_near:
  assumes "task_step pe (t, s) = (t', s')" and "r \<le> ps_reads s" and "unjudged t \<or> all_near pe r t s"
  shows "unjudged t' \<or> all_near pe r t' s'"
proof (cases t)
  case (Load job)
  then have l: "load_and_judge pe job s = (t', s')" using assms(1) by (simp add: task_step_def)
  show ?thesis
  proof (cases "t' = StoreNone job")
    case True
    show ?thesis
    proof (cases job)
      case (UpdateJob u)
      then show ?thesis using True by (auto simp: unjudged_def)
    next
      case (ReplayJob fb fbs)
      then have "all_near pe r t s" using assms(3) Load by (auto simp: unjudged_def)
      then have "all_near pe r t' s'" using load_frame [OF l] True by (auto intro: all_near_frame)
      then show ?thesis ..
    qed
  qed (use load_all_near [OF l assms(2)] in blast)
next
  case (StoreNone job)
  then show ?thesis using assms by (auto simp: task_step_def all_near_def)
next
  case (ApplyFlashblock fb rest prev)
  then have "all_near pe r t s" using assms(3) by (simp add: unjudged_def)
  then have "all_near pe r t' s'"
    using work_on_flashblock_near [of pe fb rest prev s t' s' r] ApplyFlashblock assms
    by (auto simp: task_step_def intro: all_near_frame)
  then show ?thesis ..
next
  case (ApplyCanonical block prev)
  then have "all_near pe r t s" using assms(3) by (simp add: unjudged_def)
  then have "all_near pe r t' s'"
    using work_on_canonical_near [of pe block prev s t' s' r] ApplyCanonical assms
    by (auto simp: task_step_def intro: all_near_frame)
  then show ?thesis ..
qed (use assms in \<open>auto simp: task_step_def drain_after_def unjudged_def all_near_def near_since_def split: prod.splits\<close>)

section \<open>The task ends from wherever it is\<close>

lemma task_ends: "\<exists>s'. task_runs pe (t, s) (Idle, s')"
proof -
  have replay: "\<exists>s'. task_runs pe (replay_next fbs, s) (Idle, s')" for fbs s
    using replay_runs by blast
  have applied: "\<exists>s'. task_runs pe (ApplyFlashblock fb rest prev, s) (Idle, s')" for fb rest prev s
    using task_runs_trans [OF apply_runs] replay by blast
  have swap: "\<exists>s'. task_runs pe (SwapCanonical new block, s) (Idle, s')" for new block s
  proof -
    obtain fbs s1 where "drain_after block (s\<lparr>ps_pending := new\<rparr>) = (fbs, s1)" by fastforce
    then have "task_step pe (SwapCanonical new block, s) = (replay_next fbs, s1)" by (simp add: task_step_def)
    then show ?thesis using replay [of fbs s1] by (metis runs_step)
  qed
  have canonical: "\<exists>s'. task_runs pe (ApplyCanonical block prev, s) (Idle, s')" for block prev s
  proof -
    obtain t1 s1 where w: "task_step pe (ApplyCanonical block prev, s) = (t1, s1)" by fastforce
    then have "t1 = Idle \<or> (\<exists>new. t1 = SwapCanonical new block)"
      by (auto simp: task_step_def work_on_canonical_def Let_def split: prod.splits sum.splits)
    then show ?thesis using w swap [of _ block s1] by (metis runs_done runs_step)
  qed
  have proceed: "\<exists>s'. task_runs pe (proceed job prev, s) (Idle, s')" for job prev s
    using applied canonical by (auto simp: proceed_def split: job.split StateUpdate.split)
  show ?thesis
  proof (cases t)
    case (Load job)
    then show ?thesis using task_runs_trans [OF load_runs] proceed by blast
  next
    case (StoreNone job)
    then have "task_step pe (t, s) = (proceed job None, s\<lparr>ps_pending := None\<rparr>)" by (simp add: task_step_def)
    then show ?thesis using proceed by (metis runs_step)
  next
    case (Swap new rest)
    then have "task_step pe (t, s) = (replay_next rest, s\<lparr>ps_pending := new\<rparr>)" by (simp add: task_step_def)
    then show ?thesis using replay by (metis runs_step)
  qed (use applied canonical swap runs_done in blast)+
qed

end
