(* ===== verification/ProcessorExample.thy ===== *)
theory ProcessorExample
  imports ProcessorSafety
begin

text \<open>
  A concrete environment for the processor, in which the witnesses evaluate: canonical
  headers exist up to block 7, transactions execute successfully, and receipts are
  converted field by field. With it, a flashblock of block 8 is built and published.
\<close>

definition example_convert ::
    "ConvertReceiptInput \<Rightarrow> BlobParams option
      \<Rightarrow> (receipt \<Rightarrow> nat \<Rightarrow> TransactionMeta \<Rightarrow> ReceiptWithBloom) \<Rightarrow> TransactionReceipt" where
  "example_convert i bp f =
     \<lparr>tr_inner = f (ci_receipt i) (ci_next_log_index i) (ci_meta i),
      tr_transaction_hash = tm_tx_hash (ci_meta i), tr_transaction_index = Some (tm_index (ci_meta i)),
      tr_block_hash = Some (tm_block_hash (ci_meta i)),
      tr_block_number = Some (tm_block_number (ci_meta i)), tr_gas_used = ci_gas_used i,
      tr_effective_gas_price = 0, tr_from = ci_sender i, tr_to = tx_to (ci_tx i),
      tr_contract_address = None\<rparr>"

definition example_evm :: "(unit, nat, unit, nat) evm" where
  "example_evm = \<lparr>ev_spec = example_spec, ev_hash_slow = (\<lambda>h. 1), ev_state_db = (\<lambda>_ _. 0),
     ev_insert_block_hash = (\<lambda>_ _ db. db), ev_next_evm_env = (\<lambda>_ _. Inr ()),
     ev_blockhashes_call = (\<lambda>_ _ db. Inr db), ev_beacon_root_call = (\<lambda>_ _ db. Inr db),
     ev_recover_signer = (\<lambda>t. Inr 9), ev_effective_tip_per_gas = (\<lambda>_ _. None),
     ev_blob_params_at_timestamp = (\<lambda>_. None), ev_logs_bloom = (\<lambda>_. 0),
     ev_build_receipt = example_convert,
     ev_transact = (\<lambda>_ db _ _. Inr (True, db, db)), ev_commit = (\<lambda>_ db. db + 1),
     ev_take_bundle = (\<lambda>_. bundle_default)\<rparr>"

definition example_client :: "unit client" where
  "example_client = \<lparr>cl_best_block_number = Inr 7,
     cl_header_by_number = (\<lambda>n. Inr (if n \<le> 7 then Some (header_at n) else None)),
     cl_state_by_block_number = (\<lambda>_. Inr ())\<rparr>"

definition example_env :: "(unit, nat, unit, nat) processor_env" where
  "example_env = \<lparr>pe_clients = (\<lambda>_. example_client), pe_evm = example_evm, pe_max_depth = 3\<rparr>"

definition example_log :: plog where
  "example_log = \<lparr>log_address = 5, log_topics = [], log_data = []\<rparr>"

definition example_wire_receipt :: "u64 \<Rightarrow> nat \<Rightarrow> receipt" where
  "example_wire_receipt gas n = \<lparr>rc_tx_type = 2, rc_success = True, rc_cumulative_gas_used = gas,
     rc_logs = replicate n example_log\<rparr>"

text \<open>The first flashblock of block 8, with two transactions, and the second one, with another.\<close>

definition example_first :: FlashBlock where
  "example_first = example_base_flashblock\<lparr>fb_metadata := default_metadata
     \<lparr>md_block_number := 8,
      md_receipts := [0 \<mapsto> example_wire_receipt 10 1, 2 \<mapsto> example_wire_receipt 25 2]\<rparr>\<rparr>"

definition example_second :: FlashBlock where
  "example_second = (make_flashblock 8 1)
     \<lparr>fb_diff := default_diff\<lparr>diff_transactions := [[1, 2, 3]], diff_requests := Some []\<rparr>,
      fb_metadata := default_metadata\<lparr>md_block_number := 8,
        md_receipts := [3 \<mapsto> example_wire_receipt 40 1]\<rparr>\<rparr>"

lemmas example_defs =
  example_env_def example_evm_def example_client_def example_spec_def example_convert_def
  example_first_def example_second_def example_base_flashblock_def example_wire_receipt_def
  example_decode_tx_def default_header_def flashblock_defaults header_at_def default_tx_def

lemmas build_defs =
  flashblocks_per_block_def checked_sub_def read_client_def build_from_anchor_def
  process_block_def assemble_def requests_hash_def set_beacon_root_def finish_header_def
  assemble_payload_def prepare_block_def recover_senders_def process_transaction_def
  wire_receipts_def updated_balances_def with_account_balances_def builder_defs builder_new_def
  build_def arc_new_def seal_def get_bundle_state_def get_transaction_state_def
  get_transaction_sender_def rpc_transaction_def rt_hash_def

definition example_start :: "nat processor" where
  "example_start = processor_new example_env None 0"

lemma example_first_built:
  "\<exists>a. ps_pending (on_update example_env example_start (Flashblock example_first)) = Some a
     \<and> ps_sent (on_update example_env example_start (Flashblock example_first)) = [a]
     \<and> map rt_hash (pb_transactions (arc_val a)) = [0, 2]
     \<and> earliest_block_number (arc_val a) = 8 \<and> latest_block_number (arc_val a) = 8
     \<and> pb_latest_flashblock_index (arc_val a) = 0
     \<and> pb_payload_id (arc_val a) = fb_payload_id example_first
     \<and> pb_anchor (arc_val a) \<noteq> None
     \<and> ps_last_canonical_block (on_update example_env example_start (Flashblock example_first)) = 0"
  by (simp add: example_start_def processor_new_def on_update_def load_pending_or_drop_stale_def
      apply_flashblock_def is_superseded_eq tip_at_def process_flashblock_def
      build_pending_state_def publish_flashblock_def publishable_eq usable_def
      latest_block_number_def earliest_block_number_def sh_number_def pb_payload_id_def
      example_defs build_defs Let_def record_pending_snapshot_def)

end
