(* ===== verification/Tasks.thy ===== *)
theory Tasks
  imports FbState ProcessorTask ProcessorExample
begin

text \<open>
  The three tasks that share the cells of \<open>FlashblocksState\<close>: the feed's, which receives
  flashblocks, the one that receives canonical blocks, and the processor's. Each is a
  program counter with the values it holds, each step has at most one access to a cell that
  another task writes, and the tasks interleave in any order.
\<close>

section \<open>The tasks and their steps\<close>

datatype feeding = Listening | Admitted FlashBlock | Priced FlashBlock

datatype 'st receiving =
    Waiting
  | Notified RecoveredBlock
  | Judged "'st PendingBlocks arc option" RecoveredBlock
  | Dropped RecoveredBlock

record 'st tasks =
  tk_state :: "'st FlashblocksState"
  tk_feed :: feeding
  tk_canonical :: "'st receiving"
  tk_processor :: "'st task"

definition tasks_new :: "'st FlashblocksState \<Rightarrow> 'st tasks" where
  "tasks_new fs = \<lparr>tk_state = fs, tk_feed = Listening, tk_canonical = Waiting, tk_processor = Idle\<rparr>"

text \<open>\<open>on_flashblock_received\<close>, a gate, the fee and the queue at a time.\<close>

definition feed_admit :: "bool \<Rightarrow> FlashBlock \<Rightarrow> 'st tasks \<Rightarrow> 'st tasks" where
  "feed_admit syncing fb tk =
     (case admit_flashblock syncing fb (tk_state tk) of (ok, fs) \<Rightarrow>
        tk\<lparr>tk_state := fs, tk_feed := (if ok then Admitted fb else Listening)\<rparr>)"

definition feed_continue :: "instant \<Rightarrow> 'st tasks \<Rightarrow> 'st tasks" where
  "feed_continue now tk =
     (case tk_feed tk of
        Listening \<Rightarrow> tk
      | Admitted fb \<Rightarrow> tk\<lparr>tk_state := store_inclusion_fee now fb (tk_state tk), tk_feed := Priced fb\<rparr>
      | Priced fb \<Rightarrow> tk\<lparr>tk_state := enqueue (Flashblock fb) (tk_state tk), tk_feed := Listening\<rparr>)"

text \<open>\<open>on_canonical_block_received\<close>: the stored tip, the load, the swap and the queue.\<close>

definition canonical_notify :: "RecoveredBlock \<Rightarrow> 'st tasks \<Rightarrow> 'st tasks" where
  "canonical_notify block tk =
     tk\<lparr>tk_state := store_last_canonical (rb_number block) (tk_state tk), tk_canonical := Notified block\<rparr>"

definition canonical_continue :: "'st tasks \<Rightarrow> 'st tasks" where
  "canonical_continue tk =
     (case tk_canonical tk of
        Waiting \<Rightarrow> tk
      | Notified block \<Rightarrow> tk\<lparr>tk_canonical := Judged (get_pending_blocks (tk_state tk)) block\<rparr>
      | Judged published block \<Rightarrow>
          tk\<lparr>tk_state := drop_pending_behind published (rb_number block) (tk_state tk),
             tk_canonical := Dropped block\<rparr>
      | Dropped block \<Rightarrow>
          tk\<lparr>tk_state := enqueue (Canonical block) (tk_state tk), tk_canonical := Waiting\<rparr>)"

text \<open>The processor's loop takes the oldest entry of the queue and works on it.\<close>

definition processor_take :: "'st tasks \<Rightarrow> 'st tasks" where
  "processor_take tk =
     (case fs_queue (tk_state tk) of
        [] \<Rightarrow> tk
      | u # us \<Rightarrow> tk\<lparr>tk_state := (tk_state tk)\<lparr>fs_queue := us\<rparr>, tk_processor := Load (UpdateJob u)\<rparr>)"

definition processor_continue ::
    "('sp, 'db, 'env, 'st) processor_env \<Rightarrow> 'st tasks \<Rightarrow> 'st tasks" where
  "processor_continue pe tk =
     (case task_step pe (tk_processor tk, fs_shared (tk_state tk)) of (t, s) \<Rightarrow>
        tk\<lparr>tk_state := (tk_state tk)\<lparr>fs_shared := s\<rparr>, tk_processor := t\<rparr>)"

text \<open>The steps in which nothing arrives from the feed, and all steps.\<close>

inductive inner_step ::
    "('sp, 'db, 'env, 'st) processor_env \<Rightarrow> 'st tasks \<Rightarrow> 'st tasks \<Rightarrow> bool"
  for pe where
  bind: "inner_step pe tk (tk\<lparr>tk_state := bind_sync_state (tk_state tk)\<rparr>)"
| receive: "inner_step pe tk (feed_continue now tk)"
| notify: "tk_canonical tk = Waiting \<Longrightarrow> inner_step pe tk (canonical_notify block tk)"
| canonical: "inner_step pe tk (canonical_continue tk)"
| take: "tk_processor tk = Idle \<Longrightarrow> inner_step pe tk (processor_take tk)"
| work: "inner_step pe tk (processor_continue pe tk)"

inductive tasks_step ::
    "('sp, 'db, 'env, 'st) processor_env \<Rightarrow> 'st tasks \<Rightarrow> 'st tasks \<Rightarrow> bool"
  for pe where
  admit: "tk_feed tk = Listening \<Longrightarrow> tasks_step pe tk (feed_admit syncing fb tk)"
| inner: "inner_step pe tk tk' \<Longrightarrow> tasks_step pe tk tk'"

lemma inner_steps: "(inner_step pe)\<^sup>*\<^sup>* tk tk' \<Longrightarrow> (tasks_step pe)\<^sup>*\<^sup>* tk tk'"
  by (rule rtranclp_mono [THEN predicate2D]) (auto intro: tasks_step.inner)

section \<open>Uninterrupted, the steps are the calls\<close>

lemma feed_admitted:
  assumes "tk_feed tk = Listening"
  shows "(inner_step pe)\<^sup>*\<^sup>* (feed_admit syncing fb tk)
    (tk\<lparr>tk_state := on_flashblock_received syncing now fb (tk_state tk)\<rparr>)"
proof -
  obtain ok fs where a: "admit_flashblock syncing fb (tk_state tk) = (ok, fs)" by fastforce
  let ?tk1 = "feed_admit syncing fb tk" and ?tk2 = "feed_continue now (feed_admit syncing fb tk)"
  show ?thesis
  proof (cases ok)
    case True
    have "inner_step pe ?tk1 ?tk2" "inner_step pe ?tk2 (feed_continue now ?tk2)"
      by (rule inner_step.receive)+
    moreover have "feed_continue now ?tk2 = tk\<lparr>tk_state := on_flashblock_received syncing now fb (tk_state tk)\<rparr>"
      using assms True a by (cases tk) (simp add: feed_admit_def feed_continue_def on_flashblock_received_def)
    ultimately show ?thesis by (metis converse_rtranclp_into_rtranclp r_into_rtranclp)
  next
    case False
    then have "?tk1 = tk\<lparr>tk_state := on_flashblock_received syncing now fb (tk_state tk)\<rparr>"
      using assms a by (cases tk) (simp add: feed_admit_def on_flashblock_received_def)
    then show ?thesis by simp
  qed
qed

lemma feed_uninterrupted:
  "tk_feed tk = Listening \<Longrightarrow>
     (tasks_step pe)\<^sup>*\<^sup>* tk (tk\<lparr>tk_state := on_flashblock_received syncing now fb (tk_state tk)\<rparr>)"
  by (rule converse_rtranclp_into_rtranclp [OF tasks_step.admit inner_steps [OF feed_admitted]])

lemma canonical_uninterrupted:
  assumes "tk_canonical tk = Waiting"
  shows "(inner_step pe)\<^sup>*\<^sup>* tk (tk\<lparr>tk_state := on_canonical_block_received block (tk_state tk)\<rparr>)"
proof -
  let ?tk1 = "canonical_notify block tk"
  have "inner_step pe tk ?tk1" using assms by (rule inner_step.notify)
  moreover have c: "inner_step pe t (canonical_continue t)" for t by (rule inner_step.canonical)
  moreover have "canonical_continue (canonical_continue (canonical_continue ?tk1)) =
      tk\<lparr>tk_state := on_canonical_block_received block (tk_state tk)\<rparr>"
    using assms by (cases tk)
      (simp add: canonical_notify_def canonical_continue_def on_canonical_block_received_def get_pending_blocks_def Let_def)
  ultimately show ?thesis
    by (metis converse_rtranclp_into_rtranclp r_into_rtranclp)
qed

lemma task_runs_tasks:
  assumes "task_runs pe (tk_processor tk, fs_shared (tk_state tk)) (t, s)"
  shows "(inner_step pe)\<^sup>*\<^sup>* tk (tk\<lparr>tk_state := (tk_state tk)\<lparr>fs_shared := s\<rparr>, tk_processor := t\<rparr>)"
  using assms
proof (induction "(tk_processor tk, fs_shared (tk_state tk))" "(t, s)" arbitrary: tk rule: task_runs.induct)
  case runs_done
  then have "tk\<lparr>tk_state := (tk_state tk)\<lparr>fs_shared := s\<rparr>, tk_processor := t\<rparr> = tk" by simp
  then show ?case by simp
next
  case runs_step
  let ?tk = "processor_continue pe tk"
  have "inner_step pe tk ?tk" by (rule inner_step.work)
  moreover have "task_step pe (tk_processor tk, fs_shared (tk_state tk)) = (tk_processor ?tk, fs_shared (tk_state ?tk))"
    by (simp add: processor_continue_def case_prod_beta)
  note runs_step.hyps(2) [OF this]
  moreover have "?tk\<lparr>tk_state := (tk_state ?tk)\<lparr>fs_shared := s\<rparr>, tk_processor := t\<rparr> =
      tk\<lparr>tk_state := (tk_state tk)\<lparr>fs_shared := s\<rparr>, tk_processor := t\<rparr>"
    by (simp add: processor_continue_def case_prod_beta)
  ultimately show ?case by (metis converse_rtranclp_into_rtranclp)
qed

text \<open>One turn of the processor's loop without interruption.\<close>

definition process_next ::
    "('sp, 'db, 'env, 'st) processor_env \<Rightarrow> 'st FlashblocksState \<Rightarrow> 'st FlashblocksState" where
  "process_next pe fs =
     (case fs_queue fs of
        [] \<Rightarrow> fs
      | u # us \<Rightarrow> fs\<lparr>fs_queue := us, fs_shared := on_update pe (fs_shared fs) u\<rparr>)"

lemma process_uninterrupted:
  assumes "tk_processor tk = Idle"
  shows "(inner_step pe)\<^sup>*\<^sup>* tk (tk\<lparr>tk_state := process_next pe (tk_state tk)\<rparr>)"
proof (cases "fs_queue (tk_state tk)")
  case (Cons u us)
  let ?tk = "processor_take tk"
  have "inner_step pe tk ?tk" using assms by (rule inner_step.take)
  moreover have "task_runs pe (tk_processor ?tk, fs_shared (tk_state ?tk)) (Idle, on_update pe (fs_shared (tk_state tk)) u)"
    using update_runs [of pe u "fs_shared (tk_state tk)"] by (simp add: processor_take_def Cons)
  note task_runs_tasks [OF this]
  moreover have "?tk\<lparr>tk_state := (tk_state ?tk)\<lparr>fs_shared := on_update pe (fs_shared (tk_state tk)) u\<rparr>, tk_processor := Idle\<rparr>
      = tk\<lparr>tk_state := process_next pe (tk_state tk)\<rparr>"
    using assms Cons by (cases tk) (simp add: processor_take_def process_next_def)
  ultimately show ?thesis by (metis converse_rtranclp_into_rtranclp)
qed (simp add: process_next_def)

section \<open>The invariant of every interleaving\<close>

definition judged_arcs :: "'st receiving \<Rightarrow> 'st PendingBlocks arc set" where
  "judged_arcs r = (case r of Judged published _ \<Rightarrow> set_option published | _ \<Rightarrow> {})"

lemma judged_arcs_simps [simp]:
  "judged_arcs Waiting = {}" "judged_arcs (Notified b) = {}" "judged_arcs (Dropped b) = {}"
  "judged_arcs (Judged published b) = set_option published"
  by (simp_all add: judged_arcs_def)

text \<open>\<open>others\<close> are the snapshots that readers outside the three tasks hold.\<close>

definition tasks_inv ::
    "('sp, 'db, 'env, 'st) processor_env \<Rightarrow> 'st PendingBlocks arc set \<Rightarrow> 'st tasks \<Rightarrow> bool" where
  "tasks_inv pe others tk \<longleftrightarrow>
     task_inv pe (others \<union> judged_arcs (tk_canonical tk)) (tk_processor tk) (fs_shared (tk_state tk))"

lemma admit_shared:
  "admit_flashblock syncing fb fs = (ok, fs') \<Longrightarrow> fs_shared fs' = fs_shared fs \<or> (\<exists>c. fs_shared fs' = incr c (fs_shared fs))"
  by (auto simp: admit_flashblock_def split: if_splits)

lemma store_fee_shared:
  "fs_shared (store_inclusion_fee now fb fs) = fs_shared fs
   \<or> fs_shared (store_inclusion_fee now fb fs) = incr inclusion_fee_received (fs_shared fs)"
  by (simp add: store_inclusion_fee_def Let_def)

lemma tasks_inv_frame:
  assumes "tasks_inv pe others tk" and "same_visible (fs_shared (tk_state tk)) (fs_shared (tk_state tk'))"
    and "ps_next_arc (fs_shared (tk_state tk')) = ps_next_arc (fs_shared (tk_state tk))"
    and "ps_reads (fs_shared (tk_state tk')) = ps_reads (fs_shared (tk_state tk))"
    and "tk_canonical tk' = tk_canonical tk" "tk_processor tk' = tk_processor tk"
  shows "tasks_inv pe others tk'"
  using assms unfolding tasks_inv_def
  by (elim task_inv_frame) (auto simp: same_visible_def arcs_in_use_def)

lemma feed_inv_kept:
  "tasks_inv pe others tk \<Longrightarrow> tasks_inv pe others (feed_admit syncing fb tk)"
  "tasks_inv pe others tk \<Longrightarrow> tasks_inv pe others (feed_continue now tk)"
proof -
  assume inv: "tasks_inv pe others tk"
  obtain ok fs where a: "admit_flashblock syncing fb (tk_state tk) = (ok, fs)" by fastforce
  show "tasks_inv pe others (feed_admit syncing fb tk)"
    by (rule tasks_inv_frame [OF inv]) (use admit_shared [OF a] in \<open>auto simp: feed_admit_def a\<close>)
  show "tasks_inv pe others (feed_continue now tk)"
  proof (cases "tk_feed tk")
    case (Admitted fb)
    show ?thesis
      by (rule tasks_inv_frame [OF inv])
        (use store_fee_shared [of now fb "tk_state tk"] in \<open>auto simp: feed_continue_def Admitted\<close>)
  qed (auto intro!: tasks_inv_frame [OF inv] simp: feed_continue_def)
qed

lemma canonical_inv_kept:
  assumes "tasks_inv pe others tk"
  shows "tasks_inv pe others (canonical_notify block tk)" and "tasks_inv pe others (canonical_continue tk)"
proof -
  show "tasks_inv pe others (canonical_notify block tk)"
    using assms unfolding tasks_inv_def
    by (elim task_inv_frame) (auto simp: canonical_notify_def arcs_in_use_def)
  show "tasks_inv pe others (canonical_continue tk)"
  proof (cases "tk_canonical tk")
    case (Judged published b)
    show ?thesis
      using assms drop_pending_cases [of published "rb_number b" "tk_state tk"] unfolding tasks_inv_def
      by (elim task_inv_frame) (auto simp: canonical_continue_def Judged arcs_in_use_def)
  qed (use assms in \<open>auto simp: canonical_continue_def tasks_inv_def arcs_in_use_def get_pending_blocks_def
        elim!: task_inv_frame\<close>)
qed

lemma processor_inv_kept:
  assumes "tasks_inv pe others tk"
  shows "tk_processor tk = Idle \<Longrightarrow> tasks_inv pe others (processor_take tk)" and "tasks_inv pe others (processor_continue pe tk)"
proof -
  show "tasks_inv pe others (processor_take tk)" if "tk_processor tk = Idle"
    using assms that unfolding tasks_inv_def
    by (elim task_inv_frame) (auto simp: processor_take_def arcs_in_use_def split: list.split)
  obtain t s where "task_step pe (tk_processor tk, fs_shared (tk_state tk)) = (t, s)" by fastforce
  then show "tasks_inv pe others (processor_continue pe tk)"
    using assms by (simp add: processor_continue_def tasks_inv_def task_step_inv)
qed

lemma inner_step_inv:
  assumes "tasks_inv pe others tk" and "inner_step pe tk tk'"
  shows "tasks_inv pe others tk'"
  using assms(2,1)
proof cases
  case bind
  then show ?thesis using assms(1) by (simp add: tasks_inv_def bind_sync_state_def)
qed (simp_all add: feed_inv_kept canonical_inv_kept processor_inv_kept)

lemma tasks_step_inv: "tasks_inv pe others tk \<Longrightarrow> tasks_step pe tk tk' \<Longrightarrow> tasks_inv pe others tk'"
  by (auto elim!: tasks_step.cases simp: feed_inv_kept inner_step_inv)

lemma tasks_new_inv: "tasks_inv pe {} (tasks_new (fs_new (processor_new pe None 0) depth))"
proof -
  have "ps_sent (processor_new pe None 0) = []" by (simp add: processor_new_def)
  then show ?thesis
    using processor_new_inv [of pe 0]
    by (simp add: tasks_inv_def tasks_new_def task_inv_def arcs_in_use_def fs_new_def processor_inv_def)
qed

interpretation interleaved: transition_system
  "\<lambda>tk. \<exists>depth. tk = tasks_new (fs_new (processor_new pe None 0) depth)" "tasks_step pe" "tasks_inv pe {}"
  for pe :: "('sp, 'db, 'env, 'st) processor_env"
  by unfold_locales (auto simp: tasks_new_inv intro: tasks_step_inv)

section \<open>Properties\<close>

text \<open>
  C7. Interleaving is harmless: however the three tasks interleave, step by step, the
  published snapshot and every broadcast one was usable at a tip the processor read, no
  snapshot is broadcast twice, and the early cache stays well formed.
\<close>

theorem interleavings_safe:
  assumes "(tasks_step pe)\<^sup>*\<^sup>* (tasks_new (fs_new (processor_new pe None 0) depth)) tk"
  shows "(\<forall>a. get_pending_blocks (tk_state tk) = Some a \<or> a \<in> set (ps_sent (fs_shared (tk_state tk))) \<longrightarrow>
        was_usable pe (ps_reads (fs_shared (tk_state tk))) a)
    \<and> sorted_wrt (<) (map arc_id (ps_sent (fs_shared (tk_state tk))))
    \<and> wf_cache (ps_cache (fs_shared (tk_state tk)))"
proof -
  have "tasks_inv pe {} tk" using assms by (blast intro: interleaved.reachable_inv)
  then show ?thesis by (auto simp: tasks_inv_def task_inv_def arcs_in_use_def get_pending_blocks_def)
qed

text \<open>
  C8. A stranded snapshot is dropped without a race: whatever the other tasks did since the
  load, the swap of the canonical task removes the published snapshot only when it is the
  very snapshot that was judged and its earliest block lies more than the maximum depth
  below the notified block; any other snapshot stays.
\<close>

theorem drop_only_judged:
  assumes "(tasks_step pe)\<^sup>*\<^sup>* (tasks_new (fs_new (processor_new pe None 0) depth)) tk"
    and "tk_canonical tk = Judged published block"
  shows "get_pending_blocks (tk_state (canonical_continue tk)) =
      (case published of
         Some stale \<Rightarrow>
           if get_pending_blocks (tk_state tk) = Some stale
              \<and> unat (earliest_block_number (arc_val stale))
                  + unat (fs_max_pending_blocks_depth (tk_state tk)) < unat (rb_number block)
           then None else get_pending_blocks (tk_state tk)
       | None \<Rightarrow> get_pending_blocks (tk_state tk))"
proof -
  have "tasks_inv pe {} tk" using assms(1) by (blast intro: interleaved.reachable_inv)
  then have "arcs_coherent (set_option published \<union> set_option (get_pending_blocks (tk_state tk)))"
    using assms(2) by (auto simp: tasks_inv_def task_inv_def arcs_in_use_def get_pending_blocks_def
        elim: arcs_coherent_mono)
  then have "c = stale" if "published = Some stale" "get_pending_blocks (tk_state tk) = Some c"
    "arc_id c = arc_id stale" for stale c
    using that by (auto elim: arcs_coherentD)
  from drop_pending_exact [OF this] show ?thesis using assms(2) by (simp add: canonical_continue_def)
qed

section \<open>Staleness and progress\<close>

text \<open>What a step of any task keeps of the judgement of the current update.\<close>

definition tasks_near :: "('sp, 'db, 'env, 'st) processor_env \<Rightarrow> nat \<Rightarrow> 'st tasks \<Rightarrow> bool" where
  "tasks_near pe r tk \<longleftrightarrow> r \<le> ps_reads (fs_shared (tk_state tk))
     \<and> (unjudged (tk_processor tk) \<or> all_near pe r (tk_processor tk) (fs_shared (tk_state tk)))"

lemma tasks_near_frame:
  assumes "tasks_near pe r tk" and "tk_processor tk' = tk_processor tk"
    and "ps_reads (fs_shared (tk_state tk')) = ps_reads (fs_shared (tk_state tk))"
    and "set_option (ps_pending (fs_shared (tk_state tk'))) \<subseteq> set_option (ps_pending (fs_shared (tk_state tk)))"
  shows "tasks_near pe r tk'"
  using assms by (auto simp: tasks_near_def intro: all_near_frame)

lemma inner_step_near:
  assumes "tasks_near pe r tk" and "inner_step pe tk tk'"
  shows "tasks_near pe r tk'"
  using assms(2)
proof cases
  case bind
  then show ?thesis by (intro tasks_near_frame [OF assms(1)]) (simp_all add: bind_sync_state_def)
next
  case (receive now)
  show ?thesis
  proof (cases "tk_feed tk")
    case (Admitted fb)
    then show ?thesis
      using receive store_fee_shared [of now fb "tk_state tk"]
      by (intro tasks_near_frame [OF assms(1)]) (auto simp: feed_continue_def)
  qed (use receive in \<open>auto intro!: tasks_near_frame [OF assms(1)] simp: feed_continue_def\<close>)
next
  case (notify block)
  then show ?thesis by (intro tasks_near_frame [OF assms(1)]) (simp_all add: canonical_notify_def)
next
  case canonical
  show ?thesis
  proof (cases "tk_canonical tk")
    case (Judged published b)
    then show ?thesis
      using canonical drop_pending_cases [of published "rb_number b" "tk_state tk"]
      by (intro tasks_near_frame [OF assms(1)]) (auto simp: canonical_continue_def)
  qed (use canonical in \<open>auto intro!: tasks_near_frame [OF assms(1)] simp: canonical_continue_def\<close>)
next
  case take
  then show ?thesis using assms(1)
    by (auto simp: processor_take_def tasks_near_def unjudged_def all_near_def split: list.split)
next
  case work
  obtain t s where "task_step pe (tk_processor tk, fs_shared (tk_state tk)) = (t, s)" by fastforce
  with work assms(1) task_step_near task_step_reads show ?thesis
    by (fastforce simp: processor_continue_def tasks_near_def)
qed

lemma tasks_step_near: "tasks_step pe tk tk' \<Longrightarrow> tasks_near pe r tk \<Longrightarrow> tasks_near pe r tk'"
proof (induction rule: tasks_step.induct)
  case (admit tk syncing fb)
  obtain ok fs where a: "admit_flashblock syncing fb (tk_state tk) = (ok, fs)" by fastforce
  show ?case
    by (rule tasks_near_frame [OF admit.prems]) (use admit_shared [OF a] in \<open>auto simp: feed_admit_def a\<close>)
qed (rule inner_step_near)

lemma tasks_steps_near: "(tasks_step pe)\<^sup>*\<^sup>* tk tk' \<Longrightarrow> tasks_near pe r tk \<Longrightarrow> tasks_near pe r tk'"
  by (induction rule: rtranclp_induct) (auto intro: tasks_step_near)

text \<open>
  C10. Every update bounds staleness: from the moment the processor takes an update, whatever the
  other tasks do, a snapshot that is published once the processor is idle again was, at a
  tip read since then, at most the maximum depth behind that tip (or the tip could not be
  read).
\<close>

theorem update_bounds_staleness:
  assumes "tk_processor tk = Load (UpdateJob u)" and "(tasks_step pe)\<^sup>*\<^sup>* tk tk'"
    and "tk_processor tk' = Idle" and "get_pending_blocks (tk_state tk') = Some a"
  shows "\<exists>k. ps_reads (fs_shared (tk_state tk)) \<le> k \<and> k < ps_reads (fs_shared (tk_state tk'))
    \<and> (case res_ok (cl_best_block_number (pe_clients pe k)) of
         None \<Rightarrow> True
       | Some best \<Rightarrow> unat best \<le> unat (earliest_block_number (arc_val a)) + unat (pe_max_depth pe))"
proof -
  let ?r = "ps_reads (fs_shared (tk_state tk))"
  have "tasks_near pe ?r tk" using assms(1) by (simp add: tasks_near_def unjudged_def)
  then have "tasks_near pe ?r tk'" by (rule tasks_steps_near [OF assms(2)])
  then have "near_since pe ?r (fs_shared (tk_state tk')) a"
    using assms(3,4) by (simp add: tasks_near_def unjudged_def all_near_def get_pending_blocks_def)
  then show ?thesis by (auto simp: near_since_def near_at_def tip_at_def)
qed

text \<open>
  C11. The processor always makes progress: from every state its own steps alone, whatever it
  is working on and whatever is queued, lead to an idle processor with an empty queue, and
  leave the feed's and the canonical task where they are.
\<close>

theorem processor_drains:
  "\<exists>tk'. (inner_step pe)\<^sup>*\<^sup>* tk tk' \<and> tk_processor tk' = Idle \<and> fs_queue (tk_state tk') = []
     \<and> tk_feed tk' = tk_feed tk \<and> tk_canonical tk' = tk_canonical tk"
proof -
  obtain s where "task_runs pe (tk_processor tk, fs_shared (tk_state tk)) (Idle, s)" using task_ends by blast
  from task_runs_tasks [OF this] obtain tk1 where first: "(inner_step pe)\<^sup>*\<^sup>* tk tk1" "tk_processor tk1 = Idle"
    "tk_feed tk1 = tk_feed tk" "tk_canonical tk1 = tk_canonical tk" by fastforce
  have "\<exists>tk'. (inner_step pe)\<^sup>*\<^sup>* tk1 tk' \<and> tk_processor tk' = Idle \<and> fs_queue (tk_state tk') = []
      \<and> tk_feed tk' = tk_feed tk1 \<and> tk_canonical tk' = tk_canonical tk1"
    using first(2)
  proof (induction "length (fs_queue (tk_state tk1))" arbitrary: tk1)
    case 0
    then show ?case by auto
  next
    case (Suc n)
    let ?tk = "tk1\<lparr>tk_state := process_next pe (tk_state tk1)\<rparr>"
    have "n = length (fs_queue (tk_state ?tk))" using Suc.hyps(2)
      by (cases "fs_queue (tk_state tk1)") (simp_all add: process_next_def)
    moreover have "tk_processor ?tk = Idle" using Suc.prems by simp
    ultimately obtain tk' where "(inner_step pe)\<^sup>*\<^sup>* ?tk tk'" "tk_processor tk' = Idle" "fs_queue (tk_state tk') = []"
      "tk_feed tk' = tk_feed ?tk" "tk_canonical tk' = tk_canonical ?tk"
      using Suc.hyps(1) by blast
    with process_uninterrupted [OF Suc.prems, of pe] show ?case by (auto intro: rtranclp_trans)
  qed
  with first show ?thesis by (metis rtranclp_trans)
qed

section \<open>Example runs\<close>

text \<open>Block 8's first flashblock arrives and is processed.\<close>

definition example_system :: "nat FlashblocksState" where
  "example_system = process_next example_env
     (on_flashblock_received False 0 example_first (fs_new example_start 3))"

definition example_tasks :: "nat tasks" where
  "example_tasks = tasks_new example_system"

lemma example_tasks_reached:
  "(tasks_step example_env)\<^sup>*\<^sup>* (tasks_new (fs_new (processor_new example_env None 0) 3)) example_tasks"
proof -
  let ?new = "tasks_new (fs_new example_start 3)"
  let ?received = "?new\<lparr>tk_state := on_flashblock_received False 0 example_first (tk_state ?new)\<rparr>"
  have "(tasks_step example_env)\<^sup>*\<^sup>* ?new ?received"
    by (rule feed_uninterrupted) (simp add: tasks_new_def)
  also have "(tasks_step example_env)\<^sup>*\<^sup>* ?received (?received\<lparr>tk_state := process_next example_env (tk_state ?received)\<rparr>)"
    by (rule inner_steps, rule process_uninterrupted) (simp add: tasks_new_def)
  finally show ?thesis
    by (simp add: example_tasks_def example_system_def tasks_new_def example_start_def)
qed

lemma example_system_shared:
  "fs_shared example_system = on_update example_env example_start (Flashblock example_first)
   \<and> fs_queue example_system = [] \<and> fs_max_pending_blocks_depth example_system = 3"
proof -
  have "fs_shared (fs_new example_start 3) = example_start"
    by (simp add: fs_new_def example_start_def processor_new_def)
  then show ?thesis
    by (simp add: example_system_def process_next_def on_flashblock_received_def admit_flashblock_def
        store_inclusion_fee_def enqueue_def is_syncing_def received_fee_def fs_new_def example_first_def
        default_metadata_def example_start_def processor_new_def)
qed

lemma example_published:
  obtains a where "get_pending_blocks example_system = Some a" "ps_sent (fs_shared example_system) = [a]"
    "earliest_block_number (arc_val a) = 8" "latest_block_number (arc_val a) = 8"
    "pb_latest_flashblock_index (arc_val a) = 0" "pb_payload_id (arc_val a) = fb_payload_id example_first"
    "ps_last_canonical_block (fs_shared example_system) = 0" "pb_anchor (arc_val a) \<noteq> None"
  using example_first_built by (auto simp: get_pending_blocks_def example_system_shared)

theorem interleavings_safe_witness:
  "\<exists>a. get_pending_blocks (tk_state example_tasks) = Some a
     \<and> was_usable example_env (ps_reads (fs_shared (tk_state example_tasks))) a"
proof -
  obtain a where "get_pending_blocks (tk_state example_tasks) = Some a"
    using example_published by (auto simp: example_tasks_def tasks_new_def)
  with interleavings_safe [OF example_tasks_reached] show ?thesis by blast
qed

text \<open>The moment the processor takes that flashblock.\<close>

definition example_taken :: "nat tasks" where
  "example_taken = processor_take (tasks_new (on_flashblock_received False 0 example_first (fs_new example_start 3)))"

lemma example_taken_state:
  "tk_processor example_taken = Load (UpdateJob (Flashblock example_first))"
  "fs_shared (tk_state example_taken) = example_start"
  "(tasks_step example_env)\<^sup>*\<^sup>* example_taken example_tasks"
proof -
  let ?fs = "on_flashblock_received False 0 example_first (fs_new example_start 3)"
  have q: "fs_queue ?fs = [Flashblock example_first]" "fs_shared ?fs = example_start"
    by (simp_all add: on_flashblock_received_def admit_flashblock_def store_inclusion_fee_def is_syncing_def
        received_fee_def fs_new_def example_first_def default_metadata_def example_start_def processor_new_def)
  then show p: "tk_processor example_taken = Load (UpdateJob (Flashblock example_first))"
    and s: "fs_shared (tk_state example_taken) = example_start"
    by (simp_all add: example_taken_def tasks_new_def processor_take_def)
  have "task_runs example_env (tk_processor example_taken, fs_shared (tk_state example_taken))
      (Idle, on_update example_env example_start (Flashblock example_first))"
    unfolding p s by (rule update_runs)
  from task_runs_tasks [OF this] q show "(tasks_step example_env)\<^sup>*\<^sup>* example_taken example_tasks"
    by (intro inner_steps)
      (simp add: example_taken_def example_tasks_def example_system_def tasks_new_def processor_take_def process_next_def)
qed

theorem update_bounds_staleness_witness:
  "\<exists>a k. get_pending_blocks (tk_state example_tasks) = Some a
     \<and> ps_reads example_start \<le> k \<and> k < ps_reads (fs_shared (tk_state example_tasks))
     \<and> unat (7 :: u64) \<le> unat (earliest_block_number (arc_val a)) + unat (3 :: u64)"
proof -
  have t: "tk_processor example_tasks = Idle" "tk_state example_tasks = example_system"
    by (simp_all add: example_tasks_def tasks_new_def)
  obtain a where a: "get_pending_blocks (tk_state example_tasks) = Some a"
    using example_published t(2) by metis
  from update_bounds_staleness [OF example_taken_state(1,3) t(1) a] a show ?thesis
    by (auto simp: example_taken_state(2) example_env_def example_client_def)
qed

definition example_far_block :: RecoveredBlock where
  "example_far_block = \<lparr>rb_block = \<lparr>blk_header = header_at 12, blk_transactions = [], blk_withdrawals = None\<rparr>,
     rb_hash = 0, rb_senders = []\<rparr>"

lemma far_block_number [simp]: "rb_number example_far_block = 12"
  by (simp add: example_far_block_def rb_number_def header_at_def)

text \<open>The canonical task is notified of block 12 and loads the snapshot.\<close>

definition example_judged :: "nat tasks \<Rightarrow> nat tasks" where
  "example_judged tk = canonical_continue (canonical_notify example_far_block tk)"

lemma example_judged_reached:
  "tk_canonical tk = Waiting \<Longrightarrow> (inner_step example_env)\<^sup>*\<^sup>* tk (example_judged tk)"
  unfolding example_judged_def
  by (meson converse_rtranclp_into_rtranclp r_into_rtranclp inner_step.canonical inner_step.notify)

lemma example_judged_fields [simp]:
  "tk_canonical (example_judged tk) = Judged (get_pending_blocks (tk_state tk)) example_far_block"
  "get_pending_blocks (tk_state (example_judged tk)) = get_pending_blocks (tk_state tk)"
  "fs_max_pending_blocks_depth (tk_state (example_judged tk)) = fs_max_pending_blocks_depth (tk_state tk)"
  "tk_processor (example_judged tk) = tk_processor tk"
  "ps_last_canonical_block (fs_shared (tk_state (example_judged tk))) = 12"
  by (simp_all add: example_judged_def canonical_continue_def canonical_notify_def get_pending_blocks_def
      store_last_canonical_def)

lemma example_dropped:
  assumes "get_pending_blocks (tk_state tk) = Some a" and "earliest_block_number (arc_val a) = 8"
    and "fs_max_pending_blocks_depth (tk_state tk) = 3"
  shows "get_pending_blocks (tk_state (canonical_continue (example_judged tk))) = None"
  using assms drop_pending_exact [of "Some a" "tk_state (example_judged tk)" 12]
  by (simp add: canonical_continue_def [of "example_judged tk"])

theorem drop_only_judged_witness:
  "get_pending_blocks (tk_state (example_judged example_tasks)) \<noteq> None
   \<and> get_pending_blocks (tk_state (canonical_continue (example_judged example_tasks))) = None"
proof -
  obtain a where a: "get_pending_blocks (tk_state example_tasks) = Some a" "earliest_block_number (arc_val a) = 8"
    using example_published by (auto simp: example_tasks_def tasks_new_def)
  have "(tasks_step example_env)\<^sup>*\<^sup>* example_tasks (example_judged example_tasks)"
    by (rule inner_steps, rule example_judged_reached) (simp add: example_tasks_def tasks_new_def)
  from drop_only_judged [OF rtranclp_trans [OF example_tasks_reached this] example_judged_fields(1)] a
  show ?thesis by (simp add: example_tasks_def tasks_new_def example_system_shared)
qed

section \<open>A dropped snapshot can return\<close>

text \<open>
  The first flashblock arrives again, and the processor works on the duplicate up to its
  swap: it holds the published snapshot, which its checks found near a tip of 7.
\<close>

definition example_in_flight :: "nat tasks" where
  "example_in_flight = processor_continue example_env (processor_continue example_env (processor_take
     (example_tasks\<lparr>tk_state := on_flashblock_received False 0 example_first (tk_state example_tasks)\<rparr>)))"

lemma example_in_flight_reached: "(tasks_step example_env)\<^sup>*\<^sup>* example_tasks example_in_flight"
proof -
  let ?received = "example_tasks\<lparr>tk_state := on_flashblock_received False 0 example_first (tk_state example_tasks)\<rparr>"
  have "(tasks_step example_env)\<^sup>*\<^sup>* example_tasks ?received"
    by (rule feed_uninterrupted) (simp add: example_tasks_def tasks_new_def)
  moreover have "tasks_step example_env ?received (processor_take ?received)"
    by (rule tasks_step.inner, rule inner_step.take) (simp add: example_tasks_def tasks_new_def)
  moreover have "tasks_step example_env t (processor_continue example_env t)" for t
    by (rule tasks_step.inner, rule inner_step.work)
  ultimately show ?thesis
    unfolding example_in_flight_def by (metis rtranclp.rtrancl_into_rtrancl)
qed

lemma example_tip [simp]: "tip_at example_env n = Some 7" "pe_max_depth example_env = 3"
  by (simp_all add: tip_at_def example_env_def example_client_def)

lemma example_duplicate:
  assumes "ps_pending s = Some a" and "ps_last_canonical_block s = 0"
    and "earliest_block_number (arc_val a) = 8" and "latest_block_number (arc_val a) = 8"
    and "pb_latest_flashblock_index (arc_val a) = 0" and "pb_payload_id (arc_val a) = fb_payload_id example_first"
  shows "\<exists>s'. task_step example_env (task_step example_env (Load (UpdateJob (Flashblock example_first)), s))
      = (Swap (Some a) [], s') \<and> ps_pending s' = Some a"
proof -
  let ?s = "s\<lparr>ps_reads := ps_reads s + 1\<rparr>" and ?s2 = "s\<lparr>ps_reads := ps_reads s + 2\<rparr>"
  have fb: "block_number_of example_first = 8" "md_block_number (fb_metadata example_first) = 8" "fb_index example_first = 0"
    by (simp_all add: block_number_of_def example_defs)
  have "task_step example_env (Load (UpdateJob (Flashblock example_first)), s)
      = (ApplyFlashblock example_first [] (Some a), ?s)"
    using assms by (simp add: task_step_def load_and_judge_def canonical_tip_eq is_anchored_near_iff proceed_def)
  moreover have "process_flashblock example_env ?s2 (Some a) example_first = (Inr (Some a), incr unexpected_block_order ?s2)"
    using assms fb by (simp add: process_flashblock_def seq_validate_def)
  then have "\<exists>s'. task_step example_env (ApplyFlashblock example_first [] (Some a), ?s) = (Swap (Some a) [], s')
      \<and> ps_pending s' = Some a"
    using assms fb by (simp add: task_step_def work_on_flashblock_def is_superseded_eq offer_flashblock_def
        publishable_eq usable_def ptr_eq_def)
  ultimately show ?thesis by simp
qed

lemma example_in_flight_state:
  obtains a where "get_pending_blocks (tk_state example_in_flight) = Some a"
    "tk_processor example_in_flight = Swap (Some a) []" "tk_canonical example_in_flight = Waiting"
    "fs_max_pending_blocks_depth (tk_state example_in_flight) = 3" "earliest_block_number (arc_val a) = 8"
proof -
  obtain a where a: "get_pending_blocks example_system = Some a" "earliest_block_number (arc_val a) = 8"
    "latest_block_number (arc_val a) = 8" "pb_latest_flashblock_index (arc_val a) = 0"
    "pb_payload_id (arc_val a) = fb_payload_id example_first" "ps_last_canonical_block (fs_shared example_system) = 0"
    by (rule example_published)
  have r: "on_flashblock_received False 0 example_first example_system =
      example_system\<lparr>fs_inclusion_fee := None, fs_queue := [Flashblock example_first]\<rparr>"
    using a(6) example_system_shared
    by (simp add: on_flashblock_received_def admit_flashblock_def is_syncing_def store_inclusion_fee_def
        received_fee_def enqueue_def example_first_def default_metadata_def)
  obtain s where s: "task_step example_env (task_step example_env
      (Load (UpdateJob (Flashblock example_first)), fs_shared example_system)) = (Swap (Some a) [], s)"
    "ps_pending s = Some a"
    using example_duplicate [of "fs_shared example_system" a] a by (auto simp: get_pending_blocks_def)
  then have eq: "example_in_flight = example_tasks\<lparr>tk_state := example_system
      \<lparr>fs_inclusion_fee := None, fs_queue := [], fs_shared := s\<rparr>, tk_processor := Swap (Some a) []\<rparr>"
    by (simp add: example_in_flight_def example_tasks_def tasks_new_def r processor_take_def
        processor_continue_def case_prod_beta)
  show thesis
    by (rule that [of a], unfold eq)
      (use s(2) a(2) example_system_shared in \<open>simp_all add: get_pending_blocks_def example_tasks_def tasks_new_def\<close>)
qed

text \<open>
  C9. The drop of a stranded snapshot can be undone: there is a run in which the canonical task,
  notified of block 12, drops a snapshot anchored at block 8, more than the maximum depth of
  three behind, and the processor then publishes the very same snapshot again, because it had
  passed its tip checks before the drop. The bound on staleness by chain progress does not
  hold until the processor reaches the queued canonical block.
\<close>

theorem dropped_snapshot_returns:
  "\<exists>tk a. (tasks_step example_env)\<^sup>*\<^sup>* (tasks_new (fs_new (processor_new example_env None 0) 3)) tk
     \<and> get_pending_blocks (tk_state tk) = Some a
     \<and> get_pending_blocks (tk_state (canonical_continue tk)) = None
     \<and> get_pending_blocks (tk_state (processor_continue example_env (canonical_continue tk))) = Some a
     \<and> unat (earliest_block_number (arc_val a)) + unat (pe_max_depth example_env)
         < unat (ps_last_canonical_block (fs_shared (tk_state (processor_continue example_env (canonical_continue tk)))))"
proof -
  obtain a where a: "get_pending_blocks (tk_state example_in_flight) = Some a"
    "tk_processor example_in_flight = Swap (Some a) []" "tk_canonical example_in_flight = Waiting"
    "fs_max_pending_blocks_depth (tk_state example_in_flight) = 3" "earliest_block_number (arc_val a) = 8"
    by (rule example_in_flight_state)
  let ?tk = "example_judged example_in_flight"
  have "(tasks_step example_env)\<^sup>*\<^sup>* (tasks_new (fs_new (processor_new example_env None 0) 3)) ?tk"
    using example_tasks_reached example_in_flight_reached inner_steps [OF example_judged_reached [OF a(3)]]
    by (meson rtranclp_trans)
  moreover have "get_pending_blocks (tk_state (canonical_continue ?tk)) = None"
    using a by (intro example_dropped)
  moreover have "tk_processor (canonical_continue ?tk) = Swap (Some a) []"
    using a by (simp add: canonical_continue_def [of ?tk])
  then have "get_pending_blocks (tk_state (processor_continue example_env (canonical_continue ?tk))) = Some a"
    by (simp add: processor_continue_def task_step_def replay_next_def get_pending_blocks_def)
  moreover have "ps_last_canonical_block (fs_shared (tk_state (processor_continue example_env (canonical_continue ?tk)))) = 12"
    using a drop_pending_cases [of "Some a" 12 "tk_state ?tk"]
    by (auto simp: processor_continue_def task_step_def canonical_continue_def [of ?tk])
  ultimately show ?thesis
    using a by (intro exI [of _ ?tk] exI [of _ a]) simp
qed

end
