(* ===== verification/Overlay.thy ===== *)
theory Overlay
  imports Pending
begin

text \<open>
  The \<open>pending\<close> state of the node's \<open>eth\<close> API: the snapshot's bundle read in place over the
  anchor's state (\<open>runner/src/pending_provider.rs\<close>), the overlay and its source
  (\<open>runner/src/pending_state.rs\<close>, \<open>flashblocks-node/src/pending_state.rs\<close>) and the part of
  \<open>runner/src/eth_api.rs\<close> that decides what \<open>pending\<close> resolves to. A state provider of reth
  is the record of its methods; hashed state \<open>'hs\<close>, hashed storage \<open>'hst\<close>, trie input \<open>'ti\<close>,
  trie updates \<open>'tu\<close> and proofs \<open>'pf\<close> are reth's and stay abstract.
\<close>

section \<open>State providers\<close>

record Account =
  acc_nonce :: u64
  acc_balance :: u256
  acc_bytecode_hash :: "b256 option"

record ('hs, 'hst, 'ti, 'tu, 'pf) state_provider =
  sp_basic_account :: "address \<Rightarrow> string + Account option"
  sp_block_hash :: "u64 \<Rightarrow> string + b256 option"
  sp_canonical_hashes_range :: "u64 \<Rightarrow> u64 \<Rightarrow> string + b256 list"
  sp_bytecode_by_hash :: "b256 \<Rightarrow> string + bytes option"
  sp_storage :: "address \<Rightarrow> u256 \<Rightarrow> string + u256 option"
  sp_hashed_post_state :: "BundleState \<Rightarrow> string + 'hs"
  sp_state_root :: "'hs \<Rightarrow> string + b256"
  sp_state_root_from_nodes :: "'ti \<Rightarrow> string + b256"
  sp_state_root_with_updates :: "'hs \<Rightarrow> string + b256 \<times> 'tu"
  sp_state_root_from_nodes_with_updates :: "'ti \<Rightarrow> string + b256 \<times> 'tu"
  sp_storage_root :: "address \<Rightarrow> 'hst \<Rightarrow> string + b256"
  sp_storage_proof :: "address \<Rightarrow> b256 \<Rightarrow> 'hst \<Rightarrow> string + 'pf"
  sp_storage_multiproof :: "address \<Rightarrow> b256 list \<Rightarrow> 'hst \<Rightarrow> string + 'pf"
  sp_proof :: "'ti \<Rightarrow> address \<Rightarrow> b256 list \<Rightarrow> string + 'pf"
  sp_multiproof :: "'ti \<Rightarrow> (b256 \<times> b256 list) list \<Rightarrow> string + 'pf"
  sp_multiproof_v2 :: "(b256 \<times> b256 list) list \<Rightarrow> bool \<Rightarrow> string + 'pf"
  sp_witness :: "'ti \<Rightarrow> 'hs \<Rightarrow> bool \<Rightarrow> string + bytes list"

text \<open>The operations of reth's and revm's types that the provider calls.\<close>

record ('hs, 'hst, 'ti) trie_ops =
  to_account_from :: "AccountInfo \<Rightarrow> Account"
  to_hashed_extend :: "'hs \<Rightarrow> 'hs \<Rightarrow> 'hs"
  to_hashed_storage_of :: "'hs \<Rightarrow> address \<Rightarrow> 'hst option"
  to_storage_default :: 'hst
  to_storage_extend :: "'hst \<Rightarrow> 'hst \<Rightarrow> 'hst"
  to_input_prepend :: "'hs \<Rightarrow> 'ti \<Rightarrow> 'ti"

section \<open>The pending state provider\<close>

record ('hs, 'hst, 'ti, 'tu, 'pf) PendingStateProvider =
  psp_anchor :: "('hs, 'hst, 'ti, 'tu, 'pf) state_provider"
  psp_bundle :: BundleState

definition hashed_bundle :: "('hs, 'hst, 'ti, 'tu, 'pf) PendingStateProvider \<Rightarrow> string + 'hs" where
  "hashed_bundle p = sp_hashed_post_state (psp_anchor p) (psp_bundle p)"

definition hashed_bundle_storage ::
    "('hs, 'hst, 'ti) trie_ops \<Rightarrow> ('hs, 'hst, 'ti, 'tu, 'pf) PendingStateProvider \<Rightarrow> address
      \<Rightarrow> string + 'hst" where
  "hashed_bundle_storage ops p a =
     res_bind (hashed_bundle p) (\<lambda>hs.
       Inr (case to_hashed_storage_of ops hs a of None \<Rightarrow> to_storage_default ops | Some st \<Rightarrow> st))"

definition psp_basic_account ::
    "('hs, 'hst, 'ti) trie_ops \<Rightarrow> ('hs, 'hst, 'ti, 'tu, 'pf) PendingStateProvider \<Rightarrow> address
      \<Rightarrow> string + Account option" where
  "psp_basic_account ops p a =
     (case bundle_account (psp_bundle p) a of
        Some account \<Rightarrow> Inr (map_option (to_account_from ops) (ba_info account))
      | None \<Rightarrow> sp_basic_account (psp_anchor p) a)"

definition psp_bytecode_by_hash ::
    "('hs, 'hst, 'ti, 'tu, 'pf) PendingStateProvider \<Rightarrow> b256 \<Rightarrow> string + bytes option" where
  "psp_bytecode_by_hash p h =
     (case bs_contracts (psp_bundle p) h of
        Some code \<Rightarrow> Inr (Some code)
      | None \<Rightarrow> sp_bytecode_by_hash (psp_anchor p) h)"

definition psp_storage ::
    "('hs, 'hst, 'ti, 'tu, 'pf) PendingStateProvider \<Rightarrow> address \<Rightarrow> u256 \<Rightarrow> string + u256 option" where
  "psp_storage p a key =
     (case bundle_account (psp_bundle p) a of
        Some account \<Rightarrow>
          (case ba_storage account key of
             Some slot \<Rightarrow> Inr (Some (ss_present_value slot))
           | None \<Rightarrow>
               if ba_was_destroyed account then Inr (Some 0) else sp_storage (psp_anchor p) a key)
      | None \<Rightarrow> sp_storage (psp_anchor p) a key)"

definition on_extended_state ::
    "('hs, 'hst, 'ti) trie_ops \<Rightarrow> ('hs, 'hst, 'ti, 'tu, 'pf) PendingStateProvider
      \<Rightarrow> ('hs \<Rightarrow> string + 'a) \<Rightarrow> 'hs \<Rightarrow> string + 'a" where
  "on_extended_state ops p f hashed =
     res_bind (hashed_bundle p) (\<lambda>hs. f (to_hashed_extend ops hs hashed))"

text \<open>The trait implementations together: the provider as a state provider again.\<close>

definition pending_state_provider ::
    "('hs, 'hst, 'ti) trie_ops \<Rightarrow> ('hs, 'hst, 'ti, 'tu, 'pf) PendingStateProvider
      \<Rightarrow> ('hs, 'hst, 'ti, 'tu, 'pf) state_provider" where
  "pending_state_provider ops p =
     (let anchor = psp_anchor p
      in \<lparr>sp_basic_account = psp_basic_account ops p,
          sp_block_hash = sp_block_hash anchor,
          sp_canonical_hashes_range = sp_canonical_hashes_range anchor,
          sp_bytecode_by_hash = psp_bytecode_by_hash p,
          sp_storage = psp_storage p,
          sp_hashed_post_state = sp_hashed_post_state anchor,
          sp_state_root = on_extended_state ops p (sp_state_root anchor),
          sp_state_root_from_nodes =
            (\<lambda>input. res_bind (hashed_bundle p) (\<lambda>hs.
               sp_state_root_from_nodes anchor (to_input_prepend ops hs input))),
          sp_state_root_with_updates = on_extended_state ops p (sp_state_root_with_updates anchor),
          sp_state_root_from_nodes_with_updates =
            (\<lambda>input. res_bind (hashed_bundle p) (\<lambda>hs.
               sp_state_root_from_nodes_with_updates anchor (to_input_prepend ops hs input))),
          sp_storage_root =
            (\<lambda>a hst. res_bind (hashed_bundle_storage ops p a) (\<lambda>st.
               sp_storage_root anchor a (to_storage_extend ops st hst))),
          sp_storage_proof =
            (\<lambda>a slot hst. res_bind (hashed_bundle_storage ops p a) (\<lambda>st.
               sp_storage_proof anchor a slot (to_storage_extend ops st hst))),
          sp_storage_multiproof =
            (\<lambda>a slots hst. res_bind (hashed_bundle_storage ops p a) (\<lambda>st.
               sp_storage_multiproof anchor a slots (to_storage_extend ops st hst))),
          sp_proof =
            (\<lambda>input a slots. res_bind (hashed_bundle p) (\<lambda>hs.
               sp_proof anchor (to_input_prepend ops hs input) a slots)),
          sp_multiproof =
            (\<lambda>input targets. res_bind (hashed_bundle p) (\<lambda>hs.
               sp_multiproof anchor (to_input_prepend ops hs input) targets)),
          sp_multiproof_v2 = (\<lambda>_ _. Inl ''UnsupportedProvider''),
          sp_witness =
            (\<lambda>input target mode. res_bind (hashed_bundle p) (\<lambda>hs.
               sp_witness anchor (to_input_prepend ops hs input) target mode))\<rparr>)"

section \<open>The overlay and its source\<close>

record PendingOverlay =
  po_anchor :: SealedHeader
  po_latest_header :: SealedHeader
  po_bundle :: BundleState

definition from_bundle :: "SealedHeader \<Rightarrow> SealedHeader \<Rightarrow> BundleState \<Rightarrow> PendingOverlay" where
  "from_bundle anchor latest bundle =
     \<lparr>po_anchor = anchor, po_latest_header = \<lparr>sh_header = sh_header latest, sh_hash = sh_hash latest\<rparr>,
      po_bundle = bundle\<rparr>"

text \<open>\<open>FlashblocksPendingState\<close>: the overlay built for a snapshot, keyed on its identity.\<close>

type_synonym 'st overlay_cache = "('st PendingBlocks arc \<times> PendingOverlay) option"

definition pending_overlay ::
    "'st PendingBlocks arc option \<Rightarrow> 'st overlay_cache \<Rightarrow> PendingOverlay option \<times> 'st overlay_cache" where
  "pending_overlay guard cached =
     (case guard of
        None \<Rightarrow> (None, None)
      | Some pending \<Rightarrow>
          (case pb_anchor (arc_val pending) of
             None \<Rightarrow> (None, None)
           | Some anchor \<Rightarrow>
               (case cached of
                  Some (snapshot, overlay) \<Rightarrow>
                    if ptr_eq snapshot pending then (Some overlay, cached)
                    else
                      (let overlay' = from_bundle anchor (pb_latest_header (arc_val pending))
                                        (pb_bundle_state (arc_val pending))
                       in (Some overlay', Some (pending, overlay')))
                | None \<Rightarrow>
                    (let overlay' = from_bundle anchor (pb_latest_header (arc_val pending))
                                      (pb_bundle_state (arc_val pending))
                     in (Some overlay', Some (pending, overlay'))))))"

section \<open>What pending resolves to\<close>

text \<open>
  The provider's answers a request meets, and the wrapped \<open>eth\<close> API of reth: the environment
  of a header \<open>'env\<close> and a block with receipts \<open>'blk\<close>.
\<close>

record ('hs, 'hst, 'ti, 'tu, 'pf, 'env, 'blk) node_provider =
  np_pending_block_num_hash :: "string + (u64 \<times> b256) option"
  np_block_number :: "b256 \<Rightarrow> string + u64 option"
  np_state_by_block_hash :: "b256 \<Rightarrow> string + ('hs, 'hst, 'ti, 'tu, 'pf) state_provider"
  np_pending_block_and_receipts :: "string + 'blk option"
  np_latest_header :: "string + SealedHeader option"
  np_cached_block_and_receipts :: "b256 \<Rightarrow> string + 'blk option"
  np_evm_env_for_header :: "SealedHeader \<Rightarrow> string + 'env"
  np_evm_env_at :: "BlockId \<Rightarrow> string + 'env \<times> BlockId"

definition engine_newer :: "string + (u64 \<times> b256) option \<Rightarrow> u64 \<Rightarrow> bool" where
  "engine_newer answer latest =
     (case answer of Inr (Some (number, _)) \<Rightarrow> number \<ge> latest | _ \<Rightarrow> False)"

definition served_overlay ::
    "('hs, 'hst, 'ti, 'tu, 'pf, 'env, 'blk) node_provider \<Rightarrow> PendingOverlay option
      \<Rightarrow> string + PendingOverlay option" where
  "served_overlay np source =
     (case source of
        None \<Rightarrow> Inr None
      | Some overlay \<Rightarrow>
          if engine_newer (np_pending_block_num_hash np) (sh_number (po_latest_header overlay))
          then Inr None
          else
            res_bind (np_block_number np (sh_hash (po_anchor overlay))) (\<lambda>n.
              case n of None \<Rightarrow> Inr None | Some _ \<Rightarrow> Inr (Some overlay)))"

definition is_pending :: "BlockId \<Rightarrow> bool" where
  "is_pending at \<longleftrightarrow> at = IdNumber PendingTag"

definition evm_env_at ::
    "('hs, 'hst, 'ti, 'tu, 'pf, 'env, 'blk) node_provider \<Rightarrow> PendingOverlay option \<Rightarrow> BlockId
      \<Rightarrow> string + 'env \<times> BlockId" where
  "evm_env_at np source at =
     (if is_pending at then
        res_bind (served_overlay np source) (\<lambda>o'.
          case o' of
            Some overlay \<Rightarrow>
              res_bind (np_evm_env_for_header np (po_latest_header overlay)) (\<lambda>env.
                Inr (env, IdNumber PendingTag))
          | None \<Rightarrow> np_evm_env_at np at)
      else np_evm_env_at np at)"

definition local_pending_state ::
    "('hs, 'hst, 'ti) trie_ops \<Rightarrow> ('hs, 'hst, 'ti, 'tu, 'pf, 'env, 'blk) node_provider
      \<Rightarrow> PendingOverlay option \<Rightarrow> string + ('hs, 'hst, 'ti, 'tu, 'pf) state_provider option" where
  "local_pending_state ops np source =
     res_bind (served_overlay np source) (\<lambda>o'.
       case o' of
         None \<Rightarrow> Inr None
       | Some overlay \<Rightarrow>
           res_bind (np_state_by_block_hash np (sh_hash (po_anchor overlay))) (\<lambda>anchor.
             Inr (Some (pending_state_provider ops \<lparr>psp_anchor = anchor, psp_bundle = po_bundle overlay\<rparr>))))"

definition local_pending_block ::
    "('hs, 'hst, 'ti, 'tu, 'pf, 'env, 'blk) node_provider \<Rightarrow> string + 'blk option" where
  "local_pending_block np =
     res_bind (np_pending_block_and_receipts np) (\<lambda>p.
       case p of
         Some b \<Rightarrow> Inr (Some b)
       | None \<Rightarrow>
           res_bind (np_latest_header np) (\<lambda>l.
             case l of
               None \<Rightarrow> Inl ''HeaderNotFound''
             | Some latest \<Rightarrow> np_cached_block_and_receipts np (sh_hash latest)))"

text \<open>\<open>EthgasEthApiBuilder\<close>: reth's default timeout is 30 seconds.\<close>

record eth_api_builder =
  eb_pending_state :: bool
  eb_send_raw_transaction_sync_timeout :: "duration option"

definition eth_api_builder_new :: "bool \<Rightarrow> eth_api_builder" where
  "eth_api_builder_new pending_state =
     \<lparr>eb_pending_state = pending_state, eb_send_raw_transaction_sync_timeout = None\<rparr>"

definition with_send_raw_transaction_sync_timeout :: "duration \<Rightarrow> eth_api_builder \<Rightarrow> eth_api_builder" where
  "with_send_raw_transaction_sync_timeout d b = b\<lparr>eb_send_raw_transaction_sync_timeout := Some d\<rparr>"

definition build_eth_api :: "duration \<Rightarrow> eth_api_builder \<Rightarrow> bool \<times> duration" where
  "build_eth_api reth_default b =
     (eb_pending_state b,
      case eb_send_raw_transaction_sync_timeout b of None \<Rightarrow> reth_default | Some d \<Rightarrow> d)"

section \<open>Reading in place and reading a copy\<close>

text \<open>
  The reference: a copy of the anchor's state into which every account and contract of the
  bundle is written, one after the other.
\<close>

definition write_account ::
    "('hs, 'hst, 'ti) trie_ops \<Rightarrow> address \<times> BundleAccount
      \<Rightarrow> ('hs, 'hst, 'ti, 'tu, 'pf) state_provider \<Rightarrow> ('hs, 'hst, 'ti, 'tu, 'pf) state_provider" where
  "write_account ops entry sp =
     (case entry of (a, account) \<Rightarrow>
        sp\<lparr>sp_basic_account :=
             (sp_basic_account sp)(a := Inr (map_option (to_account_from ops) (ba_info account))),
           sp_storage :=
             (sp_storage sp)(a := (\<lambda>key.
                case ba_storage account key of
                  Some slot \<Rightarrow> Inr (Some (ss_present_value slot))
                | None \<Rightarrow> if ba_was_destroyed account then Inr (Some 0) else sp_storage sp a key))\<rparr>)"

definition copied_state ::
    "('hs, 'hst, 'ti) trie_ops \<Rightarrow> BundleState
      \<Rightarrow> ('hs, 'hst, 'ti, 'tu, 'pf) state_provider \<Rightarrow> ('hs, 'hst, 'ti, 'tu, 'pf) state_provider" where
  "copied_state ops bundle sp =
     (let sp' = fold (write_account ops) (bs_state bundle) sp
      in sp'\<lparr>sp_bytecode_by_hash :=
           (\<lambda>h. case bs_contracts bundle h of Some code \<Rightarrow> Inr (Some code) | None \<Rightarrow> sp_bytecode_by_hash sp' h)\<rparr>)"

lemma write_account_reads [simp]:
  "sp_basic_account (write_account ops (b, account) sp) a =
     (if a = b then Inr (map_option (to_account_from ops) (ba_info account)) else sp_basic_account sp a)"
  "sp_storage (write_account ops (b, account) sp) a key =
     (if a = b then
        (case ba_storage account key of
           Some slot \<Rightarrow> Inr (Some (ss_present_value slot))
         | None \<Rightarrow> if ba_was_destroyed account then Inr (Some 0) else sp_storage sp a key)
      else sp_storage sp a key)"
  "sp_bytecode_by_hash (write_account ops (b, account) sp) = sp_bytecode_by_hash sp"
  by (auto simp: write_account_def split: option.split)

lemma fold_write_account:
  assumes "distinct (map fst entries)"
  shows "sp_basic_account (fold (write_account ops) entries sp) a =
      (case map_of entries a of
         None \<Rightarrow> sp_basic_account sp a
       | Some account \<Rightarrow> Inr (map_option (to_account_from ops) (ba_info account)))
    \<and> sp_storage (fold (write_account ops) entries sp) a key =
      (case map_of entries a of
         None \<Rightarrow> sp_storage sp a key
       | Some account \<Rightarrow>
           (case ba_storage account key of
              Some slot \<Rightarrow> Inr (Some (ss_present_value slot))
            | None \<Rightarrow> if ba_was_destroyed account then Inr (Some 0) else sp_storage sp a key))
    \<and> sp_bytecode_by_hash (fold (write_account ops) entries sp) = sp_bytecode_by_hash sp"
  using assms
proof (induction entries arbitrary: sp)
  case (Cons entry entries)
  obtain b account where e: "entry = (b, account)" by (cases entry)
  have fresh: "b \<notin> fst ` set entries" using Cons.prems e by simp
  then have "map_of entries b = None" by (simp add: map_of_eq_None_iff)
  with Cons.IH [of "write_account ops (b, account) sp"] Cons.prems show ?case
    by (cases "a = b"; cases "map_of entries a") (auto simp: e split: option.split)
qed simp

text \<open>
  C25. Reading the bundle in place answers as a copy of the anchor's state with the bundle
  written into it: accounts, storage and code of the pending state are the same, and so
  are the anchor's errors on what the bundle does not hold.
\<close>

theorem overlay_reads_copy:
  assumes "distinct (map fst (bs_state bundle))"
  shows "let p = pending_state_provider ops \<lparr>psp_anchor = anchor, psp_bundle = bundle\<rparr>;
             c = copied_state ops bundle anchor
         in sp_basic_account p a = sp_basic_account c a \<and> sp_storage p a key = sp_storage c a key
            \<and> sp_bytecode_by_hash p h = sp_bytecode_by_hash c h"
  using fold_write_account [OF assms, of ops anchor a key]
  by (simp add: Let_def pending_state_provider_def copied_state_def psp_basic_account_def
      psp_storage_def psp_bytecode_by_hash_def bundle_account_def split: option.split)

definition example_ops :: "(unit, unit, unit) trie_ops" where
  "example_ops = \<lparr>to_account_from = (\<lambda>i. \<lparr>acc_nonce = ai_nonce i, acc_balance = ai_balance i,
       acc_bytecode_hash = None\<rparr>),
     to_hashed_extend = (\<lambda>_ _. ()), to_hashed_storage_of = (\<lambda>_ _. None), to_storage_default = (),
     to_storage_extend = (\<lambda>_ _. ()), to_input_prepend = (\<lambda>_ _. ())\<rparr>"

definition empty_anchor :: "(unit, unit, unit, unit, unit) state_provider" where
  "empty_anchor = \<lparr>sp_basic_account = (\<lambda>_. Inr None), sp_block_hash = (\<lambda>_. Inr None),
     sp_canonical_hashes_range = (\<lambda>_ _. Inr []), sp_bytecode_by_hash = (\<lambda>_. Inr None),
     sp_storage = (\<lambda>_ _. Inr None), sp_hashed_post_state = (\<lambda>_. Inr ()),
     sp_state_root = (\<lambda>_. Inr 0), sp_state_root_from_nodes = (\<lambda>_. Inr 0),
     sp_state_root_with_updates = (\<lambda>_. Inr (0, ())),
     sp_state_root_from_nodes_with_updates = (\<lambda>_. Inr (0, ())),
     sp_storage_root = (\<lambda>_ _. Inr 0), sp_storage_proof = (\<lambda>_ _ _. Inr ()),
     sp_storage_multiproof = (\<lambda>_ _ _. Inr ()), sp_proof = (\<lambda>_ _ _. Inr ()),
     sp_multiproof = (\<lambda>_ _. Inr ()), sp_multiproof_v2 = (\<lambda>_ _. Inr ()),
     sp_witness = (\<lambda>_ _ _. Inr [])\<rparr>"

definition example_overlay_bundle :: BundleState where
  "example_overlay_bundle = \<lparr>bs_state = [(9, \<lparr>ba_info = None, ba_original_info = None,
     ba_storage = [1 \<mapsto> \<lparr>ss_previous_value = 0, ss_present_value = 5\<rparr>], ba_was_destroyed = True\<rparr>)],
     bs_contracts = Map.empty\<rparr>"

theorem overlay_reads_copy_witness:
  "sp_storage (copied_state example_ops example_overlay_bundle empty_anchor) 9 1 = Inr (Some 5)
   \<and> sp_storage (copied_state example_ops example_overlay_bundle empty_anchor) 9 2 = Inr (Some 0)"
proof -
  have dist: "distinct (map fst (bs_state example_overlay_bundle))"
    by (simp add: example_overlay_bundle_def)
  show ?thesis
    using overlay_reads_copy [OF dist, of example_ops empty_anchor 9 1 0]
      overlay_reads_copy [OF dist, of example_ops empty_anchor 9 2 0]
    by (simp add: Let_def pending_state_provider_def psp_storage_def bundle_account_def
        example_overlay_bundle_def)
qed

section \<open>The cache of overlays\<close>

text \<open>The overlay of a snapshot, built afresh.\<close>

definition overlay_of :: "'st PendingBlocks \<Rightarrow> PendingOverlay option" where
  "overlay_of pb = map_option (\<lambda>anchor. from_bundle anchor (pb_latest_header pb) (pb_bundle_state pb)) (pb_anchor pb)"

fun overlay_answers ::
    "'st overlay_cache \<Rightarrow> 'st PendingBlocks arc option list \<Rightarrow> PendingOverlay option list" where
  "overlay_answers cached [] = []"
| "overlay_answers cached (g # gs) =
     (case pending_overlay g cached of (r, cached') \<Rightarrow> r # overlay_answers cached' gs)"

definition cache_faithful :: "'st overlay_cache \<Rightarrow> bool" where
  "cache_faithful cached \<longleftrightarrow>
     (\<forall>snapshot overlay. cached = Some (snapshot, overlay) \<longrightarrow> overlay_of (arc_val snapshot) = Some overlay)"

lemma pending_overlay_faithful:
  assumes "cache_faithful cached" and "arcs_coherent ((fst ` set_option cached) \<union> set_option g)"
    and "pending_overlay g cached = (r, cached')"
  shows "r = Option.bind g (\<lambda>a. overlay_of (arc_val a)) \<and> cache_faithful cached'
    \<and> fst ` set_option cached' \<subseteq> (fst ` set_option cached) \<union> set_option g"
proof (cases g)
  case None
  then show ?thesis using assms(3) by (auto simp: pending_overlay_def cache_faithful_def)
next
  case (Some pending)
  show ?thesis
  proof (cases "pb_anchor (arc_val pending)")
    case None
    then show ?thesis using assms(3) Some
      by (auto simp: pending_overlay_def cache_faithful_def overlay_of_def)
  next
    case anchor: (Some anchor)
    show ?thesis
    proof (cases cached)
      case None
      then show ?thesis using assms(3) Some anchor
        by (auto simp: pending_overlay_def cache_faithful_def overlay_of_def Let_def)
    next
      case c: (Some entry)
      obtain snapshot overlay where e: "entry = (snapshot, overlay)" by (cases entry)
      show ?thesis
      proof (cases "ptr_eq snapshot pending")
        case True
        then have "arc_val snapshot = arc_val pending"
          using assms(2) c e Some by (simp add: arcs_coherent_def)
        with True show ?thesis using assms(1,3) c e Some anchor
          by (auto simp: pending_overlay_def cache_faithful_def)
      next
        case False
        then show ?thesis using assms(3) Some anchor c e
          by (auto simp: pending_overlay_def cache_faithful_def overlay_of_def Let_def)
      qed
    qed
  qed
qed

lemma overlay_answers_fresh:
  assumes "cache_faithful cached"
    and "arcs_coherent ((fst ` set_option cached) \<union> (\<Union>g \<in> set gs. set_option g))"
  shows "overlay_answers cached gs = map (\<lambda>g. Option.bind g (\<lambda>a. overlay_of (arc_val a))) gs"
  using assms
proof (induction gs arbitrary: cached)
  case (Cons g gs)
  obtain r cached' where step: "pending_overlay g cached = (r, cached')" by fastforce
  have "arcs_coherent ((fst ` set_option cached) \<union> set_option g)"
    using Cons.prems(2) by (rule arcs_coherent_mono) auto
  note now = pending_overlay_faithful [OF Cons.prems(1) this step]
  have "arcs_coherent ((fst ` set_option cached') \<union> (\<Union>g \<in> set gs. set_option g))"
    using Cons.prems(2) by (rule arcs_coherent_mono) (use now in auto)
  with now step Cons.IH [of cached'] show ?case by simp
qed simp

text \<open>
  The cache of overlays does not show: however the published snapshot changes between the
  requests, every request gets the overlay of the snapshot it reads, and none when there
  is no snapshot or the snapshot has no anchor.
\<close>

theorem overlay_cache_transparent:
  assumes "arcs_coherent (\<Union>g \<in> set gs. set_option g)"
  shows "overlay_answers None gs = map (\<lambda>g. Option.bind g (\<lambda>a. overlay_of (arc_val a))) gs"
  using assms by (intro overlay_answers_fresh) (simp_all add: cache_faithful_def)

theorem overlay_cache_transparent_witness:
  "let a = \<lparr>arc_id = 0, arc_val = example_snapshot [example_flashblock 0 1] [11]\<rparr>;
       b = \<lparr>arc_id = 1, arc_val = example_snapshot [example_flashblock 0 1, example_flashblock 1 2] [11, 12, 13]\<rparr>
   in overlay_answers None [Some a, Some a, Some b, None] =
        [overlay_of (arc_val a), overlay_of (arc_val a), overlay_of (arc_val b), None]"
  unfolding Let_def
  by (subst overlay_cache_transparent) (simp_all add: arcs_coherent_def ptr_eq_def)

end
