(* ===== verification/Wiring.thy ===== *)
theory Wiring
  imports Tasks Overlay
begin

text \<open>
  How the node is put together: the flags (\<open>bin/node/src/cli.rs\<close>, \<open>main.rs\<close>), the hooks
  extensions install (\<open>runner/src/builder.rs\<close>), the runner (\<open>runner/src/runner.rs\<close>) and the
  two extensions (\<open>flashblocks-node/src/extension.rs\<close>, \<open>simulator/src/extension.rs\<close>). reth's
  module registry is the record of its operations, with its documented behaviour as the
  predicate \<open>registry_ok\<close>; what reaches reth's builder is the list of calls made on it.
\<close>

section \<open>Flags and configurations\<close>

record Args =
  flashblocks_url :: "string option"
  args_max_pending_blocks_depth :: u64
  flashblocks_ping_interval :: duration
  flashblocks_fee_max_age :: duration
  flashblocks_fee_ceiling :: u64
  enable_simulator :: bool
  simulator_blacklist_provider :: string

definition WEI_PER_GWEI :: u64 where
  "WEI_PER_GWEI = 1000000000"

definition parse_positive_duration :: "(string \<Rightarrow> string + duration) \<Rightarrow> string \<Rightarrow> string + duration" where
  "parse_positive_duration parse_duration value =
     res_bind (parse_duration value) (\<lambda>d.
       if d = 0 then Inl ''the duration must be positive'' else Inr d)"

text \<open>The outer \<open>None\<close> is a panic of one of the setters.\<close>

definition flashblocks_config :: "Args \<Rightarrow> FlashblocksConfig option option" where
  "flashblocks_config args =
     (case flashblocks_url args of
        None \<Rightarrow> Some None
      | Some url \<Rightarrow>
          (case with_subscriber_ping_interval (config_new url (args_max_pending_blocks_depth args))
                  (flashblocks_ping_interval args) of
             None \<Rightarrow> None
           | Some c \<Rightarrow>
               (case with_inclusion_fee_max_age c (flashblocks_fee_max_age args) of
                  None \<Rightarrow> None
                | Some c' \<Rightarrow>
                    Some (Some (with_inclusion_fee_ceiling c'
                      (ucast (flashblocks_fee_ceiling args) * ucast WEI_PER_GWEI))))))"

definition simulator_config :: "Args \<Rightarrow> string option" where
  "simulator_config args =
     (if enable_simulator args then Some (simulator_blacklist_provider args) else None)"

section \<open>Hooks\<close>

type_synonym 'c hook = "'c \<Rightarrow> string + 'c"

record ('c, 'n, 'x) NodeHooks =
  rpc_hooks :: "'c hook list"
  node_started_hooks :: "'n hook list"
  exex_hooks :: "(string \<times> 'x) list"

definition hooks_new :: "('c, 'n, 'x) NodeHooks" where
  "hooks_new = \<lparr>rpc_hooks = [], node_started_hooks = [], exex_hooks = []\<rparr>"

definition add_rpc_module :: "'c hook \<Rightarrow> ('c, 'n, 'x) NodeHooks \<Rightarrow> ('c, 'n, 'x) NodeHooks" where
  "add_rpc_module h hs = hs\<lparr>rpc_hooks := rpc_hooks hs @ [h]\<rparr>"

definition add_node_started_hook :: "'n hook \<Rightarrow> ('c, 'n, 'x) NodeHooks \<Rightarrow> ('c, 'n, 'x) NodeHooks" where
  "add_node_started_hook h hs = hs\<lparr>node_started_hooks := node_started_hooks hs @ [h]\<rparr>"

definition install_exex :: "string \<Rightarrow> 'x \<Rightarrow> ('c, 'n, 'x) NodeHooks \<Rightarrow> ('c, 'n, 'x) NodeHooks" where
  "install_exex ident f hs = hs\<lparr>exex_hooks := exex_hooks hs @ [(ident, f)]\<rparr>"

text \<open>The loop \<open>for hook in hooks\<close> with \<open>?\<close>: the first error ends it.\<close>

fun run_hooks :: "'c hook list \<Rightarrow> 'c hook" where
  "run_hooks [] c = Inr c"
| "run_hooks (h # hs) c = res_bind (h c) (run_hooks hs)"

datatype ('c, 'n, 'x) builder_call =
    InstallExex string 'x
  | ExtendRpcModules "'c hook"
  | OnNodeStarted "'n hook"

definition apply_to :: "('c, 'n, 'x) NodeHooks \<Rightarrow> ('c, 'n, 'x) builder_call list" where
  "apply_to hs =
     map (\<lambda>(ident, f). InstallExex ident f) (exex_hooks hs)
     @ (if rpc_hooks hs = [] then [] else [ExtendRpcModules (run_hooks (rpc_hooks hs))])
     @ (if node_started_hooks hs = [] then [] else [OnNodeStarted (run_hooks (node_started_hooks hs))])"

section \<open>The module registry\<close>

datatype transport = Http | Ws | Ipc

text \<open>
  The object that answers a method. Each call of \<open>EthPubSub::new\<close> makes an instance with
  connection slots of its own, told apart by the transport it is made for.
\<close>

datatype server =
    RethServer
  | EthApiExt
  | EthgasApiExt duration u256
  | EthPubSub transport
  | ValidationApi string
  | InclusionExt

type_synonym methods = "(string \<times> server) list"

record ('m, 'a) registry =
  rg_replace_configured :: "methods \<Rightarrow> 'm \<Rightarrow> string + 'm"
  rg_merge_configured :: "methods \<Rightarrow> 'm \<Rightarrow> string + 'm"
  rg_replace_transport :: "transport \<Rightarrow> methods \<Rightarrow> 'm \<Rightarrow> string + 'm"
  rg_remove_method_from_configured :: "string \<Rightarrow> 'm \<Rightarrow> 'm"
  rg_remove_auth_methods :: "string list \<Rightarrow> 'a \<Rightarrow> 'a"

datatype spawned = RefreshDisallowList string | InclusionProducer

record ('m, 'a) rpc_context =
  ctx_modules :: 'm
  ctx_auth_module :: 'a
  ctx_spawned :: "spawned list"

definition ETH_OVERRIDES :: "string list" where
  "ETH_OVERRIDES = [''eth_getBlockByNumber'', ''eth_getTransactionReceipt'', ''eth_getBalance'',
     ''eth_getTransactionCount'', ''eth_getTransactionByHash'', ''eth_sendRawTransactionSync'',
     ''eth_call'', ''eth_estimateGas'', ''eth_simulateV1'', ''eth_getLogs'',
     ''eth_getBlockTransactionCountByNumber'', ''eth_getBlockReceipts'',
     ''eth_getTransactionByBlockNumberAndIndex'']"

definition FEE_OVERRIDES :: "string list" where
  "FEE_OVERRIDES = [''eth_maxPriorityFeePerGas'', ''eth_gasPrice'', ''eth_fillTransaction'']"

definition ETHGAS_METHODS :: "string list" where
  "ETHGAS_METHODS = [''ethgas_inclusionPriorityFee'']"

definition PUBSUB_METHODS :: "string list" where
  "PUBSUB_METHODS = [''eth_subscribe'', ''eth_unsubscribe'']"

definition VALIDATION_METHODS :: "string list" where
  "VALIDATION_METHODS = [''relay_validateBuilderSubmissionV1'', ''relay_validateBuilderSubmissionV2'',
     ''relay_validateBuilderSubmissionV3'', ''relay_validateBuilderSubmissionV4'',
     ''relay_validateBuilderSubmissionV5'', ''relay_validateMergedBuilderSubmissionV5'',
     ''relay_validateBuilderSubmissionV6'', ''relay_validateMergedBuilderSubmissionV6'']"

definition INCLUSION_METHODS :: "string list" where
  "INCLUSION_METHODS =
     [''relay_inclusionList'', ''relay_subscribeInclusionList'', ''relay_unsubscribeInclusionList'']"

definition PROOF_METHODS :: "string list" where
  "PROOF_METHODS = [''eth_getProof'', ''eth_getMultiProof'', ''eth_getAccount'']"

definition into_rpc :: "string list \<Rightarrow> server \<Rightarrow> methods" where
  "into_rpc names s = map (\<lambda>x. (x, s)) names"

definition with_modules ::
    "('m \<Rightarrow> string + 'm) \<Rightarrow> ('m, 'a) rpc_context hook" where
  "with_modules f ctx = res_bind (f (ctx_modules ctx)) (\<lambda>m. Inr (ctx\<lparr>ctx_modules := m\<rparr>))"

section \<open>The extensions\<close>

definition flashblocks_rpc :: "('m, 'a) registry \<Rightarrow> FlashblocksConfig \<Rightarrow> ('m, 'a) rpc_context hook" where
  "flashblocks_rpc rg cfg =
     (let ethgas_api = EthgasApiExt (inclusion_fee_max_age cfg) (inclusion_fee_ceiling cfg) in
      run_hooks
        [with_modules (rg_replace_configured rg (into_rpc ETH_OVERRIDES EthApiExt)),
         with_modules (rg_replace_configured rg (into_rpc FEE_OVERRIDES ethgas_api)),
         with_modules (rg_merge_configured rg (into_rpc ETHGAS_METHODS ethgas_api)),
         with_modules (rg_replace_transport rg Http (into_rpc PUBSUB_METHODS (EthPubSub Http))),
         with_modules (rg_replace_transport rg Ws (into_rpc PUBSUB_METHODS (EthPubSub Ws))),
         with_modules (rg_replace_transport rg Ipc (into_rpc PUBSUB_METHODS (EthPubSub Ipc)))])"

text \<open>What a node-started hook starts, in order.\<close>

datatype started = StateProcessorTask u64 | SubscriberTask string duration | CanonicalTask | VersionMetrics

definition flashblocks_started :: "FlashblocksConfig \<Rightarrow> started list hook" where
  "flashblocks_started cfg w =
     Inr (w @ [StateProcessorTask (max_pending_blocks_depth cfg),
               SubscriberTask (websocket_url cfg) (subscriber_ping_interval cfg), CanonicalTask])"

definition simulator_rpc :: "('m, 'a) registry \<Rightarrow> string \<Rightarrow> ('m, 'a) rpc_context hook" where
  "simulator_rpc rg url =
     run_hooks
       [(\<lambda>ctx. Inr (ctx\<lparr>ctx_spawned := ctx_spawned ctx @ [RefreshDisallowList url]\<rparr>)),
        with_modules (rg_merge_configured rg (into_rpc VALIDATION_METHODS (ValidationApi url))),
        (\<lambda>ctx. Inr (ctx\<lparr>ctx_spawned := ctx_spawned ctx @ [InclusionProducer]\<rparr>)),
        with_modules (rg_merge_configured rg (into_rpc INCLUSION_METHODS InclusionExt))]"

datatype extension = FlashblocksExtension "FlashblocksConfig option" | SimulatorExtension "string option"

definition ext_apply ::
    "('m, 'a) registry \<Rightarrow> extension \<Rightarrow> (('m, 'a) rpc_context, started list, 'x) NodeHooks
      \<Rightarrow> (('m, 'a) rpc_context, started list, 'x) NodeHooks" where
  "ext_apply rg ext hooks =
     (case ext of
        FlashblocksExtension None \<Rightarrow> hooks
      | FlashblocksExtension (Some cfg) \<Rightarrow>
          add_rpc_module (flashblocks_rpc rg cfg) (add_node_started_hook (flashblocks_started cfg) hooks)
      | SimulatorExtension None \<Rightarrow> hooks
      | SimulatorExtension (Some url) \<Rightarrow> add_rpc_module (simulator_rpc rg url) hooks)"

section \<open>The runner\<close>

record EthgasNodeRunner =
  extensions :: "extension list"
  pending_state :: bool

definition runner_new :: EthgasNodeRunner where
  "runner_new = \<lparr>extensions = [], pending_state = False\<rparr>"

definition set_pending_state :: "bool \<Rightarrow> EthgasNodeRunner \<Rightarrow> EthgasNodeRunner" where
  "set_pending_state p r = r\<lparr>pending_state := p\<rparr>"

definition install_ext :: "extension \<Rightarrow> EthgasNodeRunner \<Rightarrow> EthgasNodeRunner" where
  "install_ext e r = r\<lparr>extensions := extensions r @ [e]\<rparr>"

definition remove_proof_methods :: "('m, 'a) registry \<Rightarrow> ('m, 'a) rpc_context hook" where
  "remove_proof_methods rg ctx =
     Inr (ctx\<lparr>ctx_modules := fold (rg_remove_method_from_configured rg) PROOF_METHODS (ctx_modules ctx),
              ctx_auth_module := rg_remove_auth_methods rg PROOF_METHODS (ctx_auth_module ctx)\<rparr>)"

definition launch_node ::
    "('m, 'a) registry \<Rightarrow> EthgasNodeRunner \<Rightarrow> duration
      \<Rightarrow> eth_api_builder \<times> (('m, 'a) rpc_context, started list, 'x) builder_call list" where
  "launch_node rg r timeout =
     (with_send_raw_transaction_sync_timeout timeout (eth_api_builder_new (pending_state r)),
      apply_to
        (add_node_started_hook (\<lambda>w. Inr (w @ [VersionMetrics]))
          (add_rpc_module (remove_proof_methods rg)
            (fold (ext_apply rg) (extensions r) hooks_new))))"

text \<open>\<open>main\<close>, up to the launch; \<open>None\<close> when building a configuration panics.\<close>

definition node_main ::
    "('m, 'a) registry \<Rightarrow> Args \<Rightarrow> duration
      \<Rightarrow> (eth_api_builder \<times> (('m, 'a) rpc_context, started list, 'x) builder_call list) option" where
  "node_main rg args timeout =
     (case flashblocks_config args of
        None \<Rightarrow> None
      | Some cfg \<Rightarrow>
          (let r1 = install_ext (FlashblocksExtension cfg) runner_new;
               r2 = set_pending_state (cfg \<noteq> None) r1;
               r3 = install_ext (SimulatorExtension (simulator_config args)) r2
           in Some (launch_node rg r3 timeout)))"

section \<open>The canonical task\<close>

text \<open>What the broadcast stream of canonical notifications yields: committed blocks, or a lag.\<close>

datatype canonical_item = Committed "RecoveredBlock list" | LaggedBy nat

fun canonical_task :: "canonical_item list \<Rightarrow> 'st FlashblocksState \<Rightarrow> 'st FlashblocksState" where
  "canonical_task [] fs = fs"
| "canonical_task (Committed blocks # rest) fs =
     canonical_task rest (fold on_canonical_block_received blocks fs)"
| "canonical_task (LaggedBy _ # rest) fs = canonical_task rest fs"

section \<open>What the node serves\<close>

text \<open>
  The documented behaviour of the registry. \<open>configured\<close> are a registry's transports,
  \<open>serves\<close> is who answers a method on one and \<open>auth_serves\<close> says whether the engine API
  answers it. Replacing never fails, merging fails only on a name that is served already.
\<close>

definition laid ::
    "transport set \<Rightarrow> methods \<Rightarrow> (transport \<Rightarrow> bool) \<Rightarrow> (transport \<Rightarrow> string \<Rightarrow> server option)
      \<Rightarrow> transport \<Rightarrow> string \<Rightarrow> server option" where
  "laid ts ms conf S t x =
     (if t \<in> ts \<and> conf t then (case map_of ms x of Some s \<Rightarrow> Some s | None \<Rightarrow> S t x) else S t x)"

definition registry_ok ::
    "('m, 'a) registry \<Rightarrow> ('m \<Rightarrow> transport \<Rightarrow> bool) \<Rightarrow> ('m \<Rightarrow> transport \<Rightarrow> string \<Rightarrow> server option)
      \<Rightarrow> ('a \<Rightarrow> string \<Rightarrow> bool) \<Rightarrow> bool" where
  "registry_ok rg configured serves auth_serves \<longleftrightarrow>
     (\<forall>ms m. \<exists>m'. rg_replace_configured rg ms m = Inr m' \<and> configured m' = configured m
        \<and> serves m' = laid UNIV ms (configured m) (serves m))
   \<and> (\<forall>ms m. (\<forall>t x. configured m t \<and> x \<in> fst ` set ms \<longrightarrow> serves m t x = None) \<longrightarrow>
        (\<exists>m'. rg_merge_configured rg ms m = Inr m' \<and> configured m' = configured m
          \<and> serves m' = laid UNIV ms (configured m) (serves m)))
   \<and> (\<forall>t ms m. \<exists>m'. rg_replace_transport rg t ms m = Inr m' \<and> configured m' = configured m
        \<and> serves m' = laid {t} ms (configured m) (serves m))
   \<and> (\<forall>x m. configured (rg_remove_method_from_configured rg x m) = configured m
        \<and> serves (rg_remove_method_from_configured rg x m) = (\<lambda>t. (serves m t)(x := None)))
   \<and> (\<forall>xs a y. auth_serves (rg_remove_auth_methods rg xs a) y \<longleftrightarrow> auth_serves a y \<and> y \<notin> set xs)"

lemma registry_replace:
  assumes "registry_ok rg configured serves auth_serves"
  obtains m' where "rg_replace_configured rg ms m = Inr m'" "configured m' = configured m"
    "serves m' = laid UNIV ms (configured m) (serves m)"
  using assms unfolding registry_ok_def by metis

lemma registry_merge:
  assumes "registry_ok rg configured serves auth_serves"
    and "\<And>t x. configured m t \<Longrightarrow> x \<in> fst ` set ms \<Longrightarrow> serves m t x = None"
  obtains m' where "rg_merge_configured rg ms m = Inr m'" "configured m' = configured m"
    "serves m' = laid UNIV ms (configured m) (serves m)"
proof -
  have "(\<forall>t x. configured m t \<and> x \<in> fst ` set ms \<longrightarrow> serves m t x = None) \<longrightarrow>
      (\<exists>m'. rg_merge_configured rg ms m = Inr m' \<and> configured m' = configured m
        \<and> serves m' = laid UNIV ms (configured m) (serves m))"
    using assms(1) unfolding registry_ok_def by blast
  moreover have "\<forall>t x. configured m t \<and> x \<in> fst ` set ms \<longrightarrow> serves m t x = None"
    using assms(2) by simp
  ultimately obtain m' where "rg_merge_configured rg ms m = Inr m'" "configured m' = configured m"
    "serves m' = laid UNIV ms (configured m) (serves m)" by (elim impE exE conjE) auto
  then show ?thesis by (rule that)
qed

lemma registry_replace_transport:
  assumes "registry_ok rg configured serves auth_serves"
  obtains m' where "rg_replace_transport rg t ms m = Inr m'" "configured m' = configured m"
    "serves m' = laid {t} ms (configured m) (serves m)"
  using assms unfolding registry_ok_def by metis

lemma registry_remove:
  assumes "registry_ok rg configured serves auth_serves"
  shows "configured (fold (rg_remove_method_from_configured rg) xs m) = configured m
    \<and> serves (fold (rg_remove_method_from_configured rg) xs m) t y =
        (if y \<in> set xs then None else serves m t y)"
proof (induction xs arbitrary: m)
  case (Cons x xs)
  have "configured (rg_remove_method_from_configured rg x m) = configured m"
    "serves (rg_remove_method_from_configured rg x m) = (\<lambda>t. (serves m t)(x := None))"
    using assms unfolding registry_ok_def by blast+
  then show ?case using Cons.IH [of "rg_remove_method_from_configured rg x m"] by auto
qed simp

text \<open>The tables of the two extensions, a later registration before an earlier one.\<close>

definition flashblocks_table :: "FlashblocksConfig \<Rightarrow> transport \<Rightarrow> methods" where
  "flashblocks_table cfg t =
     (let ethgas_api = EthgasApiExt (inclusion_fee_max_age cfg) (inclusion_fee_ceiling cfg) in
      into_rpc PUBSUB_METHODS (EthPubSub t) @ into_rpc ETHGAS_METHODS ethgas_api
      @ into_rpc FEE_OVERRIDES ethgas_api @ into_rpc ETH_OVERRIDES EthApiExt)"

definition simulator_table :: "string \<Rightarrow> methods" where
  "simulator_table url =
     into_rpc INCLUSION_METHODS InclusionExt @ into_rpc VALIDATION_METHODS (ValidationApi url)"

lemma map_of_into_rpc: "map_of (into_rpc names s) x = (if x \<in> set names then Some s else None)"
  by (induction names) (auto simp: into_rpc_def)

lemma fst_into_rpc: "fst ` set (into_rpc names s) = set names"
  by (auto simp: into_rpc_def image_iff)

lemmas method_names = ETH_OVERRIDES_def FEE_OVERRIDES_def ETHGAS_METHODS_def PUBSUB_METHODS_def
  VALIDATION_METHODS_def INCLUSION_METHODS_def

lemma names_apart:
  "x \<in> set ETHGAS_METHODS \<Longrightarrow> x \<notin> set ETH_OVERRIDES \<and> x \<notin> set FEE_OVERRIDES"
  "x \<in> set VALIDATION_METHODS \<union> set INCLUSION_METHODS \<Longrightarrow>
     x \<notin> set ETH_OVERRIDES \<and> x \<notin> set FEE_OVERRIDES \<and> x \<notin> set ETHGAS_METHODS \<and> x \<notin> set PUBSUB_METHODS"
  "x \<in> set INCLUSION_METHODS \<Longrightarrow> x \<notin> set VALIDATION_METHODS"
  by (auto simp: method_names)

lemma with_modules_ok: "f (ctx_modules ctx) = Inr m \<Longrightarrow> with_modules f ctx = Inr (ctx\<lparr>ctx_modules := m\<rparr>)"
  by (simp add: with_modules_def)

lemma flashblocks_rpc_serves:
  assumes "registry_ok rg configured serves auth_serves"
    and "\<And>t x. configured (ctx_modules ctx) t \<Longrightarrow> x \<in> set ETHGAS_METHODS \<Longrightarrow> serves (ctx_modules ctx) t x = None"
  obtains m' where "flashblocks_rpc rg cfg ctx = Inr (ctx\<lparr>ctx_modules := m'\<rparr>)"
    "configured m' = configured (ctx_modules ctx)"
    "\<And>t. serves m' t = laid {t} (flashblocks_table cfg t) (configured (ctx_modules ctx)) (serves (ctx_modules ctx)) t"
proof -
  let ?api = "EthgasApiExt (inclusion_fee_max_age cfg) (inclusion_fee_ceiling cfg)"
  let ?m = "ctx_modules ctx"
  obtain m1 where m1: "rg_replace_configured rg (into_rpc ETH_OVERRIDES EthApiExt) ?m = Inr m1"
    "configured m1 = configured ?m" "serves m1 = laid UNIV (into_rpc ETH_OVERRIDES EthApiExt) (configured ?m) (serves ?m)"
    by (rule registry_replace [OF assms(1)])
  obtain m2 where m2: "rg_replace_configured rg (into_rpc FEE_OVERRIDES ?api) m1 = Inr m2"
    "configured m2 = configured m1" "serves m2 = laid UNIV (into_rpc FEE_OVERRIDES ?api) (configured m1) (serves m1)"
    by (rule registry_replace [OF assms(1)])
  have "serves m2 t x = None" if "configured m2 t" "x \<in> fst ` set (into_rpc ETHGAS_METHODS ?api)" for t x
    using that assms(2) [of t x] m1 m2 names_apart(1) [of x] by (simp add: laid_def map_of_into_rpc fst_into_rpc)
  then obtain m3 where m3: "rg_merge_configured rg (into_rpc ETHGAS_METHODS ?api) m2 = Inr m3"
    "configured m3 = configured m2" "serves m3 = laid UNIV (into_rpc ETHGAS_METHODS ?api) (configured m2) (serves m2)"
    by (rule registry_merge [OF assms(1)])
  obtain m4 where m4: "rg_replace_transport rg Http (into_rpc PUBSUB_METHODS (EthPubSub Http)) m3 = Inr m4"
    "configured m4 = configured m3" "serves m4 = laid {Http} (into_rpc PUBSUB_METHODS (EthPubSub Http)) (configured m3) (serves m3)"
    by (rule registry_replace_transport [OF assms(1)])
  obtain m5 where m5: "rg_replace_transport rg Ws (into_rpc PUBSUB_METHODS (EthPubSub Ws)) m4 = Inr m5"
    "configured m5 = configured m4" "serves m5 = laid {Ws} (into_rpc PUBSUB_METHODS (EthPubSub Ws)) (configured m4) (serves m4)"
    by (rule registry_replace_transport [OF assms(1)])
  obtain m6 where m6: "rg_replace_transport rg Ipc (into_rpc PUBSUB_METHODS (EthPubSub Ipc)) m5 = Inr m6"
    "configured m6 = configured m5" "serves m6 = laid {Ipc} (into_rpc PUBSUB_METHODS (EthPubSub Ipc)) (configured m5) (serves m5)"
    by (rule registry_replace_transport [OF assms(1)])
  have "flashblocks_rpc rg cfg ctx = Inr (ctx\<lparr>ctx_modules := m6\<rparr>)"
    by (simp add: flashblocks_rpc_def Let_def with_modules_ok m1 m2 m3 m4 m5 m6)
  moreover have "serves m6 t x = laid {t} (flashblocks_table cfg t) (configured ?m) (serves ?m) t x" for t x
    unfolding m6(3) m5(3) m4(3) m3(3) m2(3) m1(3) m5(2) m4(2) m3(2) m2(2) m1(2)
    by (cases t) (simp_all add: laid_def flashblocks_table_def Let_def map_of_into_rpc map_add_def)
  ultimately show ?thesis using that [of m6] m1(2) m2(2) m3(2) m4(2) m5(2) m6(2) by auto
qed

lemma simulator_rpc_serves:
  assumes "registry_ok rg configured serves auth_serves"
    and "\<And>t x. configured (ctx_modules ctx) t \<Longrightarrow> x \<in> set VALIDATION_METHODS \<union> set INCLUSION_METHODS \<Longrightarrow>
      serves (ctx_modules ctx) t x = None"
  obtains m' where "simulator_rpc rg url ctx = Inr (ctx\<lparr>ctx_modules := m',
      ctx_spawned := ctx_spawned ctx @ [RefreshDisallowList url, InclusionProducer]\<rparr>)"
    "configured m' = configured (ctx_modules ctx)"
    "serves m' = laid UNIV (simulator_table url) (configured (ctx_modules ctx)) (serves (ctx_modules ctx))"
proof -
  let ?m = "ctx_modules ctx"
  have "serves ?m t x = None" if "configured ?m t" "x \<in> fst ` set (into_rpc VALIDATION_METHODS (ValidationApi url))" for t x
    using that assms(2) [of t x] by (simp add: fst_into_rpc)
  then obtain m1 where m1: "rg_merge_configured rg (into_rpc VALIDATION_METHODS (ValidationApi url)) ?m = Inr m1"
    "configured m1 = configured ?m"
    "serves m1 = laid UNIV (into_rpc VALIDATION_METHODS (ValidationApi url)) (configured ?m) (serves ?m)"
    by (rule registry_merge [OF assms(1)])
  have "serves m1 t x = None" if "configured m1 t" "x \<in> fst ` set (into_rpc INCLUSION_METHODS InclusionExt)" for t x
    using that assms(2) [of t x] m1 names_apart(3) [of x] by (simp add: laid_def map_of_into_rpc fst_into_rpc)
  then obtain m2 where m2: "rg_merge_configured rg (into_rpc INCLUSION_METHODS InclusionExt) m1 = Inr m2"
    "configured m2 = configured m1" "serves m2 = laid UNIV (into_rpc INCLUSION_METHODS InclusionExt) (configured m1) (serves m1)"
    by (rule registry_merge [OF assms(1)])
  have "simulator_rpc rg url ctx = Inr (ctx\<lparr>ctx_modules := m2,
      ctx_spawned := ctx_spawned ctx @ [RefreshDisallowList url, InclusionProducer]\<rparr>)"
    by (simp add: simulator_rpc_def with_modules_ok m1 m2)
  moreover have "serves m2 = laid UNIV (simulator_table url) (configured ?m) (serves ?m)"
    unfolding m2(3) m1(3) m1(2)
    by (intro ext) (simp add: laid_def simulator_table_def map_of_into_rpc map_add_def)
  ultimately show ?thesis using that [of m2] m1(2) m2(2) by simp
qed

definition expected_server ::
    "FlashblocksConfig option \<Rightarrow> string option \<Rightarrow> transport \<Rightarrow> string \<Rightarrow> server option \<Rightarrow> server option" where
  "expected_server cfg sim t x reth =
     (if x \<in> set PROOF_METHODS then None
      else
        (case map_of ((case sim of None \<Rightarrow> [] | Some url \<Rightarrow> simulator_table url)
                      @ (case cfg of None \<Rightarrow> [] | Some c \<Rightarrow> flashblocks_table c t)) x of
           Some s \<Rightarrow> Some s
         | None \<Rightarrow> reth))"

lemma run_hooks_append: "run_hooks (xs @ ys) c = res_bind (run_hooks xs c) (run_hooks ys)"
  by (induction xs arbitrary: c) (auto simp: res_bind_def split: sum.split)

lemma node_main_calls:
  assumes "flashblocks_config args = Some cfg"
  shows "node_main rg args timeout =
    Some (\<lparr>eb_pending_state = cfg \<noteq> None, eb_send_raw_transaction_sync_timeout = Some timeout\<rparr>,
      [ExtendRpcModules (run_hooks
         ((case cfg of None \<Rightarrow> [] | Some c \<Rightarrow> [flashblocks_rpc rg c])
          @ (case simulator_config args of None \<Rightarrow> [] | Some url \<Rightarrow> [simulator_rpc rg url])
          @ [remove_proof_methods rg])),
       OnNodeStarted (run_hooks
         ((case cfg of None \<Rightarrow> [] | Some c \<Rightarrow> [flashblocks_started c]) @ [\<lambda>w. Inr (w @ [VersionMetrics])]))])"
  using assms
  by (simp add: node_main_def launch_node_def apply_to_def install_ext_def set_pending_state_def runner_new_def
      hooks_new_def add_rpc_module_def add_node_started_hook_def ext_apply_def eth_api_builder_new_def
      with_send_raw_transaction_sync_timeout_def split: option.split)

text \<open>Both extensions, then the removal: any subset of them may be configured.\<close>

lemma extensions_serve:
  assumes rg: "registry_ok rg configured serves auth_serves"
    and fresh: "\<And>t x. configured (ctx_modules ctx) t \<Longrightarrow>
      x \<in> set ETHGAS_METHODS \<union> set VALIDATION_METHODS \<union> set INCLUSION_METHODS \<Longrightarrow>
      serves (ctx_modules ctx) t x = None"
  obtains m' where
    "run_hooks ((case cfg of None \<Rightarrow> [] | Some c \<Rightarrow> [flashblocks_rpc rg c])
       @ (case sim of None \<Rightarrow> [] | Some url \<Rightarrow> [simulator_rpc rg url])) ctx =
     Inr (ctx\<lparr>ctx_modules := m', ctx_spawned := ctx_spawned ctx
       @ (case sim of None \<Rightarrow> [] | Some url \<Rightarrow> [RefreshDisallowList url, InclusionProducer])\<rparr>)"
    "\<And>t x. serves m' t x = (if configured (ctx_modules ctx) t
       then (case map_of ((case sim of None \<Rightarrow> [] | Some url \<Rightarrow> simulator_table url)
                      @ (case cfg of None \<Rightarrow> [] | Some c \<Rightarrow> flashblocks_table c t)) x of
               Some s \<Rightarrow> Some s | None \<Rightarrow> serves (ctx_modules ctx) t x)
       else serves (ctx_modules ctx) t x)"
proof -
  let ?m = "ctx_modules ctx"
  obtain m1 where m1:
    "run_hooks (case cfg of None \<Rightarrow> [] | Some c \<Rightarrow> [flashblocks_rpc rg c]) ctx = Inr (ctx\<lparr>ctx_modules := m1\<rparr>)"
    "configured m1 = configured ?m"
    "\<And>t x. serves m1 t x = (if configured ?m t
       then (case map_of (case cfg of None \<Rightarrow> [] | Some c \<Rightarrow> flashblocks_table c t) x of
               Some s \<Rightarrow> Some s | None \<Rightarrow> serves ?m t x) else serves ?m t x)"
  proof (cases cfg)
    case None
    then show ?thesis using that [of ?m] by simp
  next
    case (Some c)
    obtain m1 where "flashblocks_rpc rg c ctx = Inr (ctx\<lparr>ctx_modules := m1\<rparr>)" "configured m1 = configured ?m"
      "\<And>t. serves m1 t = laid {t} (flashblocks_table c t) (configured ?m) (serves ?m) t"
      by (rule flashblocks_rpc_serves [OF rg, of ctx c]) (use fresh in blast)+
    with Some show ?thesis using that [of m1] by (simp add: laid_def)
  qed
  have apart: "serves m1 t x = serves ?m t x" if "x \<in> set VALIDATION_METHODS \<union> set INCLUSION_METHODS" for t x
    using names_apart(2) [OF that]
    by (simp add: m1(3) flashblocks_table_def Let_def map_of_into_rpc map_add_def split: option.split)
  show ?thesis
  proof (cases sim)
    case None
    then show ?thesis using that [of m1] m1 by (simp add: run_hooks_append)
  next
    case (Some url)
    let ?c = "ctx\<lparr>ctx_modules := m1\<rparr>"
    have fr: "serves (ctx_modules ?c) t x = None"
      if "configured (ctx_modules ?c) t" "x \<in> set VALIDATION_METHODS \<union> set INCLUSION_METHODS" for t x
      using that apart [of x t] fresh [of t x] m1(2) by simp
    obtain m2 where m2: "simulator_rpc rg url ?c = Inr (?c\<lparr>ctx_modules := m2,
        ctx_spawned := ctx_spawned ?c @ [RefreshDisallowList url, InclusionProducer]\<rparr>)"
      "serves m2 = laid UNIV (simulator_table url) (configured m1) (serves m1)"
      by (rule simulator_rpc_serves [OF rg fr, of url]) simp_all
    have "serves m2 t x = (if configured ?m t
        then (case map_of (simulator_table url @ (case cfg of None \<Rightarrow> [] | Some c \<Rightarrow> flashblocks_table c t)) x of
               Some s \<Rightarrow> Some s | None \<Rightarrow> serves ?m t x) else serves ?m t x)" for t x
      by (auto simp: m2(2) laid_def m1(2,3) map_add_def split: option.split)
    with Some m1(1) m2(1) show ?thesis using that [of m2] by (simp add: run_hooks_append)
  qed
qed

text \<open>
  C39. What the launched node serves, for any flags whose configurations build: the hooks run
  through, and on every configured transport each method is answered by the extension that
  was configured for it, the subscriptions of each transport by an instance of their own,
  and any other by reth; no proof method is answered on any transport or by the engine API,
  whatever the extensions registered; \<open>pending\<close> has a source exactly when flashblocks are
  configured; and the tasks started are those of the configured extensions.
\<close>

theorem node_serves:
  assumes "registry_ok rg configured serves auth_serves"
    and "flashblocks_config args = Some cfg"
    and "\<And>t x. configured (ctx_modules ctx) t \<Longrightarrow>
      x \<in> set ETHGAS_METHODS \<union> set VALIDATION_METHODS \<union> set INCLUSION_METHODS \<Longrightarrow>
      serves (ctx_modules ctx) t x = None"
  shows "\<exists>rpc started ctx'.
     (node_main rg args timeout
        :: (eth_api_builder \<times> (('m, 'a) rpc_context, started list, 'x) builder_call list) option) =
       Some (\<lparr>eb_pending_state = cfg \<noteq> None, eb_send_raw_transaction_sync_timeout = Some timeout\<rparr>,
             [ExtendRpcModules rpc, OnNodeStarted started])
   \<and> rpc ctx = Inr ctx'
   \<and> (\<forall>t x. configured (ctx_modules ctx) t \<longrightarrow> serves (ctx_modules ctx') t x =
        expected_server cfg (simulator_config args) t x (serves (ctx_modules ctx) t x))
   \<and> (\<forall>x \<in> {''eth_getProof'', ''eth_getMultiProof'', ''eth_getAccount''}.
        (\<forall>t. serves (ctx_modules ctx') t x = None) \<and> \<not> auth_serves (ctx_auth_module ctx') x)
   \<and> ctx_spawned ctx' = ctx_spawned ctx
       @ (case simulator_config args of None \<Rightarrow> [] | Some url \<Rightarrow> [RefreshDisallowList url, InclusionProducer])
   \<and> started [] = Inr ((case cfg of None \<Rightarrow> []
        | Some c \<Rightarrow> [StateProcessorTask (max_pending_blocks_depth c),
                     SubscriberTask (websocket_url c) (subscriber_ping_interval c), CanonicalTask])
        @ [VersionMetrics])"
proof -
  obtain m where m:
    "run_hooks ((case cfg of None \<Rightarrow> [] | Some c \<Rightarrow> [flashblocks_rpc rg c])
       @ (case simulator_config args of None \<Rightarrow> [] | Some url \<Rightarrow> [simulator_rpc rg url])) ctx =
     Inr (ctx\<lparr>ctx_modules := m, ctx_spawned := ctx_spawned ctx
       @ (case simulator_config args of None \<Rightarrow> [] | Some url \<Rightarrow> [RefreshDisallowList url, InclusionProducer])\<rparr>)"
    "\<And>t x. configured (ctx_modules ctx) t \<Longrightarrow> serves m t x =
       (case map_of ((case simulator_config args of None \<Rightarrow> [] | Some url \<Rightarrow> simulator_table url)
                      @ (case cfg of None \<Rightarrow> [] | Some c \<Rightarrow> flashblocks_table c t)) x of
               Some s \<Rightarrow> Some s | None \<Rightarrow> serves (ctx_modules ctx) t x)"
    by (rule extensions_serve [OF assms(1,3), of cfg "simulator_config args"]) auto
  let ?ctx = "ctx\<lparr>ctx_modules := fold (rg_remove_method_from_configured rg) PROOF_METHODS m,
      ctx_auth_module := rg_remove_auth_methods rg PROOF_METHODS (ctx_auth_module ctx),
      ctx_spawned := ctx_spawned ctx
       @ (case simulator_config args of None \<Rightarrow> [] | Some url \<Rightarrow> [RefreshDisallowList url, InclusionProducer])\<rparr>"
  let ?rpc = "run_hooks ((case cfg of None \<Rightarrow> [] | Some c \<Rightarrow> [flashblocks_rpc rg c])
       @ (case simulator_config args of None \<Rightarrow> [] | Some url \<Rightarrow> [simulator_rpc rg url])
       @ [remove_proof_methods rg])"
  let ?started = "run_hooks
       ((case cfg of None \<Rightarrow> [] | Some c \<Rightarrow> [flashblocks_started c]) @ [\<lambda>w. Inr (w @ [VersionMetrics])])"
  have run: "?rpc ctx = Inr ?ctx"
    using m(1) by (simp add: run_hooks_append remove_proof_methods_def flip: append_assoc)
  have removed: "serves (ctx_modules ?ctx) t x = (if x \<in> set PROOF_METHODS then None else serves m t x)" for t x
    using registry_remove [OF assms(1)] by simp
  then have answers: "serves (ctx_modules ?ctx) t x =
      expected_server cfg (simulator_config args) t x (serves (ctx_modules ctx) t x)"
    if "configured (ctx_modules ctx) t" for t x
    by (simp add: m(2) [OF that] expected_server_def)
  have proofs: "(\<forall>t. serves (ctx_modules ?ctx) t x = None) \<and> \<not> auth_serves (ctx_auth_module ?ctx) x"
    if "x \<in> {''eth_getProof'', ''eth_getMultiProof'', ''eth_getAccount''}" for x
  proof -
    have "x \<in> set PROOF_METHODS" using that by (simp add: PROOF_METHODS_def)
    then show ?thesis using removed assms(1) by (simp add: registry_ok_def)
  qed
  have tasks: "?started [] = Inr ((case cfg of None \<Rightarrow> []
        | Some c \<Rightarrow> [StateProcessorTask (max_pending_blocks_depth c),
                     SubscriberTask (websocket_url c) (subscriber_ping_interval c), CanonicalTask])
        @ [VersionMetrics])"
    by (simp add: flashblocks_started_def split: option.split)
  show ?thesis
    by (rule exI [of _ ?rpc], rule exI [of _ ?started], rule exI [of _ ?ctx])
      (use run answers proofs tasks node_main_calls [OF assms(2)] in \<open>simp del: run_hooks.simps\<close>)
qed

text \<open>
  C40. From the flags to the configuration. With a feed URL and a fee age that the flag's own
  parser accepted, a configuration is built unless the ping interval is zero, which the
  flag's parser accepts and the setter's assertion then refuses with a panic. The
  configuration carries the flags' values, and the ceiling in wei is a thousand million
  times the flag's gwei, without wrap-around.
\<close>

theorem config_flow:
  assumes "flashblocks_url args = Some url"
    and "parse_positive_duration parse_duration value = Inr (flashblocks_fee_max_age args)"
  shows "(flashblocks_config args = None \<longleftrightarrow> flashblocks_ping_interval args = 0)
    \<and> (\<forall>c. flashblocks_config args = Some c \<longrightarrow>
        (\<exists>ceiling. c = Some \<lparr>websocket_url = url, max_pending_blocks_depth = args_max_pending_blocks_depth args,
           subscriber_ping_interval = flashblocks_ping_interval args,
           inclusion_fee_max_age = flashblocks_fee_max_age args, inclusion_fee_ceiling = ceiling\<rparr>
         \<and> unat ceiling = unat (flashblocks_fee_ceiling args) * 1000000000))"
proof -
  have pos: "flashblocks_fee_max_age args \<noteq> 0"
    using assms(2) by (auto simp: parse_positive_duration_def res_bind_def split: sum.splits if_splits)
  have "unat (flashblocks_fee_ceiling args) < 2 ^ 64" using unsigned_less [of "flashblocks_fee_ceiling args"] by simp
  then have "unat (ucast (flashblocks_fee_ceiling args) * ucast WEI_PER_GWEI :: u256) =
      unat (flashblocks_fee_ceiling args) * 1000000000"
    by (simp add: unat_word_ariths unsigned_ucast_eq WEI_PER_GWEI_def take_bit_nat_eq_self)
  with pos assms(1) show ?thesis
    by (auto simp: flashblocks_config_def with_subscriber_ping_interval_def with_inclusion_fee_max_age_def
        with_inclusion_fee_ceiling_def config_new_def)
qed

section \<open>A registry and flags\<close>

type_synonym example_modules = "transport \<Rightarrow> (string \<Rightarrow> server option) option"

definition over :: "methods \<Rightarrow> (string \<Rightarrow> server option) \<Rightarrow> string \<Rightarrow> server option" where
  "over ms S x = (case map_of ms x of Some s \<Rightarrow> Some s | None \<Rightarrow> S x)"

definition example_configured :: "example_modules \<Rightarrow> transport \<Rightarrow> bool" where
  "example_configured m t \<longleftrightarrow> m t \<noteq> None"

definition example_serves :: "example_modules \<Rightarrow> transport \<Rightarrow> string \<Rightarrow> server option" where
  "example_serves m t x = (case m t of None \<Rightarrow> None | Some S \<Rightarrow> S x)"

definition example_registry :: "(example_modules, string \<Rightarrow> bool) registry" where
  "example_registry =
     \<lparr>rg_replace_configured = (\<lambda>ms m. Inr (\<lambda>t. map_option (over ms) (m t))),
      rg_merge_configured = (\<lambda>ms m.
        if list_ex (\<lambda>t. list_ex (\<lambda>(x, _). example_serves m t x \<noteq> None) ms) [Http, Ws, Ipc]
        then Inl ''already registered'' else Inr (\<lambda>t. map_option (over ms) (m t))),
      rg_replace_transport = (\<lambda>t ms m. Inr (m(t := map_option (over ms) (m t)))),
      rg_remove_method_from_configured = (\<lambda>x m t. map_option (\<lambda>S. S(x := None)) (m t)),
      rg_remove_auth_methods = (\<lambda>xs a x. a x \<and> x \<notin> set xs)\<rparr>"

lemma example_merge:
  assumes "\<And>t x. example_configured m t \<Longrightarrow> x \<in> fst ` set ms \<Longrightarrow> example_serves m t x = None"
  shows "rg_merge_configured example_registry ms m = Inr (\<lambda>t. map_option (over ms) (m t))"
proof -
  have "example_serves m t (fst p) = None" if "p \<in> set ms" for t p
    using assms [of t "fst p"] that by (cases "m t") (auto simp: example_configured_def example_serves_def)
  then have "\<not> list_ex (\<lambda>(x, _). example_serves m t x \<noteq> None) ms" for t
    by (auto simp: list_ex_iff)
  then show ?thesis by (simp add: example_registry_def)
qed

lemma example_laid:
  "example_serves (\<lambda>t. if t \<in> ts then map_option (over ms) (m t) else m t) =
     laid ts ms (example_configured m) (example_serves m)"
  by (intro ext) (auto simp: laid_def example_serves_def example_configured_def over_def split: option.split)

lemma example_registry_ok:
  "registry_ok example_registry example_configured example_serves (\<lambda>a. a)"
proof -
  let ?o = "\<lambda>ts ms m t. if t \<in> ts then map_option (over ms) (m t) else m t"
  have conf: "example_configured (?o ts ms m) = example_configured m" for ts ms m
    by (intro ext) (simp add: example_configured_def)
  have un: "(\<lambda>t. map_option (over ms) (m t)) = ?o UNIV ms m" for ms and m :: example_modules by simp
  have single: "m(t := map_option (over ms) (m t)) = ?o {t} ms m" for ms t and m :: example_modules by auto
  have rem: "example_configured (rg_remove_method_from_configured example_registry x m) = example_configured m"
    "example_serves (rg_remove_method_from_configured example_registry x m) =
       (\<lambda>t. (example_serves m t)(x := None))" for x m
    by (intro ext, simp add: example_registry_def example_configured_def example_serves_def split: option.split)+
  have repl: "rg_replace_configured example_registry ms m = Inr (?o UNIV ms m)"
    "rg_replace_transport example_registry t ms m = Inr (?o {t} ms m)" for ms t m
    by (simp_all only: example_registry_def registry.select_convs un single)
  have auth: "rg_remove_auth_methods example_registry xs a y \<longleftrightarrow> a y \<and> y \<notin> set xs" for xs a y
    by (simp add: example_registry_def)
  have merge: "\<exists>m'. rg_merge_configured example_registry ms m = Inr m' \<and>
      example_configured m' = example_configured m \<and>
      example_serves m' = laid UNIV ms (example_configured m) (example_serves m)"
    if "\<forall>t x. example_configured m t \<and> x \<in> fst ` set ms \<longrightarrow> example_serves m t x = None" for ms m
  proof -
    have "rg_merge_configured example_registry ms m = Inr (?o UNIV ms m)"
      using example_merge [of m ms] that by simp
    then show ?thesis using conf [of UNIV ms m] example_laid [of UNIV ms m] by blast
  qed
  have "\<exists>m'. rg_replace_configured example_registry ms m = Inr m' \<and>
      example_configured m' = example_configured m \<and>
      example_serves m' = laid UNIV ms (example_configured m) (example_serves m)" for ms m
    using repl(1) [of ms m] conf [of UNIV ms m] example_laid [of UNIV ms m] by blast
  moreover have "\<exists>m'. rg_replace_transport example_registry t ms m = Inr m' \<and>
      example_configured m' = example_configured m \<and>
      example_serves m' = laid {t} ms (example_configured m) (example_serves m)" for t ms m
    using repl(2) [of t ms m] conf [of "{t}" ms m] example_laid [of "{t}" ms m] by blast
  ultimately show ?thesis
    unfolding registry_ok_def using merge rem auth by simp
qed

definition example_args :: Args where
  "example_args = \<lparr>flashblocks_url = Some ''ws://feed'', args_max_pending_blocks_depth = 3,
     flashblocks_ping_interval = from_secs 2, flashblocks_fee_max_age = from_secs 15,
     flashblocks_fee_ceiling = 1000, enable_simulator = True, simulator_blacklist_provider = ''http://list''\<rparr>"

definition example_context :: "(example_modules, string \<Rightarrow> bool) rpc_context" where
  "example_context =
     \<lparr>ctx_modules = (\<lambda>t. if t = Ws then Some (\<lambda>x. if x \<in> {''eth_getProof'', ''eth_chainId''} then Some RethServer else None)
        else None),
      ctx_auth_module = (\<lambda>x. x = ''eth_getProof''), ctx_spawned = []\<rparr>"

theorem node_serves_witness:
  "\<exists>b rpc started ctx'.
     node_main example_registry example_args 7 =
       (Some (b, [ExtendRpcModules rpc, OnNodeStarted started]) ::
         (eth_api_builder \<times> (_, _, unit) builder_call list) option)
   \<and> rpc example_context = Inr ctx'
   \<and> example_serves (ctx_modules ctx') Ws ''eth_subscribe'' = Some (EthPubSub Ws)
   \<and> example_serves (ctx_modules ctx') Ws ''eth_chainId'' = Some RethServer
   \<and> example_serves (ctx_modules ctx') Ws ''relay_inclusionList'' = Some InclusionExt
   \<and> example_serves (ctx_modules ctx') Ws ''eth_getProof'' = None"
proof -
  obtain cfg where cfg: "flashblocks_config example_args = Some (Some cfg)"
    by (simp add: flashblocks_config_def example_args_def with_subscriber_ping_interval_def
        with_inclusion_fee_max_age_def from_secs_def)
  have fresh: "example_serves (ctx_modules example_context) t x = None"
    if "example_configured (ctx_modules example_context) t"
      "x \<in> set ETHGAS_METHODS \<union> set VALIDATION_METHODS \<union> set INCLUSION_METHODS" for t x
    using that(2) by (auto simp: example_context_def example_serves_def method_names)
  have ws: "example_configured (ctx_modules example_context) Ws"
    by (simp add: example_context_def example_configured_def)
  have server: "expected_server (Some cfg) (simulator_config example_args) Ws ''eth_subscribe'' r = Some (EthPubSub Ws)"
    "expected_server (Some cfg) (simulator_config example_args) Ws ''eth_chainId'' r = r"
    "expected_server (Some cfg) (simulator_config example_args) Ws ''relay_inclusionList'' r = Some InclusionExt"
    "expected_server (Some cfg) (simulator_config example_args) Ws ''eth_getProof'' r = None" for r
    by (simp_all add: expected_server_def simulator_config_def example_args_def simulator_table_def
        flashblocks_table_def Let_def map_add_def map_of_into_rpc method_names PROOF_METHODS_def)
  have reth: "example_serves (ctx_modules example_context) Ws ''eth_chainId'' = Some RethServer"
    by (simp add: example_context_def example_serves_def)
  obtain rpc started ctx' where run:
    "node_main example_registry example_args 7 =
       (Some (\<lparr>eb_pending_state = Some cfg \<noteq> None, eb_send_raw_transaction_sync_timeout = Some 7\<rparr>,
             [ExtendRpcModules rpc, OnNodeStarted started]) ::
         (eth_api_builder \<times> (_, _, unit) builder_call list) option)"
    "rpc example_context = Inr ctx'"
    and answers: "\<forall>t x. example_configured (ctx_modules example_context) t \<longrightarrow>
       example_serves (ctx_modules ctx') t x =
         expected_server (Some cfg) (simulator_config example_args) t x (example_serves (ctx_modules example_context) t x)"
    using node_serves [of example_registry example_configured example_serves "\<lambda>a. a" example_args "Some cfg"
        example_context 7, where 'x = unit, OF example_registry_ok cfg fresh] by blast
  have "example_serves (ctx_modules ctx') Ws x = expected_server (Some cfg) (simulator_config example_args) Ws x
      (example_serves (ctx_modules example_context) Ws x)" for x
    using answers ws by blast
  then have "example_serves (ctx_modules ctx') Ws ''eth_subscribe'' = Some (EthPubSub Ws)
      \<and> example_serves (ctx_modules ctx') Ws ''eth_chainId'' = Some RethServer
      \<and> example_serves (ctx_modules ctx') Ws ''relay_inclusionList'' = Some InclusionExt
      \<and> example_serves (ctx_modules ctx') Ws ''eth_getProof'' = None"
    using server reth by simp
  with run show ?thesis by blast
qed

theorem config_flow_witness:
  "flashblocks_config (example_args\<lparr>flashblocks_ping_interval := 0\<rparr>) = None
   \<and> (\<exists>c. flashblocks_config example_args = Some (Some c) \<and> unat (inclusion_fee_ceiling c) = 10 ^ 12)"
proof -
  have p: "parse_positive_duration (\<lambda>_. Inr (from_secs 15)) ''15s'' = Inr (from_secs 15)"
    by (simp add: parse_positive_duration_def from_secs_def)
  have z: "flashblocks_config (example_args\<lparr>flashblocks_ping_interval := 0\<rparr>) = None"
    using config_flow [of "example_args\<lparr>flashblocks_ping_interval := 0\<rparr>" _ "\<lambda>_. Inr (from_secs 15)" "''15s''"] p
    by (simp add: example_args_def)
  have "flashblocks_config example_args \<noteq> None"
    using config_flow [of example_args _ "\<lambda>_. Inr (from_secs 15)" "''15s''"] p
    by (simp add: example_args_def from_secs_def)
  then obtain c where c: "flashblocks_config example_args = Some c" by blast
  have "\<exists>d. c = Some d \<and> unat (inclusion_fee_ceiling d) = 1000 * 1000000000"
    using config_flow [of example_args "''ws://feed''" "\<lambda>_. Inr (from_secs 15)" "''15s''"] p c
    by (auto simp: example_args_def)
  with z c show ?thesis by auto
qed

section \<open>The canonical task and the system\<close>

fun blocks_of :: "canonical_item list \<Rightarrow> RecoveredBlock list" where
  "blocks_of [] = []"
| "blocks_of (Committed blocks # rest) = blocks @ blocks_of rest"
| "blocks_of (LaggedBy _ # rest) = blocks_of rest"

lemma on_canonical_fields:
  "fs_queue (on_canonical_block_received b fs) = fs_queue fs @ [Canonical b]"
  "ps_last_canonical_block (fs_shared (on_canonical_block_received b fs)) = rb_number b"
  by (auto simp: on_canonical_block_received_def Let_def drop_pending_behind_def split: option.split)

lemma canonical_task_blocks: "canonical_task items fs = fold on_canonical_block_received (blocks_of items) fs"
  by (induction items fs rule: canonical_task.induct) simp_all

text \<open>
  The canonical task feeds the system: whatever notifications and lags its stream yields,
  it is a run of the system in which every committed block, in order, is queued for the
  processor, none twice and a lag loses only what the stream itself skipped; the canonical
  number that flashblocks are judged by is then that of the last block.
\<close>

theorem canonical_task_runs:
  assumes "tk_canonical tk = Waiting"
  shows "(inner_step pe)\<^sup>*\<^sup>* tk (tk\<lparr>tk_state := canonical_task items (tk_state tk)\<rparr>)
    \<and> fs_queue (canonical_task items (tk_state tk)) = fs_queue (tk_state tk) @ map Canonical (blocks_of items)
    \<and> ps_last_canonical_block (fs_shared (canonical_task items (tk_state tk))) =
        (if blocks_of items = [] then ps_last_canonical_block (fs_shared (tk_state tk))
         else rb_number (last (blocks_of items)))"
proof -
  have run: "(inner_step pe)\<^sup>*\<^sup>* tk (tk\<lparr>tk_state := fold on_canonical_block_received bs (tk_state tk)\<rparr>)" for bs
  proof (induction bs rule: rev_induct)
    case (snoc b bs)
    let ?tk = "tk\<lparr>tk_state := fold on_canonical_block_received bs (tk_state tk)\<rparr>"
    have "(inner_step pe)\<^sup>*\<^sup>* ?tk (?tk\<lparr>tk_state := on_canonical_block_received b (tk_state ?tk)\<rparr>)"
      by (rule canonical_uninterrupted) (simp add: assms)
    with snoc show ?case by simp
  qed simp
  have "fs_queue (fold on_canonical_block_received bs (tk_state tk)) = fs_queue (tk_state tk) @ map Canonical bs
      \<and> ps_last_canonical_block (fs_shared (fold on_canonical_block_received bs (tk_state tk))) =
          (if bs = [] then ps_last_canonical_block (fs_shared (tk_state tk)) else rb_number (last bs))" for bs
    by (induction bs rule: rev_induct) (auto simp: on_canonical_fields)
  with run show ?thesis by (simp add: canonical_task_blocks)
qed

theorem canonical_task_runs_witness:
  "fs_queue (canonical_task [Committed [example_far_block], LaggedBy 2] (tk_state example_tasks)) =
     fs_queue (tk_state example_tasks) @ [Canonical example_far_block]"
  using canonical_task_runs [of example_tasks example_env "[Committed [example_far_block], LaggedBy 2]"]
  by (simp add: example_tasks_def tasks_new_def)

end
