(* ===== verification/Subscriber.thy ===== *)
theory Subscriber
  imports Payload Metrics
begin

text \<open>
  The upstream feed (\<open>subscription.rs\<close>): decoding of wire messages with their size and shape
  checks, and the connection loop with its pings and its backoff. A Rust string is its
  UTF-8 bytes; UTF-8 validation and \<open>trim_start\<close> of the standard library are modelled. The
  JSON parser, the deserializers and the brotli decoder are the fields of a codec.
\<close>

section \<open>UTF-8\<close>

definition utf8_cont :: "u8 \<Rightarrow> bool" where
  "utf8_cont b \<longleftrightarrow> 0x80 \<le> unat b \<and> unat b \<le> 0xBF"

definition utf8_second3 :: "nat \<Rightarrow> u8 \<Rightarrow> bool" where
  "utf8_second3 x b \<longleftrightarrow>
     (if x = 0xE0 then 0xA0 \<le> unat b \<and> unat b \<le> 0xBF
      else if x = 0xED then 0x80 \<le> unat b \<and> unat b \<le> 0x9F
      else utf8_cont b)"

definition utf8_second4 :: "nat \<Rightarrow> u8 \<Rightarrow> bool" where
  "utf8_second4 x b \<longleftrightarrow>
     (if x = 0xF0 then 0x90 \<le> unat b \<and> unat b \<le> 0xBF
      else if x = 0xF4 then 0x80 \<le> unat b \<and> unat b \<le> 0x8F
      else utf8_cont b)"

text \<open>The code points of a byte sequence, when it is valid UTF-8.\<close>

fun utf8_chars :: "u8 list \<Rightarrow> nat list option" where
  "utf8_chars [] = Some []"
| "utf8_chars (a # r) =
     (if unat a < 0x80 then map_option ((#) (unat a)) (utf8_chars r)
      else
        (case r of
           [] \<Rightarrow> None
         | b # r1 \<Rightarrow>
             if 0xC2 \<le> unat a \<and> unat a \<le> 0xDF \<and> utf8_cont b
             then map_option ((#) ((unat a - 0xC0) * 64 + (unat b - 0x80))) (utf8_chars r1)
             else
               (case r1 of
                  [] \<Rightarrow> None
                | c # r2 \<Rightarrow>
                    if 0xE0 \<le> unat a \<and> unat a \<le> 0xEF \<and> utf8_second3 (unat a) b \<and> utf8_cont c
                    then map_option ((#) ((unat a - 0xE0) * 4096 + (unat b - 0x80) * 64 + (unat c - 0x80)))
                           (utf8_chars r2)
                    else
                      (case r2 of
                         [] \<Rightarrow> None
                       | d # r3 \<Rightarrow>
                           if 0xF0 \<le> unat a \<and> unat a \<le> 0xF4 \<and> utf8_second4 (unat a) b \<and> utf8_cont c
                              \<and> utf8_cont d
                           then map_option ((#) ((unat a - 0xF0) * 262144 + (unat b - 0x80) * 4096
                                  + (unat c - 0x80) * 64 + (unat d - 0x80))) (utf8_chars r3)
                           else None))))"

text \<open>\<open>char::is_whitespace\<close>: the code points of \<open>White_Space\<close>.\<close>

definition is_whitespace :: "nat \<Rightarrow> bool" where
  "is_whitespace c \<longleftrightarrow>
     (9 \<le> c \<and> c \<le> 13) \<or> c = 0x20 \<or> c = 0x85 \<or> c = 0xA0 \<or> c = 0x1680
   \<or> (0x2000 \<le> c \<and> c \<le> 0x200A) \<or> c = 0x2028 \<or> c = 0x2029 \<or> c = 0x202F \<or> c = 0x205F \<or> c = 0x3000"

definition starts_with_brace :: "nat list \<Rightarrow> bool" where
  "starts_with_brace cs = (case dropWhile is_whitespace cs of [] \<Rightarrow> False | c # _ \<Rightarrow> c = 0x7B)"

section \<open>Wire messages\<close>

definition MAX_DECODED_FLASHBLOCK_BYTES :: nat where
  "MAX_DECODED_FLASHBLOCK_BYTES = 5 * 1024 * 1024"

definition ENVELOPE_KEYS :: "string list" where
  "ENVELOPE_KEYS = [''payload_id'', ''index'', ''base'', ''diff'', ''metadata'']"

definition BASE_KEYS :: "string list" where
  "BASE_KEYS = [''parent_beacon_block_root'', ''parent_hash'', ''fee_recipient'', ''prev_randao'',
     ''block_number'', ''gas_limit'', ''timestamp'', ''extra_data'', ''base_fee_per_gas'',
     ''slot_number'']"

definition DIFF_KEYS :: "string list" where
  "DIFF_KEYS = [''state_root'', ''receipts_root'', ''logs_bloom'', ''gas_used'', ''block_hash'',
     ''transactions'', ''withdrawals'', ''blob_gas_used'', ''excess_blob_gas'', ''requests'']"

definition METADATA_KEYS :: "string list" where
  "METADATA_KEYS = [''block_number'', ''new_account_balances'', ''receipts'', ''inclusion_fee'']"

definition MAX_WARNED_UNKNOWN_KEYS :: nat where
  "MAX_WARNED_UNKNOWN_KEYS = 64"

text \<open>\<open>serde_json::Value\<close>; an object lists its keys in the order the map iterates them.\<close>

datatype json =
    JNull
  | JBool bool
  | JNumber string
  | JString string
  | JArray "json list"
  | JObject "(string \<times> json) list"

definition json_get :: "json \<Rightarrow> string \<Rightarrow> json option" where
  "json_get v key = (case v of JObject entries \<Rightarrow> map_of entries key | _ \<Rightarrow> None)"

definition as_object :: "json \<Rightarrow> (string \<times> json) list option" where
  "as_object v = (case v of JObject entries \<Rightarrow> Some entries | _ \<Rightarrow> None)"

record WireShape =
  unknown_keys :: "string list"
  base_without_slot_number :: bool
  diff_without_requests :: bool

definition unknown_keys_in :: "string \<Rightarrow> json option \<Rightarrow> string list \<Rightarrow> string list" where
  "unknown_keys_in object value known =
     (case Option.bind value as_object of
        None \<Rightarrow> []
      | Some entries \<Rightarrow>
          map (\<lambda>key. object @ ''.'' @ key) (filter (\<lambda>key. key \<notin> set known) (map fst entries)))"

definition present :: "json option \<Rightarrow> bool" where
  "present value = (case value of None \<Rightarrow> False | Some v \<Rightarrow> v \<noteq> JNull)"

definition wire_shape_of :: "json \<Rightarrow> WireShape" where
  "wire_shape_of payload =
     \<lparr>unknown_keys =
        unknown_keys_in ''envelope'' (Some payload) ENVELOPE_KEYS
        @ unknown_keys_in ''base'' (json_get payload ''base'') BASE_KEYS
        @ unknown_keys_in ''diff'' (json_get payload ''diff'') DIFF_KEYS
        @ unknown_keys_in ''metadata'' (json_get payload ''metadata'') METADATA_KEYS,
      base_without_slot_number =
        (case json_get payload ''base'' of
           None \<Rightarrow> False
         | Some base \<Rightarrow> base \<noteq> JNull \<and> \<not> present (json_get base ''slot_number'')),
      diff_without_requests =
        (\<not> present (Option.bind (json_get payload ''diff'') (\<lambda>diff. json_get diff ''requests'')))\<rparr>"

fun record_unknown_keys :: "string list \<Rightarrow> Metrics \<Rightarrow> string list \<Rightarrow> Metrics \<times> string list" where
  "record_unknown_keys [] m warned = (m, warned)"
| "record_unknown_keys (key # keys) m warned =
     record_unknown_keys keys (increment unknown_wire_fields m)
       (if length warned < MAX_WARNED_UNKNOWN_KEYS \<and> key \<notin> set warned then warned @ [key] else warned)"

definition record_wire_shape :: "Metrics \<Rightarrow> string list \<Rightarrow> WireShape \<Rightarrow> Metrics \<times> string list" where
  "record_wire_shape m warned shape =
     (let (m1, warned') = record_unknown_keys (unknown_keys shape) m warned;
          m2 = (if base_without_slot_number shape then increment wire_slot_number_missing m1 else m1);
          m3 = (if diff_without_requests shape then increment wire_requests_missing m2 else m2)
      in (m3, warned'))"

section \<open>Decoding\<close>

datatype decode_error =
    TooLarge nat
  | ReadFailed string
  | NotUtf8
  | BadJson string
  | BadMetadata string

record FlashblocksPayloadV1 =
  pv_payload_id :: payload_id
  pv_index :: u64
  pv_base :: "ExecutionPayloadBaseV1 option"
  pv_diff :: ExecutionPayloadFlashblockDeltaV1
  pv_metadata :: json

text \<open>
  \<open>wc_brotli bytes n\<close> reads at most \<open>n\<close> bytes of the decompressed stream, or meets an error
  before them.
\<close>

record wire_codec =
  wc_from_str :: "bytes \<Rightarrow> string + json"
  wc_payload :: "json \<Rightarrow> string + FlashblocksPayloadV1"
  wc_metadata :: "json \<Rightarrow> string + Metadata"
  wc_brotli :: "bytes \<Rightarrow> nat \<Rightarrow> string + bytes"

definition ensure_within_size_limit :: "nat \<Rightarrow> decode_error + unit" where
  "ensure_within_size_limit len =
     (if len \<le> MAX_DECODED_FLASHBLOCK_BYTES then Inr () else Inl (TooLarge len))"

definition try_parse_message :: "wire_codec \<Rightarrow> bytes \<Rightarrow> decode_error + bytes" where
  "try_parse_message wc bs =
     (if (case utf8_chars bs of None \<Rightarrow> False | Some cs \<Rightarrow> starts_with_brace cs)
      then res_bind (ensure_within_size_limit (length bs)) (\<lambda>_. Inr bs)
      else
        res_bind (map_err ReadFailed (wc_brotli wc bs (MAX_DECODED_FLASHBLOCK_BYTES + 1)))
          (\<lambda>decompressed.
             res_bind (ensure_within_size_limit (length decompressed))
               (\<lambda>_. if utf8_chars decompressed = None then Inl NotUtf8 else Inr decompressed)))"

definition parse_flashblock_json :: "wire_codec \<Rightarrow> bytes \<Rightarrow> decode_error + (FlashBlock \<times> WireShape)" where
  "parse_flashblock_json wc text =
     res_bind (map_err BadJson (wc_from_str wc text)) (\<lambda>value.
       (let shape = wire_shape_of value in
        res_bind (map_err BadJson (wc_payload wc value)) (\<lambda>payload.
          res_bind (map_err BadMetadata (wc_metadata wc (pv_metadata payload))) (\<lambda>metadata.
            Inr (\<lparr>fb_payload_id = pv_payload_id payload, fb_index = pv_index payload,
                  fb_base = pv_base payload, fb_diff = pv_diff payload, fb_metadata = metadata\<rparr>,
                 shape)))))"

definition try_decode_message :: "wire_codec \<Rightarrow> bytes \<Rightarrow> decode_error + (FlashBlock \<times> WireShape)" where
  "try_decode_message wc bs = res_bind (try_parse_message wc bs) (parse_flashblock_json wc)"

definition try_decode_plaintext_message ::
    "wire_codec \<Rightarrow> bytes \<Rightarrow> decode_error + (FlashBlock \<times> WireShape)" where
  "try_decode_plaintext_message wc text =
     res_bind (ensure_within_size_limit (length text)) (\<lambda>_. parse_flashblock_json wc text)"

section \<open>The connection loop\<close>

text \<open>The capacity of the channel between the reading task and the one that hands flashblocks on.\<close>

definition MAILBOX_SIZE :: nat where
  "MAILBOX_SIZE = 100"

definition MAX_BACKOFF :: duration where
  "MAX_BACKOFF = from_secs 2"

definition next_backoff :: "duration \<Rightarrow> duration" where
  "next_backoff backoff = min (backoff * 2) MAX_BACKOFF"

datatype Message = Binary bytes | Text bytes | Ping bytes | Pong bytes | Close | Frame bytes

text \<open>
  The task's variables: whether it is in the inner loop, what it sent to the mailbox, how
  long it slept and in which order.
\<close>

record subscriber =
  sb_connected :: bool
  sb_awaiting_pong_resp :: bool
  sb_backoff :: duration
  sb_warned_keys :: "string list"
  sb_metrics :: Metrics
  sb_mailbox :: "FlashBlock list"
  sb_slept :: "duration list"

definition subscriber_new :: subscriber where
  "subscriber_new = \<lparr>sb_connected = False, sb_awaiting_pong_resp = False, sb_backoff = from_secs 1,
     sb_warned_keys = [], sb_metrics = metrics_default, sb_mailbox = [], sb_slept = []\<rparr>"

definition sb_incr :: "counter \<Rightarrow> subscriber \<Rightarrow> subscriber" where
  "sb_incr c s = s\<lparr>sb_metrics := increment c (sb_metrics s)\<rparr>"

definition sb_sleep :: "subscriber \<Rightarrow> subscriber" where
  "sb_sleep s =
     (let s1 = sb_incr reconnect_attempts s in
      s1\<lparr>sb_slept := sb_slept s1 @ [sb_backoff s1], sb_backoff := next_backoff (sb_backoff s1)\<rparr>)"

definition on_connect :: "bool \<Rightarrow> subscriber \<Rightarrow> subscriber" where
  "on_connect ok s =
     (if ok then s\<lparr>sb_connected := True, sb_backoff := from_secs 1, sb_awaiting_pong_resp := False\<rparr>
      else sb_sleep s)"

definition on_decoded :: "decode_error + (FlashBlock \<times> WireShape) \<Rightarrow> subscriber \<Rightarrow> subscriber" where
  "on_decoded r s =
     (case r of
        Inl e \<Rightarrow> s
      | Inr (payload, shape) \<Rightarrow>
          (let (m, warned) = record_wire_shape (sb_metrics s) (sb_warned_keys s) shape in
           s\<lparr>sb_metrics := m, sb_warned_keys := warned, sb_mailbox := sb_mailbox s @ [payload]\<rparr>))"

definition on_message :: "wire_codec \<Rightarrow> string + Message \<Rightarrow> subscriber \<Rightarrow> subscriber" where
  "on_message wc msg s0 =
     (let s = sb_incr upstream_messages s0 in
      case msg of
        Inr (Binary bs) \<Rightarrow> on_decoded (try_decode_message wc bs) s
      | Inr (Text text) \<Rightarrow> on_decoded (try_decode_plaintext_message wc text) s
      | Inr Close \<Rightarrow> s\<lparr>sb_connected := False\<rparr>
      | Inr (Pong _) \<Rightarrow> s\<lparr>sb_awaiting_pong_resp := False\<rparr>
      | Inl e \<Rightarrow> (sb_incr upstream_errors s)\<lparr>sb_connected := False\<rparr>
      | Inr (Ping _) \<Rightarrow> s
      | Inr (Frame _) \<Rightarrow> s)"

definition on_ping_tick :: "bool \<Rightarrow> subscriber \<Rightarrow> subscriber" where
  "on_ping_tick send_ok s =
     (if sb_awaiting_pong_resp s then (sb_sleep s)\<lparr>sb_connected := False\<rparr>
      else if \<not> send_ok then (sb_sleep s)\<lparr>sb_connected := False\<rparr>
      else s\<lparr>sb_awaiting_pong_resp := True\<rparr>)"

text \<open>
  What the task meets: the result of a connection attempt while it is not connected, a
  message or a tick of the ping interval while it is.
\<close>

datatype feed_event = Connect bool | Received "string + Message" | PingTick bool

definition feed_enabled :: "subscriber \<Rightarrow> feed_event \<Rightarrow> bool" where
  "feed_enabled s e = (case e of Connect _ \<Rightarrow> \<not> sb_connected s | _ \<Rightarrow> sb_connected s)"

definition feed_step :: "wire_codec \<Rightarrow> subscriber \<Rightarrow> feed_event \<Rightarrow> subscriber" where
  "feed_step wc s e =
     (case e of
        Connect ok \<Rightarrow> on_connect ok s
      | Received msg \<Rightarrow> on_message wc msg s
      | PingTick send_ok \<Rightarrow> on_ping_tick send_ok s)"

section \<open>What the feed delivers\<close>

text \<open>The flashblock an event delivers, and the keys of it that the node does not read.\<close>

definition decoded :: "wire_codec \<Rightarrow> feed_event \<Rightarrow> (FlashBlock \<times> WireShape) option" where
  "decoded wc e =
     (case e of
        Received (Inr (Binary bs)) \<Rightarrow> res_ok (try_decode_message wc bs)
      | Received (Inr (Text text)) \<Rightarrow> res_ok (try_decode_plaintext_message wc text)
      | _ \<Rightarrow> None)"

definition run_feed :: "wire_codec \<Rightarrow> feed_event list \<Rightarrow> subscriber" where
  "run_feed wc es = foldl (feed_step wc) subscriber_new es"

definition feed_inv :: "subscriber \<Rightarrow> bool" where
  "feed_inv s \<longleftrightarrow>
     sb_backoff s \<in> {from_secs 1, MAX_BACKOFF} \<and> set (sb_slept s) \<subseteq> {from_secs 1, MAX_BACKOFF}
   \<and> length (sb_slept s) = counters (sb_metrics s) reconnect_attempts
   \<and> distinct (sb_warned_keys s) \<and> length (sb_warned_keys s) \<le> MAX_WARNED_UNKNOWN_KEYS"

lemma next_backoff_values: "b \<in> {from_secs 1, MAX_BACKOFF} \<Longrightarrow> next_backoff b = MAX_BACKOFF"
  by (auto simp: next_backoff_def MAX_BACKOFF_def from_secs_def)

lemma record_unknown_keys_inv:
  "record_unknown_keys keys m warned = (m', warned') \<Longrightarrow>
     distinct warned \<Longrightarrow> length warned \<le> MAX_WARNED_UNKNOWN_KEYS \<Longrightarrow>
     distinct warned' \<and> length warned' \<le> MAX_WARNED_UNKNOWN_KEYS
   \<and> counters m' = (counters m)(unknown_wire_fields := counters m unknown_wire_fields + length keys)"
proof (induction keys m warned rule: record_unknown_keys.induct)
  case (2 key keys m warned)
  have "distinct (if length warned < MAX_WARNED_UNKNOWN_KEYS \<and> key \<notin> set warned then warned @ [key] else warned)
      \<and> length (if length warned < MAX_WARNED_UNKNOWN_KEYS \<and> key \<notin> set warned then warned @ [key] else warned)
        \<le> MAX_WARNED_UNKNOWN_KEYS"
    using 2(3,4) by simp
  with 2(1,2) show ?case by (auto simp: increment_def)
qed (auto simp: fun_upd_idem)

lemma record_wire_shape_inv:
  assumes "record_wire_shape m warned shape = (m', warned')"
    and "distinct warned" "length warned \<le> MAX_WARNED_UNKNOWN_KEYS"
  shows "distinct warned' \<and> length warned' \<le> MAX_WARNED_UNKNOWN_KEYS
    \<and> counters m' unknown_wire_fields = counters m unknown_wire_fields + length (unknown_keys shape)
    \<and> counters m' reconnect_attempts = counters m reconnect_attempts
    \<and> counters m' upstream_messages = counters m upstream_messages"
proof -
  obtain m1 w1 where "record_unknown_keys (unknown_keys shape) m warned = (m1, w1)"
    by (cases "record_unknown_keys (unknown_keys shape) m warned")
  with record_unknown_keys_inv [OF this assms(2,3)] assms(1) show ?thesis
    by (auto simp: record_wire_shape_def Let_def)
qed

text \<open>One event: what it adds to the mailbox and to the counters, and the invariant.\<close>

lemma feed_step_effect:
  assumes "feed_inv s"
  shows "feed_inv (feed_step wc s e)
    \<and> sb_mailbox (feed_step wc s e) =
        sb_mailbox s @ (case decoded wc e of None \<Rightarrow> [] | Some (fb, _) \<Rightarrow> [fb])
    \<and> counters (sb_metrics (feed_step wc s e)) unknown_wire_fields =
        counters (sb_metrics s) unknown_wire_fields
        + (case decoded wc e of None \<Rightarrow> 0 | Some (_, shape) \<Rightarrow> length (unknown_keys shape))
    \<and> counters (sb_metrics (feed_step wc s e)) upstream_messages =
        counters (sb_metrics s) upstream_messages + (case e of Received _ \<Rightarrow> 1 | _ \<Rightarrow> 0)"
proof -
  have slp: "feed_inv (sb_sleep s)" "sb_mailbox (sb_sleep s) = sb_mailbox s"
    "counters (sb_metrics (sb_sleep s)) unknown_wire_fields = counters (sb_metrics s) unknown_wire_fields"
    "counters (sb_metrics (sb_sleep s)) upstream_messages = counters (sb_metrics s) upstream_messages"
    using assms next_backoff_values [of "sb_backoff s"]
    by (auto simp: feed_inv_def sb_sleep_def sb_incr_def Let_def)
  have dec: "feed_inv (on_decoded r (sb_incr upstream_messages s))
      \<and> sb_mailbox (on_decoded r (sb_incr upstream_messages s)) =
          sb_mailbox s @ (case res_ok r of None \<Rightarrow> [] | Some (fb, _) \<Rightarrow> [fb])
      \<and> counters (sb_metrics (on_decoded r (sb_incr upstream_messages s))) unknown_wire_fields =
          counters (sb_metrics s) unknown_wire_fields
          + (case res_ok r of None \<Rightarrow> 0 | Some (_, shape) \<Rightarrow> length (unknown_keys shape))
      \<and> counters (sb_metrics (on_decoded r (sb_incr upstream_messages s))) upstream_messages =
          counters (sb_metrics s) upstream_messages + 1" for r
  proof (cases r)
    case (Inl err)
    then show ?thesis using assms by (simp add: on_decoded_def sb_incr_def feed_inv_def)
  next
    case (Inr v)
    obtain fb shape where v: "v = (fb, shape)" by (cases v)
    obtain m w where rec: "record_wire_shape (increment upstream_messages (sb_metrics s))
        (sb_warned_keys s) shape = (m, w)" by fastforce
    from record_wire_shape_inv [OF rec] assms Inr v rec show ?thesis
      by (simp add: on_decoded_def sb_incr_def feed_inv_def)
  qed
  show ?thesis
  proof (cases e)
    case (Connect ok)
    then show ?thesis using assms slp
      by (cases ok) (simp_all add: feed_step_def on_connect_def decoded_def feed_inv_def)
  next
    case (PingTick ok)
    then show ?thesis using assms slp
      by (auto simp: feed_step_def on_ping_tick_def decoded_def feed_inv_def)
  next
    case (Received msg)
    show ?thesis
    proof (cases msg)
      case (Inl err)
      then show ?thesis using assms Received
        by (simp add: feed_step_def on_message_def decoded_def feed_inv_def sb_incr_def Let_def)
    next
      case (Inr ws)
      show ?thesis
      proof (cases ws)
        case (Binary bs)
        with dec [of "try_decode_message wc bs"] Received Inr show ?thesis
          by (simp add: feed_step_def on_message_def decoded_def)
      next
        case (Text bs)
        with dec [of "try_decode_plaintext_message wc bs"] Received Inr show ?thesis
          by (simp add: feed_step_def on_message_def decoded_def)
      qed (use assms Received Inr in
          \<open>simp_all add: feed_step_def on_message_def decoded_def feed_inv_def sb_incr_def Let_def\<close>)
    qed
  qed
qed

lemma subscriber_new_inv: "feed_inv subscriber_new"
  by (simp add: feed_inv_def subscriber_new_def metrics_default_def)

interpretation feed: transition_system "\<lambda>s. s = subscriber_new" "\<lambda>s t. \<exists>e. t = feed_step wc s e" feed_inv
  for wc
  by unfold_locales (use feed_step_effect subscriber_new_inv in blast)+

lemma run_feed_snoc: "run_feed wc (es @ [e]) = feed_step wc (run_feed wc es) e"
  by (simp add: run_feed_def)

lemma run_feed_reachable: "(\<lambda>s t. \<exists>e. t = feed_step wc s e)\<^sup>*\<^sup>* subscriber_new (run_feed wc es)"
proof (induction es rule: rev_induct)
  case (snoc e es)
  then show ?case unfolding run_feed_snoc by (rule rtranclp.rtrancl_into_rtrancl) blast
qed (simp add: run_feed_def)

lemma run_feed_inv: "feed_inv (run_feed wc es)"
  by (rule feed.reachable_inv [OF refl run_feed_reachable])

section \<open>The feed as a function of its history\<close>

text \<open>
  Something happened, and nothing has undone it since. Both conditions see the event and the
  events before it.
\<close>

definition since :: "('a list \<Rightarrow> 'a \<Rightarrow> bool) \<Rightarrow> ('a list \<Rightarrow> 'a \<Rightarrow> bool) \<Rightarrow> 'a list \<Rightarrow> bool" where
  "since happened undone es \<longleftrightarrow>
     (\<exists>us e vs. es = us @ e # vs \<and> happened us e
        \<and> (\<forall>ws x zs. vs = ws @ x # zs \<longrightarrow> \<not> undone (us @ e # ws) x))"

lemma since_Nil [simp]: "\<not> since h u []"
  by (simp add: since_def)

lemma since_snoc: "since h u (es @ [x]) \<longleftrightarrow> h es x \<or> since h u es \<and> \<not> u es x"
proof
  assume "since h u (es @ [x])"
  then obtain us e vs where v: "es @ [x] = us @ e # vs" "h us e"
    and n: "\<And>ws y zs. vs = ws @ y # zs \<Longrightarrow> \<not> u (us @ e # ws) y" unfolding since_def by blast
  show "h es x \<or> since h u es \<and> \<not> u es x"
  proof (cases vs rule: rev_cases)
    case Nil
    then show ?thesis using v by simp
  next
    case (snoc ws y)
    then have es: "es = us @ e # ws" "y = x" using v by (simp_all flip: append_assoc append_Cons)
    moreover have "\<not> u es x" using n [of ws y "[]"] snoc es by simp
    moreover have "since h u es"
      unfolding since_def using v(2) n snoc es by (metis append.assoc append_Cons)
    ultimately show ?thesis by blast
  qed
next
  assume "h es x \<or> since h u es \<and> \<not> u es x"
  then show "since h u (es @ [x])"
  proof (elim disjE conjE)
    assume "h es x"
    then show ?thesis unfolding since_def by (intro exI [of _ es] exI [of _ x] exI [of _ "[]"]) simp
  next
    assume s: "since h u es" and u: "\<not> u es x"
    obtain us e vs where v: "es = us @ e # vs" "h us e"
      and n: "\<And>ws y zs. vs = ws @ y # zs \<Longrightarrow> \<not> u (us @ e # ws) y" using s unfolding since_def by blast
    have "\<not> u (us @ e # ws) y" if "vs @ [x] = ws @ y # zs" for ws y zs
    proof (cases zs rule: rev_cases)
      case Nil
      then show ?thesis using that u v by simp
    next
      case (snoc zs' z)
      then have "vs = ws @ y # zs'" using that by (simp flip: append_assoc append_Cons)
      then show ?thesis by (rule n)
    qed
    then show ?thesis
      unfolding since_def using v by (intro exI [of _ us] exI [of _ e] exI [of _ "vs @ [x]"]) simp
  qed
qed

text \<open>Every event with the events before it.\<close>

definition with_history :: "'a list \<Rightarrow> ('a list \<times> 'a) list" where
  "with_history es = map (\<lambda>i. (take i es, es ! i)) [0..<length es]"

lemma with_history_Nil [simp]: "with_history [] = []"
  by (simp add: with_history_def)

lemma with_history_snoc [simp]: "with_history (es @ [e]) = with_history es @ [(es, e)]"
  by (simp add: with_history_def nth_append)

text \<open>
  A ping waits for its pong until one arrives or a new connection starts. The failures that
  make the task sleep: a refused connection, a tick of the ping interval while a pong is
  missing, a ping that cannot be sent. It pauses one second when it has not failed since it
  was last connected (or started), and two seconds otherwise. It is connected since it
  last connected unless the upstream closed, the stream failed or a ping did.
\<close>

definition awaits_pong :: "feed_event list \<Rightarrow> bool" where
  "awaits_pong = since (\<lambda>_ e. e = PingTick True)
     (\<lambda>_ e. e = Connect True \<or> (\<exists>bs. e = Received (Inr (Pong bs))))"

definition fails_at :: "feed_event list \<Rightarrow> feed_event \<Rightarrow> bool" where
  "fails_at us e \<longleftrightarrow> e = Connect False \<or> e = PingTick False \<or> e = PingTick True \<and> awaits_pong us"

definition pause_after :: "feed_event list \<Rightarrow> duration" where
  "pause_after us = (if since fails_at (\<lambda>_ e. e = Connect True) us then from_secs 2 else from_secs 1)"

definition stays_connected :: "feed_event list \<Rightarrow> bool" where
  "stays_connected = since (\<lambda>_ e. e = Connect True)
     (\<lambda>us e. (\<exists>err. e = Received (Inl err)) \<or> e = Received (Inr Close)
        \<or> (\<exists>ok. e = PingTick ok) \<and> fails_at us e)"

text \<open>The keys in the order in which they first appear.\<close>

definition firsts :: "'a list \<Rightarrow> 'a list" where
  "firsts xs = rev (remdups (rev xs))"

lemma firsts_snoc: "firsts (xs @ [x]) = (if x \<in> set xs then firsts xs else firsts xs @ [x])"
  by (simp add: firsts_def)

lemma warned_snoc:
  "take n (firsts (seen @ [k])) =
     (if length (take n (firsts seen)) < n \<and> k \<notin> set (take n (firsts seen))
      then take n (firsts seen) @ [k] else take n (firsts seen))"
proof (cases "length (firsts seen) < n")
  case True
  moreover have "set (firsts seen) = set seen" by (simp add: firsts_def)
  ultimately show ?thesis by (simp add: firsts_snoc)
next
  case False
  then show ?thesis by (simp add: firsts_snoc)
qed

lemma record_unknown_keys_exact:
  "record_unknown_keys keys m (take 64 (firsts seen)) = (m', w) \<Longrightarrow>
     w = take 64 (firsts (seen @ keys))
   \<and> counters m' = (counters m)(unknown_wire_fields := counters m unknown_wire_fields + length keys)"
proof (induction keys arbitrary: m seen)
  case (Cons k keys)
  have "record_unknown_keys keys (increment unknown_wire_fields m) (take 64 (firsts (seen @ [k]))) = (m', w)"
    using Cons.prems by (simp add: warned_snoc MAX_WARNED_UNKNOWN_KEYS_def)
  from Cons.IH [OF this] show ?case by (auto simp: increment_def)
qed (auto simp: fun_upd_idem)

text \<open>What the feed leaves behind, as a function of its history alone.\<close>

definition feed_count :: "wire_codec \<Rightarrow> feed_event list \<Rightarrow> counter \<Rightarrow> nat" where
  "feed_count wc es c =
     (let shapes = map snd (List.map_filter (decoded wc) es) in
      if c = upstream_messages then length (filter (\<lambda>e. \<exists>msg. e = Received msg) es)
      else if c = upstream_errors then length (filter (\<lambda>e. \<exists>err. e = Received (Inl err)) es)
      else if c = unknown_wire_fields then length (concat (map unknown_keys shapes))
      else if c = wire_slot_number_missing then length (filter base_without_slot_number shapes)
      else if c = wire_requests_missing then length (filter diff_without_requests shapes)
      else if c = reconnect_attempts then length (filter (\<lambda>(us, e). fails_at us e) (with_history es))
      else 0)"

definition feed_follows :: "wire_codec \<Rightarrow> feed_event list \<Rightarrow> subscriber \<Rightarrow> bool" where
  "feed_follows wc es s \<longleftrightarrow>
     sb_mailbox s = map fst (List.map_filter (decoded wc) es)
   \<and> counters (sb_metrics s) = feed_count wc es
   \<and> sb_slept s = map (\<lambda>(us, e). pause_after us) (filter (\<lambda>(us, e). fails_at us e) (with_history es))
   \<and> sb_backoff s = pause_after es
   \<and> sb_connected s = stays_connected es
   \<and> sb_awaiting_pong_resp s = awaits_pong es
   \<and> sb_warned_keys s =
       take 64 (firsts (concat (map (\<lambda>d. unknown_keys (snd d)) (List.map_filter (decoded wc) es))))"

lemma awaits_pong_snoc:
  "awaits_pong (es @ [e]) \<longleftrightarrow>
     e = PingTick True \<or> awaits_pong es \<and> e \<noteq> Connect True \<and> \<not> (\<exists>bs. e = Received (Inr (Pong bs)))"
  by (simp add: awaits_pong_def since_snoc)

lemma pause_after_snoc:
  "pause_after (es @ [e]) =
     (if fails_at es e then from_secs 2 else if e = Connect True then from_secs 1 else pause_after es)"
  by (simp add: pause_after_def since_snoc)

lemma stays_connected_snoc:
  "stays_connected (es @ [e]) \<longleftrightarrow> e = Connect True \<or> stays_connected es \<and>
     \<not> ((\<exists>err. e = Received (Inl err)) \<or> e = Received (Inr Close) \<or> (\<exists>ok. e = PingTick ok) \<and> fails_at es e)"
  by (simp add: stays_connected_def since_snoc)

lemma map_filter_snoc:
  "List.map_filter f (xs @ [x]) = List.map_filter f xs @ (case f x of None \<Rightarrow> [] | Some y \<Rightarrow> [y])"
  by (simp add: List.map_filter_def split: option.split)

lemma next_pause: "next_backoff (pause_after es) = from_secs 2"
  using next_backoff_values [of "pause_after es"] by (simp add: pause_after_def MAX_BACKOFF_def)

lemma feed_count_snoc:
  "feed_count wc (es @ [e]) c = feed_count wc es c +
     (if c = upstream_messages then of_bool (\<exists>msg. e = Received msg)
      else if c = upstream_errors then of_bool (\<exists>err. e = Received (Inl err))
      else if c = reconnect_attempts then of_bool (fails_at es e)
      else (case decoded wc e of
         None \<Rightarrow> 0
       | Some (_, shape) \<Rightarrow>
           if c = unknown_wire_fields then length (unknown_keys shape)
           else if c = wire_slot_number_missing then of_bool (base_without_slot_number shape)
           else if c = wire_requests_missing then of_bool (diff_without_requests shape) else 0))"
  by (cases "decoded wc e") (auto simp: feed_count_def Let_def map_filter_snoc)

lemmas history_snoc =
  awaits_pong_snoc pause_after_snoc stays_connected_snoc map_filter_snoc next_pause feed_count_snoc

lemma record_wire_shape_exact:
  assumes "record_wire_shape m (take 64 (firsts seen)) shape = (m', w)"
  shows "w = take 64 (firsts (seen @ unknown_keys shape))
    \<and> counters m' c = counters m c
        + (if c = unknown_wire_fields then length (unknown_keys shape)
           else if c = wire_slot_number_missing \<and> base_without_slot_number shape then 1
           else if c = wire_requests_missing \<and> diff_without_requests shape then 1 else 0)"
proof -
  obtain m1 w1 where r: "record_unknown_keys (unknown_keys shape) m (take 64 (firsts seen)) = (m1, w1)"
    by fastforce
  from record_unknown_keys_exact [OF r] r assms show ?thesis
    by (auto simp: record_wire_shape_def Let_def)
qed

text \<open>One event at a time: the failures, the messages that end or answer, and the decoded ones.\<close>

lemma follows_sleep:
  assumes "feed_follows wc es s" and "fails_at es e"
  shows "feed_follows wc (es @ [e])
    (case e of Connect _ \<Rightarrow> sb_sleep s | _ \<Rightarrow> (sb_sleep s)\<lparr>sb_connected := False\<rparr>)"
  using assms
  by (auto simp: feed_follows_def fails_at_def sb_sleep_def sb_incr_def history_snoc decoded_def fun_eq_iff)

lemma follows_quiet:
  assumes "feed_follows wc es s" and "e \<in> {Connect True, PingTick True}" and "\<not> fails_at es e"
  shows "feed_follows wc (es @ [e]) (feed_step wc s e)"
  using assms
  by (auto simp: feed_follows_def fails_at_def feed_step_def on_connect_def on_ping_tick_def
      history_snoc decoded_def fun_eq_iff)

lemma follows_decoded:
  assumes "feed_follows wc es s" and "decoded wc (Received msg) = res_ok r"
    and "msg = Inr (Binary bs) \<or> msg = Inr (Text bs)"
  shows "feed_follows wc (es @ [Received msg]) (on_decoded r (sb_incr upstream_messages s))"
proof (cases r)
  case (Inl err)
  then show ?thesis
    using assms
    by (auto simp: feed_follows_def fails_at_def on_decoded_def sb_incr_def history_snoc
        fun_eq_iff)
next
  case (Inr v)
  obtain fb shape where v: "v = (fb, shape)" by (cases v)
  let ?seen = "concat (map (\<lambda>d. unknown_keys (snd d)) (List.map_filter (decoded wc) es))"
  obtain m w where rec: "record_wire_shape (increment upstream_messages (sb_metrics s))
      (take 64 (firsts ?seen)) shape = (m, w)" by fastforce
  have "sb_warned_keys s = take 64 (firsts ?seen)" using assms(1) by (simp add: feed_follows_def)
  then have d: "on_decoded r (sb_incr upstream_messages s) =
      s\<lparr>sb_metrics := m, sb_warned_keys := w, sb_mailbox := sb_mailbox s @ [fb]\<rparr>"
    using rec by (simp add: on_decoded_def Inr v sb_incr_def)
  have c: "counters m = feed_count wc (es @ [Received msg])"
  proof
    fix c
    show "counters m c = feed_count wc (es @ [Received msg]) c"
      using record_wire_shape_exact [OF rec, of c] assms
      by (auto simp: feed_follows_def fails_at_def Inr v history_snoc)
  qed
  show ?thesis
    unfolding d using assms record_wire_shape_exact [OF rec] c
    by (auto simp: feed_follows_def fails_at_def Inr v history_snoc)
qed

lemma follows_other:
  assumes "feed_follows wc es s" and "\<And>bs. msg \<noteq> Inr (Binary bs)" "\<And>bs. msg \<noteq> Inr (Text bs)"
  shows "feed_follows wc (es @ [Received msg]) (on_message wc msg s)"
proof -
  have n: "decoded wc (Received msg) = None" "\<not> fails_at es (Received msg)"
    using assms(2,3) by (auto simp: decoded_def fails_at_def split: sum.split Message.split)
  note f = assms(1) [unfolded feed_follows_def]
  have c: "counters (sb_metrics s) c = feed_count wc es c" for c using f by simp
  show ?thesis
  proof (cases msg)
    case (Inl err)
    then show ?thesis using f n c by (auto simp: feed_follows_def on_message_def sb_incr_def history_snoc)
  next
    case (Inr ws)
    show ?thesis
      using f n c assms(2,3) by (cases ws) (auto simp: Inr feed_follows_def on_message_def sb_incr_def history_snoc)
  qed
qed

lemma follows_step:
  assumes "feed_follows wc es s"
  shows "feed_follows wc (es @ [e]) (feed_step wc s e)"
proof (cases e)
  case (Connect ok)
  then show ?thesis
    using follows_sleep [OF assms, of e] follows_quiet [OF assms, of e]
    by (cases ok) (auto simp: fails_at_def feed_step_def on_connect_def)
next
  case (PingTick ok)
  have "sb_awaiting_pong_resp s = awaits_pong es" using assms by (simp add: feed_follows_def)
  with PingTick show ?thesis
    using follows_sleep [OF assms, of e] follows_quiet [OF assms, of e]
    by (cases ok; cases "awaits_pong es") (auto simp: fails_at_def feed_step_def on_ping_tick_def)
next
  case (Received msg)
  consider bs where "msg = Inr (Binary bs)" | bs where "msg = Inr (Text bs)"
    | "\<And>bs. msg \<noteq> Inr (Binary bs)" "\<And>bs. msg \<noteq> Inr (Text bs)" by blast
  then show ?thesis
  proof cases
    case (1 bs)
    then show ?thesis
      using follows_decoded [OF assms, of msg "try_decode_message wc bs" bs] Received
      by (simp add: decoded_def feed_step_def on_message_def)
  next
    case (2 bs)
    then show ?thesis
      using follows_decoded [OF assms, of msg "try_decode_plaintext_message wc bs" bs] Received
      by (simp add: decoded_def feed_step_def on_message_def)
  next
    case 3
    then show ?thesis using follows_other [OF assms] Received by (simp add: feed_step_def)
  qed
qed

lemma run_feed_follows: "feed_follows wc es (run_feed wc es)"
proof (induction es rule: rev_induct)
  case Nil
  show ?case
    by (simp add: feed_follows_def run_feed_def subscriber_new_def metrics_default_def feed_count_def
        pause_after_def stays_connected_def awaits_pong_def firsts_def List.map_filter_simps fun_eq_iff)
next
  case (snoc e es)
  then show ?case unfolding run_feed_snoc by (rule follows_step)
qed

text \<open>
  C23. The feed is a function of what happened to it. Whatever the upstream sends and however
  connecting, reading and pinging go, the mailbox holds exactly the flashblocks of the
  decodable messages, in order; the counters are exact, each of them: the messages, the
  stream errors, the keys the node does not read, the bases without a slot number, the diffs
  without requests and the failures, and no other counter moves; the task sleeps exactly at
  the failures, which are a refused connection, a tick that finds the last pong missing and
  a ping that cannot be sent, for one second when it has not failed since it was last
  connected and for two seconds otherwise; it is connected exactly when no close, error or
  failure followed its last connection, and expects a pong exactly when neither a pong nor a
  new connection followed the last ping; and it has warned about the first 64 distinct
  unknown keys, in the order they came.
\<close>

theorem feed_delivers:
  fixes wc :: wire_codec and es :: "feed_event list"
  defines "s \<equiv> run_feed wc es" and "messages \<equiv> List.map_filter (decoded wc) es"
    and "failures \<equiv> filter (\<lambda>(us, e). fails_at us e) (with_history es)"
  shows "sb_mailbox s = map fst messages
   \<and> counters (sb_metrics s) c =
       (case c of
          upstream_messages \<Rightarrow> length (filter (\<lambda>e. \<exists>msg. e = Received msg) es)
        | upstream_errors \<Rightarrow> length (filter (\<lambda>e. \<exists>err. e = Received (Inl err)) es)
        | unknown_wire_fields \<Rightarrow> length (concat (map (unknown_keys \<circ> snd) messages))
        | wire_slot_number_missing \<Rightarrow> length (filter (base_without_slot_number \<circ> snd) messages)
        | wire_requests_missing \<Rightarrow> length (filter (diff_without_requests \<circ> snd) messages)
        | reconnect_attempts \<Rightarrow> length failures
        | _ \<Rightarrow> 0)
   \<and> sb_slept s = map (\<lambda>(us, e). pause_after us) failures
   \<and> sb_backoff s = pause_after es
   \<and> sb_connected s = stays_connected es
   \<and> sb_awaiting_pong_resp s = awaits_pong es
   \<and> sb_warned_keys s = take 64 (firsts (concat (map (unknown_keys \<circ> snd) messages)))"
proof -
  note f = run_feed_follows [of wc es, unfolded feed_follows_def, folded s_def messages_def failures_def]
  have "counters (sb_metrics s) c = feed_count wc es c" using f by simp
  then show ?thesis
    using f by (cases c)
      (simp_all add: feed_count_def Let_def comp_def filter_map flip: messages_def failures_def)
qed

text \<open>
  A binary message is decoded exactly when its text, the message itself when that is UTF-8
  starting with a brace and what brotli reads from it otherwise, has at most 5 MiB, is valid
  UTF-8 and parses as JSON, as a payload and as metadata; the flashblock takes its fields
  from the payload and the metadata.
\<close>

theorem decode_exact:
  "try_decode_message wc bs = Inr (fb, shape) \<longleftrightarrow>
     (\<exists>payload_text value payload md.
        (if (\<exists>cs. utf8_chars bs = Some cs \<and> starts_with_brace cs) then payload_text = bs
         else wc_brotli wc bs (MAX_DECODED_FLASHBLOCK_BYTES + 1) = Inr payload_text)
      \<and> length payload_text \<le> 5242880 \<and> utf8_chars payload_text \<noteq> None
      \<and> wc_from_str wc payload_text = Inr value \<and> wc_payload wc value = Inr payload
      \<and> wc_metadata wc (pv_metadata payload) = Inr md
      \<and> fb = \<lparr>fb_payload_id = pv_payload_id payload, fb_index = pv_index payload,
             fb_base = pv_base payload, fb_diff = pv_diff payload, fb_metadata = md\<rparr>
      \<and> shape = wire_shape_of value)"
proof -
  have parsed: "parse_flashblock_json wc payload_text = Inr (fb, shape) \<longleftrightarrow>
      (\<exists>value payload md. wc_from_str wc payload_text = Inr value \<and> wc_payload wc value = Inr payload
        \<and> wc_metadata wc (pv_metadata payload) = Inr md
        \<and> fb = \<lparr>fb_payload_id = pv_payload_id payload, fb_index = pv_index payload,
             fb_base = pv_base payload, fb_diff = pv_diff payload, fb_metadata = md\<rparr>
        \<and> shape = wire_shape_of value)" for payload_text
    by (auto simp: parse_flashblock_json_def res_bind_eq_Inr Let_def)
  have body: "try_parse_message wc bs = Inr payload_text \<longleftrightarrow>
      (if (\<exists>cs. utf8_chars bs = Some cs \<and> starts_with_brace cs) then payload_text = bs
       else wc_brotli wc bs (MAX_DECODED_FLASHBLOCK_BYTES + 1) = Inr payload_text)
      \<and> length payload_text \<le> 5242880 \<and> utf8_chars payload_text \<noteq> None" for payload_text
    by (auto simp: try_parse_message_def res_bind_eq_Inr ensure_within_size_limit_def
        MAX_DECODED_FLASHBLOCK_BYTES_def split: option.splits if_splits)
  show ?thesis
    unfolding try_decode_message_def res_bind_eq_Inr body parsed by blast
qed

definition is_pong :: "string + Message \<Rightarrow> bool" where
  "is_pong msg = (case msg of Inr (Pong _) \<Rightarrow> True | _ \<Rightarrow> False)"

lemma awaiting_kept:
  "sb_awaiting_pong_resp s \<Longrightarrow> \<not> is_pong msg \<Longrightarrow> sb_awaiting_pong_resp (on_message wc msg s)"
  by (auto simp: on_message_def is_pong_def on_decoded_def sb_incr_def Let_def
      split: sum.splits Message.splits prod.splits)

lemma awaiting_kept_run:
  "sb_awaiting_pong_resp s \<Longrightarrow> \<forall>msg \<in> set msgs. \<not> is_pong msg \<Longrightarrow>
     sb_awaiting_pong_resp (foldl (feed_step wc) s (map Received msgs))"
  by (induction msgs arbitrary: s) (simp_all add: feed_step_def awaiting_kept)

text \<open>
  C24. A silent upstream is left: when no pong arrives between two ticks of the ping interval
  the second one sleeps for the backoff and drops the connection, whatever other messages
  arrived; after a pong the next tick keeps the connection as long as the ping can be sent.
\<close>

theorem silent_upstream_left:
  assumes "\<not> sb_awaiting_pong_resp s" and "\<forall>msg \<in> set msgs. \<not> is_pong msg"
  shows "let s1 = foldl (feed_step wc) (feed_step wc s (PingTick True)) (map Received msgs);
             s2 = feed_step wc s1 (PingTick ok);
             s3 = feed_step wc (feed_step wc s1 (Received (Inr (Pong bs)))) (PingTick True)
         in \<not> sb_connected s2 \<and> sb_slept s2 = sb_slept s1 @ [sb_backoff s1]
            \<and> sb_connected s3 = sb_connected s1 \<and> sb_slept s3 = sb_slept s1"
proof -
  have "sb_awaiting_pong_resp
      (foldl (feed_step wc) (feed_step wc s (PingTick True)) (map Received msgs))"
    using assms by (intro awaiting_kept_run) (simp_all add: feed_step_def on_ping_tick_def)
  then show ?thesis
    unfolding Let_def
    by (simp add: feed_step_def [of _ _ "PingTick _"] feed_step_def [of _ _ "Received _"]
        on_ping_tick_def on_message_def sb_sleep_def sb_incr_def Let_def)
qed

definition no_codec :: wire_codec where
  "no_codec = \<lparr>wc_from_str = (\<lambda>_. Inl []), wc_payload = (\<lambda>_. Inl []),
     wc_metadata = (\<lambda>_. Inl []), wc_brotli = (\<lambda>_ _. Inl [])\<rparr>"

theorem silent_upstream_left_witness:
  "\<not> sb_connected (feed_step no_codec
       (feed_step no_codec (subscriber_new\<lparr>sb_connected := True\<rparr>) (PingTick True)) (PingTick True))"
  using silent_upstream_left [of "subscriber_new\<lparr>sb_connected := True\<rparr>" "[]" no_codec True "[]"]
  by (simp add: subscriber_new_def Let_def)

end
