(* ===== verification/Payment.thy ===== *)
theory Payment
  imports Prelude
begin

text \<open>
  The proposer payment shapes of the simulator (\<open>payment.rs\<close>): the forwarder's calldata and
  the packed payload of a Safe \<open>multiSend\<close>. The ABI decoders that \<open>sol!\<close> generates are
  parameters.
\<close>

section \<open>Big-endian integers\<close>

definition be_nat :: "bytes \<Rightarrow> nat" where
  "be_nat bs = foldl (\<lambda>n b. n * 256 + unat b) 0 bs"

definition from_be :: "bytes \<Rightarrow> 'a::len word" where
  "from_be bs = word_of_nat (be_nat bs)"

fun to_be_nat :: "nat \<Rightarrow> nat \<Rightarrow> bytes" where
  "to_be_nat 0 n = []"
| "to_be_nat (Suc k) n = to_be_nat k (n div 256) @ [word_of_nat (n mod 256)]"

definition to_be :: "nat \<Rightarrow> 'a::len word \<Rightarrow> bytes" where
  "to_be k w = to_be_nat k (unat w)"

lemma length_to_be_nat [simp]: "length (to_be_nat k n) = k"
  by (induction k arbitrary: n) simp_all

lemma length_to_be [simp]: "length (to_be k w) = k"
  by (simp add: to_be_def)

lemma be_nat_snoc: "be_nat (bs @ [b]) = be_nat bs * 256 + unat b"
  by (simp add: be_nat_def)

lemma be_nat_to_be_nat: "n < 256 ^ k \<Longrightarrow> be_nat (to_be_nat k n) = n"
proof (induction k arbitrary: n)
  case 0
  then show ?case by (simp add: be_nat_def)
next
  case (Suc k)
  then have "n div 256 < 256 ^ k" by (simp add: less_mult_imp_div_less mult.commute)
  then have "be_nat (to_be_nat k (n div 256)) = n div 256" by (rule Suc.IH)
  moreover have "unat (word_of_nat (n mod 256) :: u8) = n mod 256"
    by (simp add: unat_of_nat)
  ultimately show ?case by (simp add: be_nat_snoc)
qed

lemma from_be_to_be:
  fixes w :: "'a::len word"
  assumes "2 ^ LENGTH('a) \<le> (256 :: nat) ^ k"
  shows "from_be (to_be k w) = w"
proof -
  have "unat w < 256 ^ k" using assms unsigned_less [of w] by (metis order_less_le_trans)
  then show ?thesis by (simp add: from_be_def to_be_def be_nat_to_be_nat)
qed

section \<open>The payment forwarder\<close>

definition PAYMENT_FORWARDER :: address where
  "PAYMENT_FORWARDER = 0xFEEEEEE44046c3f61a8CC081E0918eF0de0a7ffC"

definition PAYMENT_FORWARDER_CODE_HASH :: b256 where
  "PAYMENT_FORWARDER_CODE_HASH = 0xd9f5db49d3c0a174c39701485406cd78d01dd27f73b7ef7b883e5f69d8103220"

definition payment_forwarder_recipient :: "bytes \<Rightarrow> address option" where
  "payment_forwarder_recipient input =
     (if length input \<ge> 24 then Some (from_be (take 20 (drop 4 input))) else None)"

section \<open>multiSend\<close>

record execTransactionCall =
  ex_operation :: u8
  ex_data :: bytes

record abi =
  abi_exec_transaction :: "bytes \<Rightarrow> execTransactionCall option"
  abi_multi_send :: "bytes \<Rightarrow> bytes option"

definition SAFE_DELEGATECALL :: u8 where
  "SAFE_DELEGATECALL = 1"

definition ENTRY_HEADER_LEN :: nat where
  "ENTRY_HEADER_LEN = 1 + 20 + 32 + 32"

text \<open>
  One call of the iterator's closure: the entry at \<open>offset\<close> and the offset after it. The
  length is a \<open>U256\<close> that must fit a 64 bit \<open>usize\<close>.
\<close>

definition multisend_next :: "bytes \<Rightarrow> nat \<Rightarrow> ((address \<times> u256) \<times> nat) option" where
  "multisend_next transactions offset =
     (if length transactions - offset < ENTRY_HEADER_LEN then None
      else
        (let to = from_be (take 20 (drop (offset + 1) transactions));
             value = from_be (take 32 (drop (offset + 21) transactions));
             data_len = unat (from_be (take 32 (drop (offset + 53) transactions)) :: u256)
         in if data_len \<ge> 2 ^ 64 then None
            else if length transactions - (offset + 85) < data_len then None
            else Some ((to, value), offset + 85 + data_len)))"

lemma multisend_next_progress:
  "multisend_next t n = Some (e, n') \<Longrightarrow> n < n' \<and> n + 85 \<le> length t"
  by (auto simp: multisend_next_def ENTRY_HEADER_LEN_def Let_def split: if_splits)

text \<open>The entries up to the first \<open>None\<close>, which is where \<open>fold\<close> stops.\<close>

function multisend_from :: "bytes \<Rightarrow> nat \<Rightarrow> (address \<times> u256) list" where
  "multisend_from t n =
     (case multisend_next t n of None \<Rightarrow> [] | Some (e, n') \<Rightarrow> e # multisend_from t n')"
  by pat_completeness auto
termination
  by (relation "measure (\<lambda>(t, n). length t - n)") (auto dest: multisend_next_progress)

declare multisend_from.simps [simp del]

definition multisend_entries :: "bytes \<Rightarrow> (address \<times> u256) list" where
  "multisend_entries transactions = multisend_from transactions 0"

definition multisend_paid_amount :: "abi \<Rightarrow> bytes \<Rightarrow> address \<Rightarrow> u256" where
  "multisend_paid_amount abi input recipient =
     (case abi_exec_transaction abi input of
        None \<Rightarrow> 0
      | Some exec \<Rightarrow>
          if ex_operation exec \<noteq> SAFE_DELEGATECALL then 0
          else
            (case abi_multi_send abi (ex_data exec) of
               None \<Rightarrow> 0
             | Some transactions \<Rightarrow>
                 foldl (\<lambda>acc (_, value). acc + value) 0
                   (filter (\<lambda>(to, _). to = recipient) (multisend_entries transactions))))"

section \<open>Reading back a packed payload\<close>

text \<open>An entry as the Safe packs it: operation, recipient, value, length of the data, data.\<close>

record packed_call =
  pc_operation :: u8
  pc_to :: address
  pc_value :: u256
  pc_data :: bytes

definition pack :: "packed_call \<Rightarrow> bytes" where
  "pack c = pc_operation c # to_be 20 (pc_to c) @ to_be 32 (pc_value c)
     @ to_be 32 (word_of_nat (length (pc_data c)) :: u256) @ pc_data c"

lemma length_pack [simp]: "length (pack c) = 85 + length (pc_data c)"
  by (simp add: pack_def)

lemma multisend_next_pack:
  assumes "length (pc_data c) < 2 ^ 64"
  shows "multisend_next (pre @ pack c @ rest) (length pre) =
    Some ((pc_to c, pc_value c), length (pre @ pack c))"
proof -
  let ?t = "pre @ pack c @ rest"
  have to: "take 20 (drop (length pre + 1) ?t) = to_be 20 (pc_to c)" by (simp add: pack_def)
  have val: "take 32 (drop (length pre + 21) ?t) = to_be 32 (pc_value c)" by (simp add: pack_def)
  have len: "take 32 (drop (length pre + 53) ?t) = to_be 32 (word_of_nat (length (pc_data c)) :: u256)"
    by (simp add: pack_def)
  have "(from_be (to_be 20 (pc_to c)) :: address) = pc_to c" by (rule from_be_to_be) simp
  moreover have "(from_be (to_be 32 (pc_value c)) :: u256) = pc_value c" by (rule from_be_to_be) simp
  moreover have "(from_be (to_be 32 (word_of_nat (length (pc_data c)) :: u256)) :: u256) =
      word_of_nat (length (pc_data c))" by (rule from_be_to_be) simp
  moreover have "unat (word_of_nat (length (pc_data c)) :: u256) = length (pc_data c)"
    using assms by (simp add: unat_of_nat)
  ultimately show ?thesis
    using assms by (simp only: multisend_next_def to val len Let_def) (simp add: ENTRY_HEADER_LEN_def)
qed

lemma multisend_from_pack:
  assumes "\<forall>c \<in> set cs. length (pc_data c) < 2 ^ 64" "length rest < 85"
  shows "multisend_from (pre @ concat (map pack cs) @ rest) (length pre) =
    map (\<lambda>c. (pc_to c, pc_value c)) cs"
  using assms(1)
proof (induction cs arbitrary: pre)
  case Nil
  have "multisend_next (pre @ rest) (length pre) = None"
    using assms(2) by (simp add: multisend_next_def ENTRY_HEADER_LEN_def)
  then show ?case by (subst multisend_from.simps) simp
next
  case (Cons c cs)
  have "multisend_from ((pre @ pack c) @ concat (map pack cs) @ rest) (length (pre @ pack c)) =
      map (\<lambda>c. (pc_to c, pc_value c)) cs"
    using Cons.prems by (intro Cons.IH) simp
  moreover have "multisend_next (pre @ pack c @ concat (map pack cs) @ rest) (length pre) =
      Some ((pc_to c, pc_value c), length (pre @ pack c))"
    using Cons.prems by (intro multisend_next_pack) simp
  ultimately show ?case
    by (subst multisend_from.simps) (simp del: length_append)
qed

text \<open>
  C34. The entries of a packed \<open>multiSend\<close> payload are read back, in order and whatever follows
  them that is too short for an entry, so a delegatecall of it pays a recipient the sum of
  the values sent to it, modulo the width of the value.
\<close>

theorem multisend_roundtrip:
  assumes "\<forall>c \<in> set cs. length (pc_data c) < 2 ^ 64" and "length rest < 85"
    and "abi_exec_transaction abi input = Some exec" and "ex_operation exec = 1"
    and "abi_multi_send abi (ex_data exec) = Some (concat (map pack cs) @ rest)"
  shows "multisend_entries (concat (map pack cs) @ rest) = map (\<lambda>c. (pc_to c, pc_value c)) cs
    \<and> multisend_paid_amount abi input recipient =
        (\<Sum>c \<leftarrow> cs. if pc_to c = recipient then pc_value c else 0)"
proof -
  have entries: "multisend_entries (concat (map pack cs) @ rest) = map (\<lambda>c. (pc_to c, pc_value c)) cs"
    using multisend_from_pack [OF assms(1,2), of "[]"] by (simp add: multisend_entries_def)
  have "foldl (\<lambda>acc (_, value). acc + value) a
        (filter (\<lambda>(to, _). to = recipient) (map (\<lambda>c. (pc_to c, pc_value c)) cs)) =
      a + (\<Sum>c \<leftarrow> cs. if pc_to c = recipient then pc_value c else 0)" for a :: u256
    by (induction cs arbitrary: a) (simp_all add: add.assoc)
  then show ?thesis
    using entries assms(3-5) by (simp add: multisend_paid_amount_def SAFE_DELEGATECALL_def)
qed

definition example_call :: packed_call where
  "example_call = \<lparr>pc_operation = 0, pc_to = 7, pc_value = 100, pc_data = [1, 2, 3]\<rparr>"

theorem multisend_roundtrip_witness:
  "multisend_paid_amount
     \<lparr>abi_exec_transaction = (\<lambda>_. Some \<lparr>ex_operation = 1, ex_data = []\<rparr>),
      abi_multi_send = (\<lambda>_. Some (concat (map pack [example_call, example_call]) @ [9]))\<rparr> [] 7 = 200"
  using multisend_roundtrip [of "[example_call, example_call]" "[9]"
      "\<lparr>abi_exec_transaction = (\<lambda>_. Some \<lparr>ex_operation = 1, ex_data = []\<rparr>),
        abi_multi_send = (\<lambda>_. Some (concat (map pack [example_call, example_call]) @ [9]))\<rparr>"
      "[]" "\<lparr>ex_operation = 1, ex_data = []\<rparr>" 7]
  by (simp add: example_call_def)

end
