(* ===== verification/BenchDriver.thy ===== *)
theory BenchDriver
  imports Sequencing Subscriber Payment
begin

text \<open>
  The load driver of \<open>flashblocks-node/examples/bench_driver.rs\<close>: the producer that builds the
  flashblocks of whole blocks and serves them, and the client that measures an RPC method.
  Signing, hashing, ABI encoding and JSON rendering are fields of \<open>bench_env\<close>; what the
  node, the clock and the sockets answer are arguments.
\<close>

section \<open>Accounts and transactions\<close>

text \<open>The funded accounts of the \<open>--dev\<close> chain.\<close>

definition DEV_KEYS :: "string list" where
  "DEV_KEYS = [
     ''ac0974bec39a17e36ba4a6b4d238ff944bacb478cbed5efcae784d7bf4f2ff80'',
     ''59c6995e998f97a5a0044966f0945389dc9e86dae88c7a8412f4603b6b78690d'',
     ''5de4111afa1a4b94908f83103eb1f1706367c2e68ca870fc3fb9a804cdab365a'',
     ''7c852118294e51e653712a81e05800f419141751be58f605c371e15141b007a6'',
     ''47e179ec197488593b187f80a00eb0da91f1b9d0b13f8733639f19c30a34926a'',
     ''8b3a350cf5c34c9194ca85829a2df0ec3153be0318b5e2d3348e872092edffba'',
     ''92db14e403b83dfe3df233f83dfa3a0d7096f21ca9b0d6d6b8d88b2b4ec1564e'',
     ''4bbbf85ce3377467afe5d46f804f221813b2bb87f24d81f60f1fcdbf7cbf4356'',
     ''dbda1821b80551c9d65939329250298aa3472ba22feea921c0cf5d620ea67b97'',
     ''2a871d0798f97d79848a013d4936a73bf4cc922c825d33c1cf7073dff6d409c6'',
     ''f214f2b2cd398c806f84e317254e0f0b801d0643303237d97a22a48e01628897'',
     ''701b615bbdfb9de65240bc28bd21bbc0d996645a3dd57e7b12bc2bdf6f192c82'',
     ''a267530f49f8280200edf313ee7af6b827f2a8bce2897751d06a843f644967b1'',
     ''47c99abed3324a2707c28affff1267e45918ec8c3f20b8aa892e8b065d2942dd'',
     ''c526ee95bf44d8fc405a158bb884d9d1238d99f0612e9f33d006bb0789009aaa'',
     ''8166f546bab6da521a8369cab06c5d2b9e46670292d85c875ee9ec20e84ffb61'',
     ''ea6c44ac03bff858b476bba40716402b03e41b8e97e276d1baec7c37d42484a0'',
     ''689af8efa8c651a91ad287602527f3af2fe9f6501a7ac4b061667b5a93e037fd'',
     ''de9be858da4a475276426320d5e9262ecfc3ba460bfac56360bfa6c4c28b4ee0'',
     ''df57089febbacf7ba0bc227dafbffa9fc08a93fdc68e1e42411a14efcf23656e'']"

definition SENDERS_PER_SET :: nat where "SENDERS_PER_SET = 9"
definition CALLER :: nat where "CALLER = 18"
definition DEPLOYER :: nat where "DEPLOYER = 19"
definition FLASHBLOCKS_PER_BLOCK :: nat where "FLASHBLOCKS_PER_BLOCK = 8"
definition FIRST_FLASHBLOCK_TXS :: nat where "FIRST_FLASHBLOCK_TXS = 127"
definition LATER_FLASHBLOCK_TXS :: nat where "LATER_FLASHBLOCK_TXS = 25"
definition SLOT_SECONDS :: u64 where "SLOT_SECONDS = 12"
definition ETH_TRANSFER_GAS :: u64 where "ETH_TRANSFER_GAS = 21000"
definition TOKEN_TRANSFER_GAS :: u64 where "TOKEN_TRANSFER_GAS = 60000"
definition TRANSFER_GAS_LIMIT :: u64 where "TRANSFER_GAS_LIMIT = 500000"

lemmas bench_constants =
  SENDERS_PER_SET_def CALLER_def DEPLOYER_def FLASHBLOCKS_PER_BLOCK_def FIRST_FLASHBLOCK_TXS_def
  LATER_FLASHBLOCK_TXS_def SLOT_SECONDS_def

record DevAccount =
  da_key :: b256
  da_address :: address

text \<open>
  What the driver sets on reth's \<open>TransactionBuilder\<close>; \<open>None\<close> as the recipient is
  \<open>TxKind::Create\<close>.
\<close>

record TransactionBuilder =
  tb_signer :: b256
  tb_chain_id :: u64
  tb_nonce :: u64
  tb_max_fee_per_gas :: u128
  tb_max_priority_fee_per_gas :: u128
  tb_to :: "address option"
  tb_value :: u256
  tb_gas_limit :: u64
  tb_input :: bytes

record bench_env =
  be_default_builder :: TransactionBuilder
  be_into_eip1559 :: "TransactionBuilder \<Rightarrow> TransactionSigned"
  be_recover_signer :: "TransactionSigned \<Rightarrow> address option"
  be_encoded_2718 :: "TransactionSigned \<Rightarrow> bytes"
  be_keccak256 :: "bytes \<Rightarrow> b256"
  be_parse_b256 :: "string \<Rightarrow> b256 option"
  be_create :: "address \<Rightarrow> u64 \<Rightarrow> address"
  be_transfer_call :: "address \<Rightarrow> u256 \<Rightarrow> bytes"
  be_mint_call :: "address \<Rightarrow> u256 \<Rightarrow> bytes"
  be_balance_of_call :: "address \<Rightarrow> bytes"
  be_deploy_code :: "string \<Rightarrow> string \<Rightarrow> u8 \<Rightarrow> bytes"
  be_transfer_signature :: b256
  be_to_string :: "FlashBlock \<Rightarrow> string + string"
  be_json_address :: "address \<Rightarrow> json"
  be_json_bytes :: "bytes \<Rightarrow> json"

definition dev_account :: "bench_env \<Rightarrow> string \<Rightarrow> DevAccount option" where
  "dev_account be hex =
     Option.bind (be_parse_b256 be hex) (\<lambda>key.
       map_option (\<lambda>a. \<lparr>da_key = key, da_address = a\<rparr>)
         (be_recover_signer be (be_into_eip1559 be
           ((be_default_builder be)\<lparr>tb_signer := key, tb_chain_id := 1\<rparr>))))"

text \<open>A key that does not parse or has no signer panics.\<close>

fun dev_accounts :: "bench_env \<Rightarrow> string list \<Rightarrow> DevAccount list option" where
  "dev_accounts be [] = Some []"
| "dev_accounts be (hex # keys) =
     (case dev_account be hex of
        None \<Rightarrow> None
      | Some a \<Rightarrow> map_option (Cons a) (dev_accounts be keys))"

lemma dev_accounts_length: "dev_accounts be keys = Some accounts \<Longrightarrow> length accounts = length keys"
  by (induction keys arbitrary: accounts) (auto split: option.splits)

text \<open>So the indices the driver uses are in range.\<close>

lemma dev_keys_accounts: "dev_accounts be DEV_KEYS = Some accounts \<Longrightarrow> length accounts = 20"
proof -
  have "length DEV_KEYS = 20" by (simp add: DEV_KEYS_def)
  then show "dev_accounts be DEV_KEYS = Some accounts \<Longrightarrow> ?thesis" by (auto dest: dev_accounts_length)
qed

definition sign :: "bench_env \<Rightarrow> DevAccount \<Rightarrow> u64 \<Rightarrow> u64 \<Rightarrow> TransactionBuilder" where
  "sign be account chain_id nonce =
     (be_default_builder be)\<lparr>tb_signer := da_key account, tb_chain_id := chain_id, tb_nonce := nonce,
        tb_max_fee_per_gas := 3000000000, tb_max_priority_fee_per_gas := 1000000000\<rparr>"

definition wire :: "bench_env \<Rightarrow> TransactionSigned \<Rightarrow> bytes" where
  "wire be tx = be_encoded_2718 be tx"

section \<open>The producer\<close>

record WireTx =
  wt_bytes :: bytes
  wt_hash :: b256
  wt_gas :: u64
  wt_logs :: "plog list"

record Producer =
  pr_chain_id :: u64
  pr_token :: address
  pr_accounts :: "DevAccount list"
  pr_canonical_nonces :: "u64 list"
  pr_next_nonces :: "u64 list"
  pr_issued :: u64

text \<open>\<open>Address::from_word\<close> keeps the low twenty bytes, \<open>into_word\<close> pads with zeroes.\<close>

definition from_word :: "b256 \<Rightarrow> address" where "from_word w = ucast w"
definition into_word :: "address \<Rightarrow> b256" where "into_word a = ucast a"

text \<open>The transfer of the transaction that is issued with the given number, nonce and sender.\<close>

definition transfer ::
    "bench_env \<Rightarrow> u64 \<Rightarrow> address \<Rightarrow> DevAccount \<Rightarrow> u64 \<Rightarrow> u64 \<Rightarrow> WireTx" where
  "transfer be chain_id token account nonce issued =
     (let recipient = from_word (be_keccak256 be (to_be 8 issued));
          builder = sign be account chain_id nonce;
          (tx, gas, logs) =
            (if unat issued mod 2 = 0 then
               (be_into_eip1559 be (builder\<lparr>tb_to := Some recipient, tb_value := 1000000000,
                  tb_gas_limit := TRANSFER_GAS_LIMIT\<rparr>), ETH_TRANSFER_GAS, [])
             else
               (let amount = 1000;
                    input = be_transfer_call be recipient amount;
                    log = \<lparr>log_address = token,
                      log_topics = [be_transfer_signature be, into_word (da_address account), into_word recipient],
                      log_data = to_be 32 amount\<rparr>
                in (be_into_eip1559 be (builder\<lparr>tb_to := Some token, tb_gas_limit := TRANSFER_GAS_LIMIT,
                      tb_input := input\<rparr>), TOKEN_TRANSFER_GAS, [log])))
      in \<lparr>wt_bytes = wire be tx, wt_hash = tx_hash tx, wt_gas = gas, wt_logs = logs\<rparr>)"

text \<open>\<open>Producer::transaction\<close>; an index past the accounts or the nonces panics.\<close>

definition transaction :: "bench_env \<Rightarrow> nat \<Rightarrow> Producer \<Rightarrow> (WireTx \<times> Producer) option" where
  "transaction be sender p =
     (if sender < length (pr_accounts p) \<and> sender < length (pr_next_nonces p) then
        (let issued = pr_issued p + 1;
             nonce = pr_next_nonces p ! sender
         in Some (transfer be (pr_chain_id p) (pr_token p) (pr_accounts p ! sender) nonce issued,
              p\<lparr>pr_issued := issued, pr_next_nonces := (pr_next_nonces p)[sender := nonce + 1]\<rparr>))
      else None)"

text \<open>The transactions of one flashblock, with the locals of \<open>block_flashblocks\<close> they share.\<close>

record filling =
  fl_producer :: Producer
  fl_turn :: nat
  fl_gas :: u64
  fl_transactions :: "bytes list"
  fl_receipts :: "b256 \<rightharpoonup> receipt"

fun fill :: "bench_env \<Rightarrow> nat \<Rightarrow> nat \<Rightarrow> filling \<Rightarrow> filling option" where
  "fill be first_sender 0 fl = Some fl"
| "fill be first_sender (Suc count) fl =
     (case transaction be (first_sender + fl_turn fl mod SENDERS_PER_SET) (fl_producer fl) of
        None \<Rightarrow> None
      | Some (tx, p) \<Rightarrow>
          (let cumulative_gas_used = fl_gas fl + wt_gas tx in
           fill be first_sender count
             \<lparr>fl_producer = p, fl_turn = fl_turn fl + 1, fl_gas = cumulative_gas_used,
              fl_transactions = fl_transactions fl @ [wt_bytes tx],
              fl_receipts = (fl_receipts fl)(wt_hash tx \<mapsto>
                \<lparr>rc_tx_type = 2, rc_success = True, rc_cumulative_gas_used = cumulative_gas_used,
                 rc_logs = wt_logs tx\<rparr>)\<rparr>))"

record block_args =
  ba_number :: u64
  ba_parent_hash :: b256
  ba_timestamp :: u64
  ba_gas_limit :: u64

definition bench_base :: "block_args \<Rightarrow> ExecutionPayloadBaseV1" where
  "bench_base ba =
     \<lparr>base_parent_beacon_block_root = 0, base_parent_hash = ba_parent_hash ba,
      base_fee_recipient = 0xfe, base_prev_randao = 1, base_block_number = ba_number ba,
      base_gas_limit = ba_gas_limit ba, base_timestamp = ba_timestamp ba, base_extra_data = [],
      base_base_fee_per_gas = 1000000000, base_slot_number = Some (ba_timestamp ba)\<rparr>"

definition bench_flashblock :: "block_args \<Rightarrow> nat \<Rightarrow> filling \<Rightarrow> FlashBlock" where
  "bench_flashblock ba index fl =
     \<lparr>fb_payload_id = 0, fb_index = word_of_nat index,
      fb_base = (if index = 0 then Some (bench_base ba) else None),
      fb_diff = default_diff\<lparr>diff_gas_used := fl_gas fl, diff_transactions := fl_transactions fl\<rparr>,
      fb_metadata = \<lparr>md_block_number = ba_number ba, md_new_account_balances = Map.empty,
        md_receipts = fl_receipts fl, md_inclusion_fee = None\<rparr>\<rparr>"

definition txs_in :: "nat \<Rightarrow> nat" where
  "txs_in index = (if index = 0 then FIRST_FLASHBLOCK_TXS else LATER_FLASHBLOCK_TXS)"

fun flashblocks_from ::
    "bench_env \<Rightarrow> block_args \<Rightarrow> nat \<Rightarrow> nat list \<Rightarrow> Producer \<times> nat \<times> u64 \<Rightarrow> (FlashBlock list \<times> Producer) option" where
  "flashblocks_from be ba first_sender [] (p, turn, gas) = Some ([], p)"
| "flashblocks_from be ba first_sender (index # rest) (p, turn, gas) =
     (case fill be first_sender (txs_in index)
             \<lparr>fl_producer = p, fl_turn = turn, fl_gas = gas, fl_transactions = [], fl_receipts = Map.empty\<rparr> of
        None \<Rightarrow> None
      | Some fl \<Rightarrow>
          map_option (\<lambda>(fbs, p'). (bench_flashblock ba index fl # fbs, p'))
            (flashblocks_from be ba first_sender rest (fl_producer fl, fl_turn fl, fl_gas fl)))"

definition block_flashblocks ::
    "bench_env \<Rightarrow> block_args \<Rightarrow> Producer \<Rightarrow> (FlashBlock list \<times> Producer) option" where
  "block_flashblocks be ba p =
     (let first_sender = (if unat (ba_number ba) mod 2 = 0 then 0 else SENDERS_PER_SET)
      in flashblocks_from be ba first_sender [0..<FLASHBLOCKS_PER_BLOCK] (p, 0, 0))"

text \<open>\<open>produce\<close>: what the node answers as its head, and the locals of the loop.\<close>

record chain_head =
  ch_number :: u64
  ch_hash :: b256
  ch_timestamp :: u64
  ch_gas_limit :: u64

record producing =
  pd_producer :: Producer
  pd_number :: u64
  pd_parent_hash :: b256
  pd_timestamp :: u64
  pd_sent_blocks :: u64
  pd_last_head :: u64

text \<open>Without \<open>--stall\<close> a round starts at a new head, with nonces from canonical again.\<close>

definition round_start ::
    "bool \<Rightarrow> string + chain_head \<Rightarrow> producing \<Rightarrow> string + producing option" where
  "round_start stall latest pd =
     (if stall then Inr (Some pd)
      else
        (case latest of
           Inl e \<Rightarrow> Inl e
         | Inr h \<Rightarrow>
             if ch_number h = pd_last_head pd then Inr None
             else Inr (Some (pd\<lparr>pd_last_head := ch_number h, pd_number := ch_number h,
                    pd_parent_hash := ch_hash h, pd_timestamp := ch_timestamp h,
                    pd_producer := (pd_producer pd)\<lparr>pr_next_nonces := pr_canonical_nonces (pd_producer pd)\<rparr>\<rparr>))))"

fun send_flashblocks :: "bench_env \<Rightarrow> FlashBlock list \<Rightarrow> string list \<times> (string + unit)" where
  "send_flashblocks be [] = ([], Inr ())"
| "send_flashblocks be (fb # fbs) =
     (case be_to_string be fb of
        Inl e \<Rightarrow> ([], Inl e)
      | Inr msg \<Rightarrow> (case send_flashblocks be fbs of (msgs, r) \<Rightarrow> (msg # msgs, r)))"

datatype outcome = Running producing | Finished | Failed string | Panicked

definition produce_round ::
    "bench_env \<Rightarrow> bool \<Rightarrow> u64 \<Rightarrow> string + chain_head \<Rightarrow> producing \<Rightarrow> string list \<times> outcome" where
  "produce_round be stall gas_limit latest pd =
     (case round_start stall latest pd of
        Inl e \<Rightarrow> ([], Failed e)
      | Inr None \<Rightarrow> ([], Running pd)
      | Inr (Some pd1) \<Rightarrow>
          (let block = pd_number pd1 + 1 in
           case block_flashblocks be \<lparr>ba_number = block, ba_parent_hash = pd_parent_hash pd1,
                  ba_timestamp = pd_timestamp pd1 + SLOT_SECONDS, ba_gas_limit = gas_limit\<rparr> (pd_producer pd1) of
             None \<Rightarrow> ([], Panicked)
           | Some (fbs, p) \<Rightarrow>
               (case send_flashblocks be fbs of
                  (msgs, Inl e) \<Rightarrow> (msgs, Failed e)
                | (msgs, Inr _) \<Rightarrow>
                    (let pd2 = pd1\<lparr>pd_producer := p, pd_sent_blocks := pd_sent_blocks pd1 + 1\<rparr>
                     in (msgs, Running
                       (if stall then pd2\<lparr>pd_number := block, pd_parent_hash := be_keccak256 be (to_be 8 block),
                                         pd_timestamp := pd_timestamp pd1 + SLOT_SECONDS\<rparr>
                        else pd2))))))"

text \<open>The loop, for as many rounds as heads are given; it may still be running after them.\<close>

fun produce_loop ::
    "bench_env \<Rightarrow> bool \<Rightarrow> u64 \<Rightarrow> u64 \<Rightarrow> (string + chain_head) list \<Rightarrow> producing \<Rightarrow> string list \<times> outcome" where
  "produce_loop be stall blocks gas_limit [] pd =
     ([], if pd_sent_blocks pd < blocks then Running pd else Finished)"
| "produce_loop be stall blocks gas_limit (latest # heads) pd =
     (if pd_sent_blocks pd < blocks then
        (case produce_round be stall gas_limit latest pd of
           (msgs, Running pd') \<Rightarrow>
             (case produce_loop be stall blocks gas_limit heads pd' of (rest, out) \<Rightarrow> (msgs @ rest, out))
         | (msgs, out) \<Rightarrow> (msgs, out))
      else ([], Finished))"

section \<open>Command line, deployment and serving\<close>

definition arg :: "string list \<Rightarrow> string \<Rightarrow> string option" where
  "arg args name =
     (case dropWhile (\<lambda>a. a \<noteq> name) args of
        _ # value # _ \<Rightarrow> Some value
      | _ \<Rightarrow> None)"

definition flag :: "string list \<Rightarrow> string \<Rightarrow> bool" where
  "flag args name \<longleftrightarrow> name \<in> set args"

text \<open>The parser of the value's type is an argument; a value that does not parse is the default.\<close>

definition arg_or :: "(string \<Rightarrow> 'a option) \<Rightarrow> string list \<Rightarrow> string \<Rightarrow> 'a \<Rightarrow> 'a" where
  "arg_or parse args name otherwise =
     (case Option.bind (arg args name) parse of None \<Rightarrow> otherwise | Some v \<Rightarrow> v)"

definition address_arg ::
    "(string \<Rightarrow> string + address) \<Rightarrow> string list \<Rightarrow> string \<Rightarrow> address \<Rightarrow> string + address" where
  "address_arg parse args name otherwise =
     (case arg args name of
        None \<Rightarrow> Inr otherwise
      | Some value \<Rightarrow> map_err (\<lambda>err. name @ '': '' @ err) (parse value))"

text \<open>
  \<open>deploy_token\<close> on what the node answers: the deployer's nonce, the code at the token's
  address, the outcomes of the sends, and the polls as pairs of the nonce and whether the
  deadline has passed. \<open>None\<close> when the polls end before the loop does. The first component
  lists what was sent.
\<close>

fun send_raw :: "(bytes \<Rightarrow> string + unit) \<Rightarrow> bytes list \<Rightarrow> bytes list \<times> (string + unit)" where
  "send_raw submit [] = ([], Inr ())"
| "send_raw submit (tx # txs) =
     (case submit tx of
        Inl e \<Rightarrow> ([tx], Inl e)
      | Inr _ \<Rightarrow> (case send_raw submit txs of (sent, r) \<Rightarrow> (tx # sent, r)))"

fun await_mined :: "u64 \<Rightarrow> ((string + u64) \<times> bool) list \<Rightarrow> (string + unit) option" where
  "await_mined target [] = None"
| "await_mined target ((Inl e, late) # polls) = Some (Inl e)"
| "await_mined target ((Inr nonce, late) # polls) =
     (if \<not> nonce < target then Some (Inr ())
      else if late then Some (Inl ''the token deployment was not mined in 120 s'')
      else await_mined target polls)"

definition deployment :: "bench_env \<Rightarrow> DevAccount list \<Rightarrow> u64 \<Rightarrow> u64 \<Rightarrow> address \<Rightarrow> bytes list" where
  "deployment be accounts chain_id start token =
     (let deployer = accounts ! DEPLOYER in
      wire be (be_into_eip1559 be ((sign be deployer chain_id start)\<lparr>tb_gas_limit := 5000000,
        tb_input := be_deploy_code be ''Bench'' ''BNCH'' 18, tb_to := None\<rparr>))
      # map (\<lambda>i. wire be (be_into_eip1559 be ((sign be deployer chain_id (start + 1 + word_of_nat i))
          \<lparr>tb_to := Some token, tb_gas_limit := 200000,
           tb_input := be_mint_call be (da_address (accounts ! i)) (10 ^ 30)\<rparr>)))
          [0..<min (2 * SENDERS_PER_SET) (length accounts)])"

definition deploy_token ::
    "bench_env \<Rightarrow> DevAccount list \<Rightarrow> u64 \<Rightarrow> string + u64 \<Rightarrow> (address \<Rightarrow> string + bytes)
      \<Rightarrow> (bytes \<Rightarrow> string + unit) \<Rightarrow> ((string + u64) \<times> bool) list \<Rightarrow> bytes list \<times> (string + address) option" where
  "deploy_token be accounts chain_id nonce code_at submit polls =
     (case nonce of
        Inl e \<Rightarrow> ([], Some (Inl e))
      | Inr start \<Rightarrow>
          (let token = be_create be (da_address (accounts ! DEPLOYER)) start in
           case code_at token of
             Inl e \<Rightarrow> ([], Some (Inl e))
           | Inr code \<Rightarrow>
               if code \<noteq> [] then ([], Some (Inr token))
               else
                 (case send_raw submit (deployment be accounts chain_id start token) of
                    (sent, Inl e) \<Rightarrow> (sent, Some (Inl e))
                  | (sent, Inr _) \<Rightarrow>
                      (sent, map_option (\<lambda>r. res_bind r (\<lambda>_. Inr token))
                         (await_mined (start + 1 + 2 * word_of_nat SENDERS_PER_SET) polls)))))"

text \<open>
  The task of one subscriber in \<open>serve\<close>: what the broadcast gives or the flush timer does,
  each with whether the write succeeds. A lag skips messages and the task goes on.
\<close>

datatype serve_event = FeedMessage string bool | FeedLagged nat | FeedClosed | FlushTick bool

fun serve_subscriber :: "serve_event list \<Rightarrow> string list" where
  "serve_subscriber [] = []"
| "serve_subscriber (FeedMessage msg ok # events) = (if ok then msg # serve_subscriber events else [])"
| "serve_subscriber (FeedLagged _ # events) = serve_subscriber events"
| "serve_subscriber (FeedClosed # events) = []"
| "serve_subscriber (FlushTick ok # events) = (if ok then serve_subscriber events else [])"

section \<open>The RPC client\<close>

text \<open>
  \<open>((len - 1) as f64 * q).round() as usize\<close> is the argument \<open>at\<close>, a function of \<open>len - 1\<close>; an
  index past the end panics.
\<close>

definition quantile :: "u64 list \<Rightarrow> (nat \<Rightarrow> nat) \<Rightarrow> u64 option" where
  "quantile xs at =
     (if xs = [] then Some 0
      else if at (length xs - 1) < length xs then Some (xs ! at (length xs - 1))
      else None)"

definition call_object :: "bench_env \<Rightarrow> address \<Rightarrow> address \<Rightarrow> bytes \<Rightarrow> json" where
  "call_object be from to data =
     JObject [(''from'', be_json_address be from), (''to'', be_json_address be to), (''data'', be_json_bytes be data)]"

definition rpc_request ::
    "bench_env \<Rightarrow> string \<Rightarrow> string \<Rightarrow> address \<Rightarrow> address \<Rightarrow> address \<Rightarrow> string + string \<times> json" where
  "rpc_request be method tag token caller holder =
     (let transfer_one = call_object be holder token (be_transfer_call be caller 1);
          tag_value = JString tag
      in
      if method = ''call'' then
        Inr (''eth_call'', JArray [call_object be caller token (be_balance_of_call be holder), tag_value])
      else if method = ''estimate'' then Inr (''eth_estimateGas'', JArray [transfer_one, tag_value])
      else if method = ''simulate'' then
        Inr (''eth_simulateV1'', JArray [JObject [(''blockStateCalls'',
          JArray [JObject [(''calls'', JArray [transfer_one])]])], tag_value])
      else if method = ''balance'' then Inr (''eth_getBalance'', JArray [be_json_address be holder, tag_value])
      else if method = ''nonce'' then Inr (''eth_getTransactionCount'', JArray [be_json_address be holder, tag_value])
      else if method = ''logs'' then
        Inr (''eth_getLogs'', JArray [JObject [(''fromBlock'', tag_value), (''toBlock'', tag_value),
          (''address'', be_json_address be token)]])
      else if method = ''block'' then Inr (''eth_getBlockByNumber'', JArray [tag_value, JBool False])
      else Inl (''unknown method '' @ method))"

text \<open>The items of the first answer: an array, or the transactions of a block.\<close>

definition items_of :: "json \<Rightarrow> nat" where
  "items_of answer =
     (case answer of
        JArray xs \<Rightarrow> length xs
      | _ \<Rightarrow> (case json_get answer ''transactions'' of Some (JArray xs) \<Rightarrow> length xs | _ \<Rightarrow> 0))"

text \<open>A worker: per round whether the deadline is still ahead, the latency and whether the call failed.\<close>

fun rpc_worker :: "(bool \<times> u64 \<times> bool) list \<Rightarrow> u64 list \<times> nat" where
  "rpc_worker [] = ([], 0)"
| "rpc_worker ((before, latency, failed) # rounds) =
     (if before then
        (case rpc_worker rounds of (ls, errors) \<Rightarrow> (latency # ls, if failed then Suc errors else errors))
      else ([], 0))"

record summary =
  sm_requests :: nat
  sm_errors :: nat
  sm_quantiles :: "u64 option list"
  sm_max :: u64

definition rpc_summary :: "(nat \<Rightarrow> nat) list \<Rightarrow> (bool \<times> u64 \<times> bool) list list \<Rightarrow> summary" where
  "rpc_summary ats workers =
     (let results = map rpc_worker workers;
          latencies = sort (concat (map fst results))
      in \<lparr>sm_requests = length latencies, sm_errors = sum_list (map snd results),
          sm_quantiles = map (quantile latencies) ats,
          sm_max = (if latencies = [] then 0 else last latencies)\<rparr>)"

section \<open>A block in closed form\<close>

text \<open>How often a sender has had its turn among the first \<open>t\<close> of a block.\<close>

definition turns_of :: "nat \<Rightarrow> nat \<Rightarrow> nat \<Rightarrow> nat" where
  "turns_of first_sender sender t =
     (if first_sender \<le> sender \<and> sender < first_sender + 9 then (t + 8 - (sender - first_sender)) div 9 else 0)"

text \<open>The transaction of turn \<open>t\<close> and the producer after \<open>t\<close> turns, from the producer before the block.\<close>

definition block_tx :: "bench_env \<Rightarrow> nat \<Rightarrow> Producer \<Rightarrow> nat \<Rightarrow> WireTx" where
  "block_tx be first_sender p t =
     (let sender = first_sender + t mod 9 in
      transfer be (pr_chain_id p) (pr_token p) (pr_accounts p ! sender)
        (pr_next_nonces p ! sender + word_of_nat (t div 9)) (pr_issued p + word_of_nat t + 1))"

definition producer_after :: "nat \<Rightarrow> Producer \<Rightarrow> nat \<Rightarrow> Producer" where
  "producer_after first_sender p t =
     p\<lparr>pr_issued := pr_issued p + word_of_nat t,
       pr_next_nonces := map (\<lambda>s. pr_next_nonces p ! s + word_of_nat (turns_of first_sender s t))
         [0..<length (pr_next_nonces p)]\<rparr>"

definition gas_upto :: "bench_env \<Rightarrow> nat \<Rightarrow> Producer \<Rightarrow> nat \<Rightarrow> u64" where
  "gas_upto be first_sender p t = (\<Sum>k<t. wt_gas (block_tx be first_sender p k))"

definition block_receipt :: "bench_env \<Rightarrow> nat \<Rightarrow> Producer \<Rightarrow> nat \<Rightarrow> receipt" where
  "block_receipt be first_sender p t =
     \<lparr>rc_tx_type = 2, rc_success = True, rc_cumulative_gas_used = gas_upto be first_sender p (Suc t),
      rc_logs = wt_logs (block_tx be first_sender p t)\<rparr>"

lemma turns_of_turn: "turns_of f (f + t mod 9) t = t div 9"
proof -
  have "t + 8 - t mod 9 = 9 * (t div 9) + 8" by presburger
  then show ?thesis by (simp add: turns_of_def)
qed

lemma div9_step:
  fixes r t :: nat
  assumes "r < 9"
  shows "(t + 9 - r) div 9 = (t + 8 - r) div 9 + (if r = t mod 9 then 1 else 0)"
proof -
  define q m where "q = t div 9" and "m = t mod 9"
  have t: "t = 9 * q + m" and m: "m < 9" by (simp_all add: q_def m_def)
  have d: "(t + c - r) div 9 = q + (m + c - r) div 9" if "r \<le> c" for c
  proof -
    have "t + c - r = 9 * q + (m + c - r)" using that t by simp
    then show ?thesis by simp
  qed
  consider "m < r" | "m = r" | "r < m" by linarith
  then have "(m + 9 - r) div 9 = (m + 8 - r) div 9 + (if r = m then 1 else 0)"
  proof cases
    case 3
    then have "(m + 9 - r) div 9 = 1" "(m + 8 - r) div 9 = 1" using m assms by (auto intro: div_nat_eqI)
    then show ?thesis using 3 by simp
  qed (use assms in auto)
  then show ?thesis using d [of 8] d [of 9] assms by (simp add: m_def)
qed

lemma turns_of_Suc: "turns_of f s (Suc t) = turns_of f s t + (if s = f + t mod 9 then 1 else 0)"
proof (cases "f \<le> s \<and> s < f + 9")
  case True
  then obtain r where r: "s = f + r" "r < 9" by (metis le_add_diff_inverse nat_add_left_cancel_less)
  have "Suc t + 8 = t + 9" by simp
  then have "(Suc t + 8 - r) div 9 = (t + 8 - r) div 9 + (if r = t mod 9 then 1 else 0)"
    using div9_step [OF r(2), of t] by metis
  then show ?thesis using r by (simp add: turns_of_def)
next
  case False
  moreover have "t mod 9 < 9" by simp
  ultimately have "s \<noteq> f + t mod 9" by linarith
  with False show ?thesis by (auto simp: turns_of_def)
qed

lemma turns_of_0 [simp]: "turns_of f s 0 = 0"
  by (auto simp: turns_of_def)

lemma producer_after_0 [simp]: "producer_after f p 0 = p"
  by (simp add: producer_after_def map_nth)

lemma transaction_turn:
  assumes "f + 9 \<le> length (pr_accounts p)" and "f + 9 \<le> length (pr_next_nonces p)"
  shows "transaction be (f + t mod 9) (producer_after f p t) = Some (block_tx be f p t, producer_after f p (Suc t))"
proof -
  let ?s = "f + t mod 9" and ?n = "pr_next_nonces p"
  have m: "t mod 9 < 9" by simp
  then have lt: "?s < length (pr_accounts p)" "?s < length ?n" using assms by linarith+
  let ?after = "\<lambda>t. map (\<lambda>s. ?n ! s + word_of_nat (turns_of f s t)) [0..<length ?n]"
  have "(?after t)[?s := ?n ! ?s + word_of_nat (t div 9) + 1] = ?after (Suc t)"
  proof (rule nth_equalityI)
    fix i assume "i < length ((?after t)[?s := ?n ! ?s + word_of_nat (t div 9) + 1])"
    then have "i < length ?n" by simp
    then show "(?after t)[?s := ?n ! ?s + word_of_nat (t div 9) + 1] ! i = ?after (Suc t) ! i"
      by (cases "i = ?s") (simp_all add: turns_of_turn turns_of_Suc)
  qed simp
  then show ?thesis
    using lt turns_of_turn [of f t]
    by (simp add: transaction_def producer_after_def block_tx_def Let_def add.assoc add.commute [of 1])
qed

text \<open>The receipts of the turns from \<open>t\<close> on, entered one by one.\<close>

definition enter_receipts ::
    "bench_env \<Rightarrow> nat \<Rightarrow> Producer \<Rightarrow> nat list \<Rightarrow> (b256 \<rightharpoonup> receipt) \<Rightarrow> (b256 \<rightharpoonup> receipt)" where
  "enter_receipts be f p ts m = foldl (\<lambda>m t. m(wt_hash (block_tx be f p t) \<mapsto> block_receipt be f p t)) m ts"

lemma enter_receipts_lookup:
  assumes "t \<in> set ts" and "inj_on (\<lambda>t. wt_hash (block_tx be f p t)) (set ts)" and "distinct ts"
  shows "enter_receipts be f p ts m (wt_hash (block_tx be f p t)) = Some (block_receipt be f p t)"
  using assms
proof (induction ts rule: rev_induct)
  case (snoc u ts)
  then show ?case
    by (cases "t = u") (auto simp: enter_receipts_def inj_on_def)
qed simp

definition filled :: "bench_env \<Rightarrow> nat \<Rightarrow> Producer \<Rightarrow> nat \<Rightarrow> bytes list \<Rightarrow> (b256 \<rightharpoonup> receipt) \<Rightarrow> filling" where
  "filled be f p t xs m = \<lparr>fl_producer = producer_after f p t, fl_turn = t, fl_gas = gas_upto be f p t,
     fl_transactions = xs, fl_receipts = m\<rparr>"

lemma fill_turns:
  assumes "f + 9 \<le> length (pr_accounts p)" and "f + 9 \<le> length (pr_next_nonces p)"
  shows "fill be f n (filled be f p t xs m) =
    Some (filled be f p (t + n) (xs @ map (\<lambda>t. wt_bytes (block_tx be f p t)) [t..<t + n])
      (enter_receipts be f p [t..<t + n] m))"
proof (induction n arbitrary: t xs m)
  case 0
  then show ?case by (simp add: enter_receipts_def)
next
  case (Suc n)
  have "fill be f (Suc n) (filled be f p t xs m) =
      fill be f n (filled be f p (Suc t) (xs @ [wt_bytes (block_tx be f p t)])
        (m(wt_hash (block_tx be f p t) \<mapsto> block_receipt be f p t)))"
    using transaction_turn [OF assms, of be t]
    by (simp add: filled_def SENDERS_PER_SET_def gas_upto_def block_receipt_def Let_def)
  also have "\<dots> = Some (filled be f p (t + Suc n) (xs @ map (\<lambda>t. wt_bytes (block_tx be f p t)) [t..<t + Suc n])
      (enter_receipts be f p [t..<t + Suc n] m))"
    by (subst Suc.IH) (simp add: enter_receipts_def upt_conv_Cons del: upt_Suc)
  finally show ?case .
qed

text \<open>The first turn of each flashblock of a block.\<close>

definition first_turn :: "nat \<Rightarrow> nat" where
  "first_turn i = (if i = 0 then 0 else 127 + 25 * (i - 1))"

lemma first_turn_Suc: "first_turn (Suc i) = first_turn i + txs_in i"
  by (cases i) (simp_all add: first_turn_def txs_in_def bench_constants)

definition block_flashblock :: "bench_env \<Rightarrow> block_args \<Rightarrow> nat \<Rightarrow> Producer \<Rightarrow> nat \<Rightarrow> FlashBlock" where
  "block_flashblock be ba f p i = bench_flashblock ba i (filled be f p (first_turn (Suc i))
     (map (\<lambda>t. wt_bytes (block_tx be f p t)) [first_turn i..<first_turn (Suc i)])
     (enter_receipts be f p [first_turn i..<first_turn (Suc i)] Map.empty))"

lemma flashblocks_from_turns:
  assumes "f + 9 \<le> length (pr_accounts p)" and "f + 9 \<le> length (pr_next_nonces p)"
  shows "flashblocks_from be ba f [i..<i + n] (producer_after f p (first_turn i), first_turn i, gas_upto be f p (first_turn i))
    = Some (map (block_flashblock be ba f p) [i..<i + n], producer_after f p (first_turn (i + n)))"
proof (induction n arbitrary: i)
  case (Suc n)
  have "fill be f (txs_in i) (filled be f p (first_turn i) [] Map.empty) =
      Some (filled be f p (first_turn (Suc i)) (map (\<lambda>t. wt_bytes (block_tx be f p t)) [first_turn i..<first_turn (Suc i)])
        (enter_receipts be f p [first_turn i..<first_turn (Suc i)] Map.empty))"
    using fill_turns [OF assms, of be "txs_in i" "first_turn i" "[]" Map.empty] by (simp add: first_turn_Suc)
  then show ?case
    using Suc.IH [of "Suc i"]
    by (simp add: upt_conv_Cons filled_def block_flashblock_def del: upt_Suc)
qed simp

definition first_sender_of :: "u64 \<Rightarrow> nat" where
  "first_sender_of number = (if unat number mod 2 = 0 then 0 else 9)"

lemma block_flashblocks_closed:
  assumes "18 \<le> length (pr_accounts p)" and "18 \<le> length (pr_next_nonces p)"
  shows "block_flashblocks be ba p =
    Some (map (block_flashblock be ba (first_sender_of (ba_number ba)) p) [0..<8],
      producer_after (first_sender_of (ba_number ba)) p 302)"
proof -
  let ?f = "first_sender_of (ba_number ba)"
  have "?f + 9 \<le> length (pr_accounts p)" "?f + 9 \<le> length (pr_next_nonces p)"
    using assms by (auto simp: first_sender_of_def)
  from flashblocks_from_turns [OF this, of be ba 0 8]
  have "flashblocks_from be ba ?f [0..<8] (p, 0, 0) =
      Some (map (block_flashblock be ba ?f p) [0..<8], producer_after ?f p 302)"
    by (simp add: first_turn_def gas_upto_def del: upt_Suc)
  moreover have "block_flashblocks be ba p = flashblocks_from be ba ?f [0..<8] (p, 0, 0)"
    by (simp add: block_flashblocks_def first_sender_of_def bench_constants)
  ultimately show ?thesis by simp
qed

lemma block_flashblock_fields [simp]:
  "fb_payload_id (block_flashblock be ba f p i) = 0"
  "fb_index (block_flashblock be ba f p i) = word_of_nat i"
  "fb_base (block_flashblock be ba f p i) = (if i = 0 then Some (bench_base ba) else None)"
  "block_number_of (block_flashblock be ba f p i) = ba_number ba"
  "diff_transactions (fb_diff (block_flashblock be ba f p i)) =
     map (\<lambda>t. wt_bytes (block_tx be f p t)) [first_turn i..<first_turn (Suc i)]"
  "diff_gas_used (fb_diff (block_flashblock be ba f p i)) = gas_upto be f p (first_turn (Suc i))"
  "md_receipts (fb_metadata (block_flashblock be ba f p i)) =
     enter_receipts be f p [first_turn i..<first_turn (Suc i)] Map.empty"
  by (simp_all add: block_flashblock_def bench_flashblock_def filled_def block_number_of_def del: upt_Suc)

lemma turns_partition:
  "concat (map (\<lambda>i. map g [first_turn i..<first_turn (Suc i)]) [0..<n]) = map g [0..<first_turn n]"
proof (induction n)
  case (Suc n)
  have "[0..<first_turn (Suc n)] = [0..<first_turn n] @ [first_turn n..<first_turn (Suc n)]"
    unfolding first_turn_Suc by (rule upt_add_eq_append) simp
  moreover have "[0..<Suc n] = [0..<n] @ [n]" by simp
  ultimately show ?case using Suc by (simp only: map_append concat_append list.map concat.simps append_Nil2)
qed (simp add: first_turn_def)

text \<open>
  A produced block in closed form: with 18 accounts the producer never panics and builds
  eight flashblocks that carry 302 transactions, that of turn t sent by account
  \<open>first + t mod 9\<close> with its nonce from before the block plus \<open>t div 9\<close>; only the first
  flashblock has a base, whose number is that of the metadata; the gas used is the sum up to
  the flashblock's end; and when hashes differ every transaction has its receipt, with the
  gas up to and including it.
\<close>

theorem produced_block:
  assumes "18 \<le> length (pr_accounts p)" and "18 \<le> length (pr_next_nonces p)"
    and f: "f = first_sender_of (ba_number ba)"
  shows "\<exists>fbs. block_flashblocks be ba p = Some (fbs, producer_after f p 302)
    \<and> length fbs = 8
    \<and> concat (map (diff_transactions \<circ> fb_diff) fbs) = map (\<lambda>t. wt_bytes (block_tx be f p t)) [0..<302]
    \<and> (\<forall>i < 8. fb_index (fbs ! i) = word_of_nat i \<and> block_number_of (fbs ! i) = ba_number ba
         \<and> fb_base (fbs ! i) = (if i = 0 then Some (bench_base ba) else None)
         \<and> diff_gas_used (fb_diff (fbs ! i)) = gas_upto be f p (127 + 25 * i)
         \<and> (inj_on (\<lambda>t. wt_hash (block_tx be f p t)) {..<302} \<longrightarrow>
              (\<forall>t. first_turn i \<le> t \<and> t < first_turn (Suc i) \<longrightarrow>
                 md_receipts (fb_metadata (fbs ! i)) (wt_hash (block_tx be f p t)) = Some (block_receipt be f p t))))"
proof (intro exI conjI allI impI)
  let ?fbs = "map (block_flashblock be ba f p) [0..<8]"
  show "block_flashblocks be ba p = Some (?fbs, producer_after f p 302)"
    using block_flashblocks_closed [OF assms(1,2)] by (simp add: f)
  show "length ?fbs = 8" by simp
  show "concat (map (diff_transactions \<circ> fb_diff) ?fbs) = map (\<lambda>t. wt_bytes (block_tx be f p t)) [0..<302]"
    using turns_partition [of "\<lambda>t. wt_bytes (block_tx be f p t)" 8]
    by (simp add: comp_def first_turn_def del: upt_Suc)
  fix i :: nat assume i: "i < 8"
  show "fb_index (?fbs ! i) = word_of_nat i" "block_number_of (?fbs ! i) = ba_number ba"
    "fb_base (?fbs ! i) = (if i = 0 then Some (bench_base ba) else None)"
    using i by (simp_all del: upt_Suc)
  show "diff_gas_used (fb_diff (?fbs ! i)) = gas_upto be f p (127 + 25 * i)"
    using i by (simp add: first_turn_def del: upt_Suc)
  fix t assume inj: "inj_on (\<lambda>t. wt_hash (block_tx be f p t)) {..<302}"
    and t: "first_turn i \<le> t \<and> t < first_turn (Suc i)"
  have "first_turn (Suc i) \<le> 302" using i by (simp add: first_turn_def)
  then have "set [first_turn i..<first_turn (Suc i)] \<subseteq> {..<302}" by (auto simp del: upt_Suc)
  with inj have "inj_on (\<lambda>t. wt_hash (block_tx be f p t)) (set [first_turn i..<first_turn (Suc i)])"
    by (rule inj_on_subset)
  then show "md_receipts (fb_metadata (?fbs ! i)) (wt_hash (block_tx be f p t)) = Some (block_receipt be f p t)"
    using i t by (simp add: enter_receipts_lookup del: upt_Suc)
qed

section \<open>The stream of a stalled chain\<close>

text \<open>What the node's sequence check says of a flashblock after the one before it.\<close>

definition follows :: "FlashBlock \<Rightarrow> FlashBlock \<Rightarrow> bool" where
  "follows a b \<longleftrightarrow>
     seq_validate (block_number_of a) (fb_index a) (fb_payload_id a)
       (block_number_of b) (fb_index b) (fb_payload_id b) \<in> {NextInSequence, FirstOfNextBlock}"

lemma send_all_texts:
  "(\<And>fb. be_to_string be fb = Inr (enc fb)) \<Longrightarrow> send_flashblocks be fbs = (map enc fbs, Inr ())"
  by (induction fbs) simp_all

lemma block_follows: "successively follows (map (block_flashblock be ba f p) [0..<8])"
proof -
  have "follows (block_flashblock be ba f p i) (block_flashblock be ba f p (Suc i))" if "i < 7" for i
  proof -
    have "word_of_nat i + 1 \<noteq> (0 :: u64)" using that by (simp add: word_unat_eq_iff unat_word_ariths unat_of_nat take_bit_nat_eq_self)
    then show ?thesis by (simp add: follows_def seq_validate_def add.commute)
  qed
  then show ?thesis by (simp add: successively_conv_nth)
qed

definition enough_senders :: "Producer \<Rightarrow> bool" where
  "enough_senders p \<longleftrightarrow> 18 \<le> length (pr_accounts p) \<and> 18 \<le> length (pr_next_nonces p)"

lemma enough_after [simp]: "enough_senders (producer_after f p t) = enough_senders p"
  by (simp add: enough_senders_def producer_after_def)

lemma stalled_round:
  assumes "\<And>fb. be_to_string be fb = Inr (enc fb)" and "enough_senders (pd_producer pd)"
  shows "\<exists>ba pd'. produce_round be True gl latest pd =
      (map enc (map (block_flashblock be ba (first_sender_of (ba_number ba)) (pd_producer pd)) [0..<8]), Running pd')
    \<and> ba_number ba = pd_number pd + 1 \<and> pd_number pd' = pd_number pd + 1
    \<and> pd_sent_blocks pd' = pd_sent_blocks pd + 1 \<and> enough_senders (pd_producer pd')"
proof -
  let ?ba = "\<lparr>ba_number = pd_number pd + 1, ba_parent_hash = pd_parent_hash pd,
    ba_timestamp = pd_timestamp pd + SLOT_SECONDS, ba_gas_limit = gl\<rparr>"
  have "block_flashblocks be ?ba (pd_producer pd) =
      Some (map (block_flashblock be ?ba (first_sender_of (ba_number ?ba)) (pd_producer pd)) [0..<8],
        producer_after (first_sender_of (ba_number ?ba)) (pd_producer pd) 302)"
    using assms(2) by (intro block_flashblocks_closed) (simp_all add: enough_senders_def)
  with assms show ?thesis
    by (intro exI [of _ ?ba]) (simp add: produce_round_def round_start_def send_all_texts Let_def del: upt_Suc)
qed

lemma stalled_loop:
  assumes "\<And>fb. be_to_string be fb = Inr (enc fb)" and "enough_senders (pd_producer pd)"
    and "pd_sent_blocks pd \<le> blocks"
  shows "\<exists>fbs out. produce_loop be True blocks gl heads pd = (map enc fbs, out)
    \<and> length fbs = 8 * min (length heads) (unat (blocks - pd_sent_blocks pd))
    \<and> (out = Finished) = (unat (blocks - pd_sent_blocks pd) \<le> length heads)
    \<and> successively follows fbs
    \<and> (fbs \<noteq> [] \<longrightarrow> block_number_of (hd fbs) = pd_number pd + 1 \<and> fb_index (hd fbs) = 0 \<and> fb_payload_id (hd fbs) = 0)"
  using assms(2,3)
proof (induction heads arbitrary: pd)
  case Nil
  then show ?case by (auto simp: not_less unat_eq_0)
next
  case (Cons latest heads)
  show ?case
  proof (cases "pd_sent_blocks pd < blocks")
    case False
    then show ?thesis using Cons.prems by (auto simp: not_less)
  next
    case True
    obtain ba pd' where r: "produce_round be True gl latest pd =
        (map enc (map (block_flashblock be ba (first_sender_of (ba_number ba)) (pd_producer pd)) [0..<8]), Running pd')"
      and n: "ba_number ba = pd_number pd + 1" "pd_number pd' = pd_number pd + 1"
        "pd_sent_blocks pd' = pd_sent_blocks pd + 1" and e: "enough_senders (pd_producer pd')"
      using stalled_round [OF assms(1) Cons.prems(1)] by blast
    define now where "now = map (block_flashblock be ba (first_sender_of (ba_number ba)) (pd_producer pd)) [0..<8]"
    have le: "pd_sent_blocks pd' \<le> blocks" using True by (simp add: n inc_le)
    have left: "unat (blocks - pd_sent_blocks pd) = Suc (unat (blocks - pd_sent_blocks pd'))"
    proof -
      have "unat blocks < 2 ^ LENGTH(64)" by (rule unsigned_less)
      then have "unat (pd_sent_blocks pd') = Suc (unat (pd_sent_blocks pd))"
        using True by (simp add: n word_less_nat_alt unat_word_ariths)
      then show ?thesis using True le by (simp add: unat_sub less_imp_le word_less_nat_alt word_le_nat_alt)
    qed
    obtain fbs out where l: "produce_loop be True blocks gl heads pd' = (map enc fbs, out)"
      and f: "length fbs = 8 * min (length heads) (unat (blocks - pd_sent_blocks pd'))"
        "(out = Finished) = (unat (blocks - pd_sent_blocks pd') \<le> length heads)" "successively follows fbs"
        "fbs \<noteq> [] \<longrightarrow> block_number_of (hd fbs) = pd_number pd' + 1 \<and> fb_index (hd fbs) = 0 \<and> fb_payload_id (hd fbs) = 0"
      using Cons.IH [OF e le] by blast
    have last: "last now = block_flashblock be ba (first_sender_of (ba_number ba)) (pd_producer pd) 7"
      and hd: "hd now = block_flashblock be ba (first_sender_of (ba_number ba)) (pd_producer pd) 0"
      by (simp_all add: now_def last_map hd_map)
    have "follows (last now) (hd fbs)" if "fbs \<noteq> []"
      using f(4) that by (simp add: last follows_def seq_validate_def n)
    then have "successively follows (now @ fbs)"
      using f(3) block_follows by (auto simp: successively_append_iff now_def)
    moreover have "produce_loop be True blocks gl (latest # heads) pd = (map enc (now @ fbs), out)"
      using True r l by (simp add: now_def)
    moreover have "length (now @ fbs) = 8 * min (length (latest # heads)) (unat (blocks - pd_sent_blocks pd))"
      using f(1) by (simp add: now_def left)
    moreover have "hd (now @ fbs) = hd now" by (simp add: now_def)
    ultimately show ?thesis
      using f(2) hd by (intro exI [of _ "now @ fbs"] exI [of _ out]) (simp add: left n)
  qed
qed

text \<open>
  The producer feeds the node: on a chain that does not move, the driver sends eight
  flashblocks per block and stops after the blocks it was asked for; the stream starts at
  the block after the head it read, and every flashblock in it continues the one before it
  for the node's sequence check, so none is taken for a duplicate or a gap.
\<close>

theorem produced_stream_accepted:
  assumes "\<And>fb. be_to_string be fb = Inr (enc fb)"
    and "18 \<le> length (pr_accounts (pd_producer pd))" and "18 \<le> length (pr_next_nonces (pd_producer pd))"
    and "pd_sent_blocks pd = 0"
  shows "\<exists>fbs out. produce_loop be True blocks gl heads pd = (map enc fbs, out)
    \<and> length fbs = 8 * min (length heads) (unat blocks)
    \<and> (out = Finished) = (unat blocks \<le> length heads)
    \<and> (\<forall>i. Suc i < length fbs \<longrightarrow>
         seq_validate (block_number_of (fbs ! i)) (fb_index (fbs ! i)) (fb_payload_id (fbs ! i))
           (block_number_of (fbs ! Suc i)) (fb_index (fbs ! Suc i)) (fb_payload_id (fbs ! Suc i))
         \<in> {NextInSequence, FirstOfNextBlock})
    \<and> (fbs \<noteq> [] \<longrightarrow> block_number_of (hd fbs) = pd_number pd + 1 \<and> fb_index (hd fbs) = 0)"
proof -
  obtain fbs out where "produce_loop be True blocks gl heads pd = (map enc fbs, out)"
    "length fbs = 8 * min (length heads) (unat blocks)" "(out = Finished) = (unat blocks \<le> length heads)"
    "successively follows fbs" "fbs \<noteq> [] \<longrightarrow> block_number_of (hd fbs) = pd_number pd + 1 \<and> fb_index (hd fbs) = 0"
    using stalled_loop [of be enc pd blocks gl heads] assms by (auto simp: enough_senders_def)
  then show ?thesis
    unfolding follows_def [symmetric] by (intro exI [of _ fbs] exI [of _ out]) (simp add: successively_conv_nth)
qed

section \<open>Deployment and quantiles\<close>

text \<open>
  The wait after the deployment is for the nonce that the sent transactions lead to, and a
  token is returned only when its code was there, with nothing sent, or when that nonce was
  read.
\<close>

lemma send_raw_all: "send_raw submit txs = (sent, Inr r) \<Longrightarrow> sent = txs"
  by (induction txs arbitrary: sent) (auto split: sum.splits prod.splits)

lemma await_mined_reads: "await_mined target polls = Some (Inr r) \<Longrightarrow> \<exists>n late. (Inr n, late) \<in> set polls \<and> target \<le> n"
  by (induction target polls rule: await_mined.induct) (auto simp: not_less split: if_splits)

lemma deploy_token_waits:
  assumes "deploy_token be accounts chain_id (Inr start) code_at submit polls = (sent, Some (Inr token))"
    and "length accounts = 20"
  shows "sent = [] \<and> code_at token \<noteq> Inr []
    \<or> sent = deployment be accounts chain_id start token
      \<and> (\<exists>n late. (Inr n, late) \<in> set polls \<and> start + word_of_nat (length sent) \<le> n)"
proof -
  let ?token = "be_create be (da_address (accounts ! DEPLOYER)) start"
  have len: "length (deployment be accounts chain_id start t) = 19" for t
    using assms(2) by (simp add: deployment_def bench_constants Let_def)
  obtain code where c: "code_at ?token = Inr code"
    using assms(1) by (cases "code_at ?token") (auto simp: deploy_token_def Let_def)
  show ?thesis
  proof (cases "code = []")
    case True
    obtain sent' r where s: "send_raw submit (deployment be accounts chain_id start ?token) = (sent', r)" by fastforce
    from assms(1) c True s have r: "r = Inr ()" "sent = sent'" "token = ?token"
      "\<exists>x. await_mined (start + 1 + 2 * word_of_nat SENDERS_PER_SET) polls = Some (Inr x)"
      by (auto simp: deploy_token_def Let_def res_bind_eq_Inr split: sum.splits)
    then have "sent = deployment be accounts chain_id start token" using s send_raw_all by metis
    with r(4) show ?thesis
      by (auto dest!: await_mined_reads simp: len bench_constants add.assoc)
  qed (use assms(1) c in \<open>auto simp: deploy_token_def Let_def\<close>)
qed

lemma quantile_ordered:
  assumes "xs \<noteq> []" and "\<And>n. at n \<le> at' n" and "\<And>n. at' n \<le> n"
  shows "\<exists>a b. quantile (sort xs) at = Some a \<and> quantile (sort xs) at' = Some b \<and> a \<le> b
    \<and> b \<le> last (sort xs)"
proof -
  let ?n = "length xs - 1"
  have lt: "at' ?n < length xs" using assms(1) assms(3) [of ?n] by (cases xs) auto
  then have "sort xs ! at ?n \<le> sort xs ! at' ?n" "sort xs ! at' ?n \<le> sort xs ! ?n"
    using assms by (auto intro!: sorted_nth_mono)
  moreover have "last (sort xs) = sort xs ! ?n"
    using assms(1) last_conv_nth [of "sort xs"] by (metis length_0_conv length_sort)
  moreover have "at ?n < length xs" using lt assms(2) [of ?n] by simp
  moreover have "sort xs \<noteq> []" using assms(1) by (metis length_0_conv length_sort)
  ultimately show ?thesis using lt by (simp add: quantile_def)
qed

section \<open>Witnesses\<close>

text \<open>An environment whose transaction hash is the signer plus a thousand times the nonce.\<close>

definition example_bench :: bench_env where
  "example_bench =
     \<lparr>be_default_builder = \<lparr>tb_signer = 0, tb_chain_id = 1, tb_nonce = 0, tb_max_fee_per_gas = 0,
        tb_max_priority_fee_per_gas = 0, tb_to = None, tb_value = 0, tb_gas_limit = 0, tb_input = []\<rparr>,
      be_into_eip1559 = (\<lambda>b. \<lparr>tx_hash = tb_signer b + 1000 * ucast (tb_nonce b), tx_to = tb_to b,
        tx_value = tb_value b, tx_input = tb_input b, tx_chain_id = Some (tb_chain_id b),
        tx_nonce = tb_nonce b, tx_gas_limit = tb_gas_limit b, tx_max_fee_per_gas = tb_max_fee_per_gas b\<rparr>),
      be_recover_signer = (\<lambda>_. Some 0), be_encoded_2718 = (\<lambda>tx. to_be 32 (tx_hash tx)),
      be_keccak256 = (\<lambda>bs. word_of_nat (be_nat bs)), be_parse_b256 = (\<lambda>_. Some 0),
      be_create = (\<lambda>a n. a + ucast n), be_transfer_call = (\<lambda>_ _. []), be_mint_call = (\<lambda>_ _. []),
      be_balance_of_call = (\<lambda>_. []), be_deploy_code = (\<lambda>_ _ _. []), be_transfer_signature = 0,
      be_to_string = (\<lambda>fb. Inr (if fb_base fb = None then ''later'' else ''first'')),
      be_json_address = (\<lambda>_. JNull), be_json_bytes = (\<lambda>_. JNull)\<rparr>"

definition example_producer :: Producer where
  "example_producer = \<lparr>pr_chain_id = 1, pr_token = 5,
     pr_accounts = map (\<lambda>i. \<lparr>da_key = word_of_nat i, da_address = word_of_nat i\<rparr>) [0..<20],
     pr_canonical_nonces = replicate 20 0, pr_next_nonces = replicate 20 0, pr_issued = 0\<rparr>"

lemma example_producer_senders [simp]:
  "length (pr_accounts example_producer) = 20" "length (pr_next_nonces example_producer) = 20"
  by (simp_all add: example_producer_def)

lemma example_hash:
  assumes "t < 302"
  shows "unat (wt_hash (block_tx example_bench 0 example_producer t)) = t mod 9 + 1000 * (t div 9)"
proof -
  have "t mod 9 < 9" by simp
  then have m: "t mod 9 < 20" by linarith
  have n: "pr_accounts example_producer ! (t mod 9) = \<lparr>da_key = word_of_nat (t mod 9), da_address = word_of_nat (t mod 9)\<rparr>"
    "pr_next_nonces example_producer ! (t mod 9) = 0"
    using m by (simp_all add: example_producer_def del: upt_Suc)
  have d: "t div 9 < 34" using assms by simp
  have "wt_hash (block_tx example_bench 0 example_producer t) = word_of_nat (t mod 9) + 1000 * ucast (word_of_nat (t div 9) :: u64)"
    by (simp add: block_tx_def transfer_def Let_def n example_bench_def sign_def)
  also have "ucast (word_of_nat (t div 9) :: u64) = (word_of_nat (t div 9) :: b256)"
    using d by (simp add: word_unat_eq_iff unsigned_ucast_eq unat_of_nat take_bit_nat_eq_self)
  also have "word_of_nat (t mod 9) + 1000 * word_of_nat (t div 9) = (word_of_nat (t mod 9 + 1000 * (t div 9)) :: b256)"
    by simp
  finally have "unat (wt_hash (block_tx example_bench 0 example_producer t)) =
      unat (word_of_nat (t mod 9 + 1000 * (t div 9)) :: b256)" by (rule arg_cong)
  moreover have "t mod 9 + 1000 * (t div 9) < 2 ^ 256" using m d by simp
  then have "unat (word_of_nat (t mod 9 + 1000 * (t div 9)) :: b256) = t mod 9 + 1000 * (t div 9)"
    unfolding unat_of_nat by (intro mod_less) simp
  ultimately show ?thesis by simp
qed

lemma example_hashes_differ: "inj_on (\<lambda>t. wt_hash (block_tx example_bench 0 example_producer t)) {..<302}"
proof (rule inj_onI)
  fix t u :: nat
  assume tu: "t \<in> {..<302}" "u \<in> {..<302}"
    and eq: "wt_hash (block_tx example_bench 0 example_producer t) = wt_hash (block_tx example_bench 0 example_producer u)"
  then have "t mod 9 + 1000 * (t div 9) = u mod 9 + 1000 * (u div 9)" using example_hash [of t] example_hash [of u] by simp
  moreover have "t mod 9 < 9" "u mod 9 < 9" by simp_all
  moreover have "a = c \<and> b = d" if eq: "a + 1000 * b = c + 1000 * d" and "a < 9" "c < 9" for a b c d :: nat
    using arg_cong [OF eq, of "\<lambda>x. x mod 1000"] arg_cong [OF eq, of "\<lambda>x. x div 1000"] that(2,3) by simp
  ultimately have "t mod 9 = u mod 9 \<and> t div 9 = u div 9" by blast
  then show "t = u" by (metis div_mult_mod_eq)
qed

definition example_block_args :: block_args where
  "example_block_args = \<lparr>ba_number = 8, ba_parent_hash = 7, ba_timestamp = 60, ba_gas_limit = 30000000\<rparr>"

theorem produced_block_witness:
  "\<exists>fbs. block_flashblocks example_bench example_block_args example_producer = Some (fbs, producer_after 0 example_producer 302)
     \<and> length fbs = 8 \<and> length (concat (map (diff_transactions \<circ> fb_diff) fbs)) = 302
     \<and> md_receipts (fb_metadata (fbs ! 1)) (wt_hash (block_tx example_bench 0 example_producer 130))
         = Some (block_receipt example_bench 0 example_producer 130)"
proof -
  have f: "0 = first_sender_of (ba_number example_block_args)" by (simp add: first_sender_of_def example_block_args_def)
  obtain fbs where fbs: "block_flashblocks example_bench example_block_args example_producer = Some (fbs, producer_after 0 example_producer 302)"
    "length fbs = 8" "concat (map (diff_transactions \<circ> fb_diff) fbs) = map (\<lambda>t. wt_bytes (block_tx example_bench 0 example_producer t)) [0..<302]"
    and receipts: "\<forall>i < 8. \<forall>t. first_turn i \<le> t \<and> t < first_turn (Suc i) \<longrightarrow>
        md_receipts (fb_metadata (fbs ! i)) (wt_hash (block_tx example_bench 0 example_producer t))
          = Some (block_receipt example_bench 0 example_producer t)"
    using produced_block [OF _ _ f, of example_producer example_bench] example_hashes_differ by (auto simp del: upt_Suc)
  have "first_turn 1 \<le> 130 \<and> 130 < first_turn (Suc 1)" by (simp add: first_turn_def)
  then have "md_receipts (fb_metadata (fbs ! 1)) (wt_hash (block_tx example_bench 0 example_producer 130))
      = Some (block_receipt example_bench 0 example_producer 130)"
    using receipts by (metis one_less_numeral_iff semiring_norm(76))
  moreover have "length (concat (map (diff_transactions \<circ> fb_diff) fbs)) = 302"
    using fbs(3) by (metis diff_zero length_map length_upt)
  ultimately show ?thesis using fbs(1,2) by blast
qed

theorem produced_stream_accepted_witness:
  "\<exists>fbs. produce_loop example_bench True 2 30000000 [Inl [], Inl [], Inl []]
      \<lparr>pd_producer = example_producer, pd_number = 7, pd_parent_hash = 7, pd_timestamp = 48,
       pd_sent_blocks = 0, pd_last_head = 0\<rparr> = (map (\<lambda>fb. if fb_base fb = None then ''later'' else ''first'') fbs, Finished)
     \<and> length fbs = 16 \<and> block_number_of (hd fbs) = 8"
proof -
  let ?pd = "\<lparr>pd_producer = example_producer, pd_number = 7, pd_parent_hash = 7, pd_timestamp = 48,
       pd_sent_blocks = 0, pd_last_head = 0\<rparr>" and ?enc = "\<lambda>fb. if fb_base fb = None then ''later'' else ''first''"
  have e: "be_to_string example_bench fb = Inr (?enc fb)" for fb by (simp add: example_bench_def)
  obtain fbs out where "produce_loop example_bench True 2 30000000 [Inl [], Inl [], Inl []] ?pd = (map ?enc fbs, out)"
    "length fbs = 16" "out = Finished" "fbs \<noteq> [] \<longrightarrow> block_number_of (hd fbs) = 8"
    using produced_stream_accepted [of example_bench ?enc ?pd 2 30000000 "[Inl [], Inl [], Inl []]", OF e] by auto
  then show ?thesis by (intro exI [of _ fbs]) auto
qed

end
