(* ===== verification/TestFlashblocks.thy ===== *)
theory TestFlashblocks
  imports TestChain Wiring BenchDriver
begin

text \<open>
  The flashblocks side of the integration tests: the local node of
  \<open>runner/src/test_utils/node.rs\<close> and the builder of \<open>harness.rs\<close> that launches it, and
  \<open>flashblocks-node/src/test_harness.rs\<close> with the extension, the harnesses and the flashblock
  builder. The node is that of the theory TestChain; reth's launch is the hooks it is given.
\<close>

section \<open>Launching a local node\<close>

record LocalNodeOptions =
  lo_rpc_modules :: "string option"
  lo_persistence_threshold :: "u64 option"
  lo_send_raw_transaction_sync_timeout :: "duration option"

definition options_default :: LocalNodeOptions where
  "options_default = \<lparr>lo_rpc_modules = None, lo_persistence_threshold = None,
     lo_send_raw_transaction_sync_timeout = None\<rparr>"

definition CROSS_BLOCK_CACHE_SIZE_MB :: nat where
  "CROSS_BLOCK_CACHE_SIZE_MB = 1"

text \<open>The settings of reth's node configuration that the options choose; \<open>lc_api\<close> is a module selection.\<close>

record 's local_config =
  lc_api :: "'s option"
  lc_sync_timeout :: duration
  lc_cross_block_cache_size :: nat
  lc_persistence_threshold :: u64

definition local_node_config ::
    "(string \<Rightarrow> 's option) \<Rightarrow> 's local_config \<Rightarrow> LocalNodeOptions \<Rightarrow> string + 's local_config" where
  "local_node_config parse reth options =
     res_bind
       (case lo_rpc_modules options of
          None \<Rightarrow> Inr reth
        | Some modules \<Rightarrow>
            res_bind (ok_or (parse modules) (''invalid rpc module list: '' @ modules)) (\<lambda>selection.
              Inr (reth\<lparr>lc_api := Some selection\<rparr>)))
       (\<lambda>c. let c1 = (case lo_send_raw_transaction_sync_timeout options of
                         Some timeout \<Rightarrow> c\<lparr>lc_sync_timeout := timeout\<rparr> | None \<Rightarrow> c);
                 c2 = c1\<lparr>lc_cross_block_cache_size := CROSS_BLOCK_CACHE_SIZE_MB\<rparr>
             in Inr (case lo_persistence_threshold options of
                       Some threshold \<Rightarrow> c2\<lparr>lc_persistence_threshold := threshold\<rparr> | None \<Rightarrow> c2))"

text \<open>
  The receiver of the test channel: in its slot until the RPC hook takes it for the task it
  spawns. A test's hooks run on reth's context and on that slot.
\<close>

datatype receiver = InSlot | Receiving

type_synonym ('m, 'a) test_context = "('m, 'a) rpc_context \<times> receiver"

type_synonym ('m, 'a, 'x) test_hooks = "(('m, 'a) test_context, started list, 'x) NodeHooks"

definition on_rpc :: "('m, 'a) rpc_context hook \<Rightarrow> ('m, 'a) test_context hook" where
  "on_rpc h c = res_bind (h (fst c)) (\<lambda>ctx. Inr (ctx, snd c))"

text \<open>\<open>with_options\<close>: what it hands to reth, the \<open>eth\<close> API builder and the builder calls of the hooks.\<close>

definition local_node_with_options ::
    "('m, 'a) registry \<Rightarrow> (string \<Rightarrow> 's option) \<Rightarrow> 's local_config
      \<Rightarrow> (('m, 'a, 'x) test_hooks \<Rightarrow> ('m, 'a, 'x) test_hooks) list \<Rightarrow> bool \<Rightarrow> LocalNodeOptions
      \<Rightarrow> string + ('s local_config \<times> eth_api_builder \<times> (('m, 'a) test_context, started list, 'x) builder_call list)" where
  "local_node_with_options rg parse reth exts has_pending_state options =
     res_bind (local_node_config parse reth options) (\<lambda>c.
       Inr (c, with_send_raw_transaction_sync_timeout (lc_sync_timeout c) (eth_api_builder_new has_pending_state),
            apply_to (add_rpc_module (on_rpc (remove_proof_methods rg)) (fold (\<lambda>ext hooks. ext hooks) exts hooks_new))))"

text \<open>\<open>TestHarnessBuilder\<close>, with an extension as what it does to the hooks and the chain as its genesis.\<close>

record ('m, 'a, 'x) TestHarnessBuilder =
  hb_extensions :: "(('m, 'a, 'x) test_hooks \<Rightarrow> ('m, 'a, 'x) test_hooks) list"
  hb_chain_spec :: "Genesis option"
  hb_pending_state :: bool
  hb_rpc_modules :: "string option"
  hb_persistence_threshold :: "u64 option"
  hb_send_raw_transaction_sync_timeout :: "duration option"

definition harness_builder_new :: "('m, 'a, 'x) TestHarnessBuilder" where
  "harness_builder_new = \<lparr>hb_extensions = [], hb_chain_spec = None, hb_pending_state = False,
     hb_rpc_modules = None, hb_persistence_threshold = None, hb_send_raw_transaction_sync_timeout = None\<rparr>"

definition hb_with_extension ::
    "(('m, 'a, 'x) test_hooks \<Rightarrow> ('m, 'a, 'x) test_hooks) \<Rightarrow> ('m, 'a, 'x) TestHarnessBuilder
      \<Rightarrow> ('m, 'a, 'x) TestHarnessBuilder" where
  "hb_with_extension ext b = b\<lparr>hb_extensions := hb_extensions b @ [ext]\<rparr>"

definition harness_build ::
    "('m, 'a) registry \<Rightarrow> (string \<Rightarrow> 's option) \<Rightarrow> 's local_config \<Rightarrow> ('m, 'a, 'x) TestHarnessBuilder
      \<Rightarrow> Genesis \<times> (string + ('s local_config \<times> eth_api_builder
            \<times> (('m, 'a) test_context, started list, 'x) builder_call list))" where
  "harness_build rg parse reth b =
     (case hb_chain_spec b of None \<Rightarrow> build_test_genesis | Some g \<Rightarrow> g,
      local_node_with_options rg parse reth (hb_extensions b) (hb_pending_state b)
        \<lparr>lo_rpc_modules = hb_rpc_modules b, lo_persistence_threshold = hb_persistence_threshold b,
         lo_send_raw_transaction_sync_timeout = hb_send_raw_transaction_sync_timeout b\<rparr>)"

section \<open>The test extension\<close>

definition TEST_MAX_DEPTH :: u64 where
  "TEST_MAX_DEPTH = 5"

definition test_started :: "bool \<Rightarrow> started list hook" where
  "test_started process_canonical w =
     Inr (w @ [StateProcessorTask TEST_MAX_DEPTH] @ (if process_canonical then [CanonicalTask] else []))"

text \<open>Taking the receiver twice is a panic, which ends the launch as an error does.\<close>

definition take_receiver :: "('m, 'a) test_context hook" where
  "take_receiver c =
     (case snd c of
        InSlot \<Rightarrow> Inr (fst c, Receiving)
      | Receiving \<Rightarrow> Inl ''flashblock receiver should only be initialized once'')"

definition test_rpc :: "('m, 'a) registry \<Rightarrow> ('m, 'a) test_context hook" where
  "test_rpc rg =
     (let ethgas_api = EthgasApiExt DEFAULT_INCLUSION_FEE_MAX_AGE DEFAULT_INCLUSION_FEE_CEILING in
      run_hooks
        [on_rpc (with_modules (rg_replace_configured rg (into_rpc ETH_OVERRIDES EthApiExt))),
         on_rpc (with_modules (rg_replace_configured rg (into_rpc FEE_OVERRIDES ethgas_api))),
         on_rpc (with_modules (rg_merge_configured rg (into_rpc ETHGAS_METHODS ethgas_api))),
         on_rpc (with_modules (rg_replace_transport rg Http (into_rpc PUBSUB_METHODS (EthPubSub Http)))),
         on_rpc (with_modules (rg_replace_transport rg Ws (into_rpc PUBSUB_METHODS (EthPubSub Ws)))),
         on_rpc (with_modules (rg_replace_transport rg Ipc (into_rpc PUBSUB_METHODS (EthPubSub Ipc)))),
         take_receiver])"

definition test_ext_apply ::
    "('m, 'a) registry \<Rightarrow> bool \<Rightarrow> ('m, 'a, 'x) test_hooks \<Rightarrow> ('m, 'a, 'x) test_hooks" where
  "test_ext_apply rg process_canonical hooks =
     add_rpc_module (test_rpc rg) (add_node_started_hook (test_started process_canonical) hooks)"

text \<open>The task that takes flashblocks from the test channel; each comes with its receipt time.\<close>

fun test_receiver :: "(bool \<times> instant \<times> FlashBlock) list \<Rightarrow> 'st FlashblocksState \<Rightarrow> 'st FlashblocksState" where
  "test_receiver [] fs = fs"
| "test_receiver ((syncing, now, fb) # rest) fs = test_receiver rest (on_flashblock_received syncing now fb fs)"

section \<open>The flashblocks harnesses\<close>

text \<open>What a harness is launched with: automatic canonical processing or not, options, genesis.\<close>

record harness_launch =
  hl_process_canonical :: bool
  hl_options :: LocalNodeOptions
  hl_genesis :: Genesis

definition harness_with_options :: "bool \<Rightarrow> LocalNodeOptions \<Rightarrow> harness_launch" where
  "harness_with_options process_canonical options =
     \<lparr>hl_process_canonical = process_canonical, hl_options = options, hl_genesis = build_test_genesis\<rparr>"

definition harness_new :: harness_launch where
  "harness_new = harness_with_options True options_default"

definition manual_canonical :: harness_launch where
  "manual_canonical = harness_with_options False options_default"

definition harness_with_rpc_modules :: "string \<Rightarrow> harness_launch" where
  "harness_with_rpc_modules modules = harness_with_options True (options_default\<lparr>lo_rpc_modules := Some modules\<rparr>)"

definition manual_canonical_with_persistence_threshold :: "u64 \<Rightarrow> harness_launch" where
  "manual_canonical_with_persistence_threshold threshold =
     harness_with_options False (options_default\<lparr>lo_persistence_threshold := Some threshold\<rparr>)"

definition harness_with_sync_timeout :: "duration \<Rightarrow> harness_launch" where
  "harness_with_sync_timeout timeout =
     harness_with_options True (options_default\<lparr>lo_send_raw_transaction_sync_timeout := Some timeout\<rparr>)"

definition harness_with_chain_spec :: "Genesis \<Rightarrow> harness_launch" where
  "harness_with_chain_spec genesis =
     \<lparr>hl_process_canonical = True, hl_options = options_default, hl_genesis = genesis\<rparr>"

definition harness_launch_node ::
    "('m, 'a) registry \<Rightarrow> (string \<Rightarrow> 's option) \<Rightarrow> 's local_config \<Rightarrow> harness_launch
      \<Rightarrow> string + ('s local_config \<times> eth_api_builder \<times> (('m, 'a) test_context, started list, 'x) builder_call list)" where
  "harness_launch_node rg parse reth l =
     local_node_with_options rg parse reth [test_ext_apply rg (hl_process_canonical l)] True (hl_options l)"

text \<open>
  What the harness uses of the node beside TestChain's record: its latest state and signing.
  \<open>he_wait\<close> is what the tasks and the node do while the harness sleeps.
\<close>

record ('n, 'st) builder_harness =
  bh_node :: 'n
  bh_flashblocks :: "'st FlashblocksState"

record ('n, 'sp, 'st) harness_env =
  he_latest :: "'n \<Rightarrow> string + 'sp"
  he_basic_account :: "'sp \<Rightarrow> address \<Rightarrow> string + Overlay.Account option"
  he_chain_id :: u64
  he_from_hex :: "string \<Rightarrow> b256 option"
  he_default_builder :: TransactionBuilder
  he_into_eip1559 :: "TransactionBuilder \<Rightarrow> TransactionSigned"
  he_encoded_2718 :: "TransactionSigned \<Rightarrow> bytes"
  he_wait :: "duration \<Rightarrow> ('n, 'st) builder_harness \<Rightarrow> ('n, 'st) builder_harness"

definition SLEEP_TIME :: nat where
  "SLEEP_TIME = 10"

definition from_harness ::
    "('n, 'p, 'q) local_node \<Rightarrow> 'n \<Rightarrow> 'st FlashblocksState \<Rightarrow> fault + ('n, 'st) builder_harness" where
  "from_harness ln n fs =
     res_bind (expect (res_ok (ln_block ln 0 n)) ''able to load block'') (\<lambda>found.
     res_bind (expect found ''block exists'') (\<lambda>block.
     res_bind (expect (ln_try_into_recovered ln block) ''able to recover block'') (\<lambda>genesis.
       Inr \<lparr>bh_node = n, bh_flashblocks = on_canonical_block_received genesis fs\<rparr>)))"

definition decode_private_key :: "('n, 'sp, 'st) harness_env \<Rightarrow> TestChain.Account \<Rightarrow> fault + b256" where
  "decode_private_key he a = expect (he_from_hex he (private_key a)) ''valid hex-encoded key''"

definition canonical_account ::
    "('n, 'sp, 'st) harness_env \<Rightarrow> ('n, 'st) builder_harness \<Rightarrow> TestChain.Account \<Rightarrow> fault + Overlay.Account" where
  "canonical_account he h a =
     res_bind (expect (res_ok (he_latest he (bh_node h))) ''can get latest state provider'') (\<lambda>sp.
     res_bind (expect (res_ok (he_basic_account he sp (account_address a))) ''can lookup account state'') (\<lambda>found.
       expect found ''should be existing account state''))"

definition canonical_balance ::
    "('n, 'sp, 'st) harness_env \<Rightarrow> ('n, 'st) builder_harness \<Rightarrow> TestChain.Account \<Rightarrow> fault + u256" where
  "canonical_balance he h a = res_bind (canonical_account he h a) (\<lambda>acc. Inr (acc_balance acc))"

definition expected_pending_balance ::
    "('n, 'sp, 'st) harness_env \<Rightarrow> ('n, 'st) builder_harness \<Rightarrow> TestChain.Account \<Rightarrow> u128 \<Rightarrow> fault + u256" where
  "expected_pending_balance he h a delta =
     res_bind (canonical_balance he h a) (\<lambda>balance. Inr (balance + ucast delta))"

definition account_state ::
    "('n, 'sp, 'st) harness_env \<Rightarrow> ('n, 'st) builder_harness \<Rightarrow> TestChain.Account \<Rightarrow> fault + Overlay.Account" where
  "account_state he h a =
     res_bind (canonical_account he h a) (\<lambda>basic.
       (let pending = map_option arc_val (get_pending_blocks (bh_flashblocks h));
            info = Option.bind pending (\<lambda>pb.
              Option.bind (bundle_account (pb_bundle_state pb) (account_address a)) ba_info)
        in Inr \<lparr>acc_nonce = (case info of None \<Rightarrow> acc_nonce basic | Some i \<Rightarrow> ai_nonce i),
                acc_balance = (case api_get_balance pending (account_address a) of
                                None \<Rightarrow> acc_balance basic | Some b \<Rightarrow> b),
                acc_bytecode_hash = acc_bytecode_hash basic\<rparr>))"

definition build_transaction_to_send_eth_with_nonce ::
    "('n, 'sp, 'st) harness_env \<Rightarrow> TestChain.Account \<Rightarrow> TestChain.Account \<Rightarrow> u128 \<Rightarrow> u64 \<Rightarrow> fault + TransactionSigned" where
  "build_transaction_to_send_eth_with_nonce he from to amount nonce =
     res_bind (decode_private_key he from) (\<lambda>key.
       Inr (he_into_eip1559 he
         ((he_default_builder he)\<lparr>tb_signer := key, tb_chain_id := he_chain_id he,
            tb_to := Some (account_address to), tb_nonce := nonce, tb_value := ucast amount,
            tb_gas_limit := 21000, tb_max_fee_per_gas := 1000000000,
            tb_max_priority_fee_per_gas := 1000000000\<rparr>)))"

definition build_transaction_to_send_eth ::
    "('n, 'sp, 'st) harness_env \<Rightarrow> ('n, 'st) builder_harness \<Rightarrow> TestChain.Account \<Rightarrow> TestChain.Account \<Rightarrow> u128
      \<Rightarrow> fault + TransactionSigned" where
  "build_transaction_to_send_eth he h from to amount =
     res_bind (decode_private_key he from) (\<lambda>key.
     res_bind (account_state he h from) (\<lambda>acc.
       Inr (he_into_eip1559 he
         ((he_default_builder he)\<lparr>tb_signer := key, tb_chain_id := he_chain_id he,
            tb_to := Some (account_address to), tb_nonce := acc_nonce acc, tb_value := ucast amount,
            tb_gas_limit := 21000, tb_max_fee_per_gas := 1000000000,
            tb_max_priority_fee_per_gas := 1000000000\<rparr>))))"

text \<open>
  \<open>send_flashblock\<close>: the channel hands the flashblock to the receiving task and answers once it
  was received; a closed channel is a panic.
\<close>

definition send_flashblock ::
    "('n, 'sp, 'st) harness_env \<Rightarrow> bool \<Rightarrow> bool \<Rightarrow> instant \<Rightarrow> FlashBlock \<Rightarrow> ('n, 'st) builder_harness
      \<Rightarrow> fault + ('n, 'st) builder_harness" where
  "send_flashblock he channel_open syncing now fb h =
     (if channel_open
      then Inr (he_wait he (from_millis SLEEP_TIME)
             (h\<lparr>bh_flashblocks := test_receiver [(syncing, now, fb)] (bh_flashblocks h)\<rparr>))
      else Inl (TestPanic ''flashblocks channel should accept payload''))"

definition expect_ok :: "string \<Rightarrow> ('n, 'a) run \<Rightarrow> ('n, 'a) run" where
  "expect_ok what r n = apfst (\<lambda>x. expect (res_ok x) what) (r n)"

definition new_canonical_block_without_processing ::
    "('n, 'p, 'q) local_node \<Rightarrow> ('n, 'sp, 'st) harness_env \<Rightarrow> TransactionSigned list
      \<Rightarrow> ('n, RecoveredBlock) run" where
  "new_canonical_block_without_processing ln he txs =
     and_then (\<lambda>n. (expect (res_ok (ln_best_block_number ln n)) ''able to read best block number'', n)) (\<lambda>previous_tip.
     and_then (expect_ok ''able to build block''
       (build_block_from_transactions ln (map (he_encoded_2718 he) txs))) (\<lambda>_.
     and_then (\<lambda>n. (expect (res_ok (ln_block ln (previous_tip + 1) n)) ''able to load block'', n)) (\<lambda>found.
     and_then (lift (expect found ''new canonical block should be available after building payload'')) (\<lambda>block.
       lift (expect (ln_try_into_recovered ln block) ''able to recover newly built block'')))))"

definition new_canonical_block ::
    "('n, 'p, 'q) local_node \<Rightarrow> ('n, 'sp, 'st) harness_env \<Rightarrow> TransactionSigned list
      \<Rightarrow> ('n, 'st) builder_harness \<Rightarrow> (fault + unit) \<times> ('n, 'st) builder_harness" where
  "new_canonical_block ln he txs h =
     (case new_canonical_block_without_processing ln he txs (bh_node h) of
        (Inl e, n) \<Rightarrow> (Inl e, h\<lparr>bh_node := n\<rparr>)
      | (Inr block, n) \<Rightarrow>
          (Inr (), he_wait he (from_millis SLEEP_TIME)
             \<lparr>bh_node = n, bh_flashblocks = on_canonical_block_received block (bh_flashblocks h)\<rparr>))"

section \<open>The flashblock builder\<close>

record FlashblockBuilder =
  fbd_transactions :: "bytes list"
  fbd_receipts :: "b256 \<rightharpoonup> receipt"
  fbd_canonical_block_number :: "u64 option"
  fbd_index :: u64
  fbd_inclusion_fee :: "InclusionFee option"

definition fbd_new :: "u64 \<Rightarrow> FlashblockBuilder" where
  "fbd_new index = \<lparr>fbd_transactions = [], fbd_receipts = Map.empty, fbd_canonical_block_number = None,
     fbd_index = index, fbd_inclusion_fee = None\<rparr>"

definition fbd_new_base :: FlashblockBuilder where
  "fbd_new_base = fbd_new 0"

definition fbd_with_inclusion_fee :: "InclusionFee \<Rightarrow> FlashblockBuilder \<Rightarrow> FlashblockBuilder" where
  "fbd_with_inclusion_fee fee b = b\<lparr>fbd_inclusion_fee := Some fee\<rparr>"

definition fbd_with_receipts :: "(b256 \<rightharpoonup> receipt) \<Rightarrow> FlashblockBuilder \<Rightarrow> FlashblockBuilder" where
  "fbd_with_receipts receipts b = b\<lparr>fbd_receipts := receipts\<rparr>"

fun fbd_push ::
    "(TransactionSigned \<Rightarrow> bytes) \<Rightarrow> TransactionSigned list \<Rightarrow> u64 \<Rightarrow> FlashblockBuilder \<Rightarrow> FlashblockBuilder" where
  "fbd_push encode [] gas b = b"
| "fbd_push encode (tx # txs) gas b =
     (let gas' = gas + tx_gas_limit tx in
      fbd_push encode txs gas'
        (b\<lparr>fbd_transactions := fbd_transactions b @ [encode tx],
           fbd_receipts := (fbd_receipts b)(tx_hash tx \<mapsto>
             \<lparr>rc_tx_type = 2, rc_success = True, rc_cumulative_gas_used = gas', rc_logs = []\<rparr>)\<rparr>))"

text \<open>Setting transactions on an initial flashblock is a panic.\<close>

definition fbd_with_transactions ::
    "(TransactionSigned \<Rightarrow> bytes) \<Rightarrow> TransactionSigned list \<Rightarrow> FlashblockBuilder \<Rightarrow> fault + FlashblockBuilder" where
  "fbd_with_transactions encode txs b =
     (if fbd_index b = 0 then Inl (TestPanic ''Cannot set txns for initial flashblock'')
      else Inr (fbd_push encode txs 0 (b\<lparr>fbd_transactions := []\<rparr>)))"

definition fbd_with_canonical_block_number :: "u64 \<Rightarrow> FlashblockBuilder \<Rightarrow> FlashblockBuilder" where
  "fbd_with_canonical_block_number num b = b\<lparr>fbd_canonical_block_number := Some num\<rparr>"

definition flashblock_on :: "address \<Rightarrow> b256 \<Rightarrow> RecoveredBlock \<Rightarrow> FlashblockBuilder \<Rightarrow> FlashBlock" where
  "flashblock_on fee_recipient prev_randao current b =
     (let header = blk_header (rb_block current);
          canonical_block_num =
            (case fbd_canonical_block_number b of None \<Rightarrow> rb_number current | Some num \<Rightarrow> num) + 1;
          timestamp = hd_timestamp header + 2
      in \<lparr>fb_payload_id = 0, fb_index = fbd_index b,
          fb_base =
            (if fbd_index b = 0
             then Some \<lparr>base_parent_beacon_block_root =
                         (case hd_parent_beacon_block_root header of None \<Rightarrow> 0 | Some r \<Rightarrow> r),
                       base_parent_hash = rb_hash current, base_fee_recipient = fee_recipient,
                       base_prev_randao = prev_randao, base_block_number = canonical_block_num,
                       base_gas_limit = hd_gas_limit header, base_timestamp = timestamp,
                       base_extra_data = [], base_base_fee_per_gas = 100,
                       base_slot_number = Some (slot_number_at timestamp)\<rparr>
             else None),
          fb_diff = default_diff\<lparr>diff_transactions := fbd_transactions b\<rparr>,
          fb_metadata = \<lparr>md_block_number = canonical_block_num, md_new_account_balances = Map.empty,
            md_receipts = fbd_receipts b, md_inclusion_fee = fbd_inclusion_fee b\<rparr>\<rparr>)"

text \<open>\<open>build\<close>; the random recipient and randao are arguments.\<close>

definition fbd_build ::
    "('n, 'p, 'q) local_node \<Rightarrow> 'n \<Rightarrow> address \<Rightarrow> b256 \<Rightarrow> FlashblockBuilder \<Rightarrow> fault + FlashBlock" where
  "fbd_build ln n fee_recipient prev_randao b =
     res_bind (latest_block ln n) (\<lambda>current. Inr (flashblock_on fee_recipient prev_randao current b))"

section \<open>The tests run on the node's own wiring\<close>

lemma run_hooks_single: "run_hooks [h] = h"
proof
  show "run_hooks [h] c = h c" for c by (cases "h c") simp_all
qed

lemma run_on_rpc: "run_hooks (map on_rpc hs) c = on_rpc (run_hooks hs) c"
proof (induction hs arbitrary: c)
  case Nil
  then show ?case by (simp add: on_rpc_def)
next
  case (Cons h hs)
  then show ?case by (cases "h (fst c)") (simp_all add: on_rpc_def)
qed

lemma test_rpc_production:
  "test_rpc rg c = res_bind (on_rpc (flashblocks_rpc rg (config_new url depth)) c) take_receiver"
proof -
  let ?api = "EthgasApiExt DEFAULT_INCLUSION_FEE_MAX_AGE DEFAULT_INCLUSION_FEE_CEILING"
  let ?hs = "[with_modules (rg_replace_configured rg (into_rpc ETH_OVERRIDES EthApiExt)),
     with_modules (rg_replace_configured rg (into_rpc FEE_OVERRIDES ?api)),
     with_modules (rg_merge_configured rg (into_rpc ETHGAS_METHODS ?api)),
     with_modules (rg_replace_transport rg Http (into_rpc PUBSUB_METHODS (EthPubSub Http))),
     with_modules (rg_replace_transport rg Ws (into_rpc PUBSUB_METHODS (EthPubSub Ws))),
     with_modules (rg_replace_transport rg Ipc (into_rpc PUBSUB_METHODS (EthPubSub Ipc)))]"
  have "test_rpc rg c = run_hooks (map on_rpc ?hs @ [take_receiver]) c" by (simp add: test_rpc_def Let_def)
  also have "\<dots> = res_bind (on_rpc (run_hooks ?hs) c) take_receiver"
    unfolding run_hooks_append run_on_rpc run_hooks_single ..
  also have "run_hooks ?hs = flashblocks_rpc rg (config_new url depth)"
    by (simp only: flashblocks_rpc_def config_new_def FlashblocksConfig.select_convs Let_def)
  finally show ?thesis .
qed

text \<open>
  The flashblocks tests exercise the node's own wiring: whatever the registry does, the RPC
  hook of a harness node makes the same calls as that of the node binary with default fee
  settings, so it fails when that fails and otherwise leaves the same modules, and then takes the
  test channel in place of the subscriber; after the start the same processor and canonical
  tasks run, without the subscriber and the version gauge and at depth five.
\<close>

theorem test_node_is_production:
  assumes "local_node_config parse reth (hl_options l) = Inr c"
  shows "\<exists>test_hook test_start node_hook node_start.
      harness_launch_node rg parse reth l =
        Inr (c, with_send_raw_transaction_sync_timeout (lc_sync_timeout c) (eth_api_builder_new True),
             [ExtendRpcModules test_hook, OnNodeStarted test_start])
    \<and> snd (launch_node rg \<lparr>extensions = [FlashblocksExtension (Some (config_new url depth))], pending_state = True\<rparr> timeout) =
        [ExtendRpcModules node_hook, OnNodeStarted node_start]
    \<and> (\<forall>ctx. test_hook (ctx, InSlot) = res_bind (node_hook ctx) (\<lambda>ctx'. Inr (ctx', Receiving)))
    \<and> (\<forall>w. test_start w = Inr (w @ StateProcessorTask 5 # (if hl_process_canonical l then [CanonicalTask] else [])))
    \<and> (\<forall>w. node_start w = Inr (w @ [StateProcessorTask depth, SubscriberTask url (from_secs 30), CanonicalTask, VersionMetrics]))"
proof -
  let ?cfg = "config_new url depth"
  let ?test = "run_hooks [test_rpc rg, on_rpc (remove_proof_methods rg)]"
  let ?node = "run_hooks [flashblocks_rpc rg ?cfg, remove_proof_methods rg]"
  let ?started = "run_hooks [flashblocks_started ?cfg, \<lambda>w. Inr (w @ [VersionMetrics])]"
  let ?tstart = "run_hooks [test_started (hl_process_canonical l)]"
  have same: "?test (ctx, InSlot) = res_bind (?node ctx) (\<lambda>ctx'. Inr (ctx', Receiving))" for ctx
    by (cases "flashblocks_rpc rg ?cfg ctx")
      (simp_all add: test_rpc_production [of rg _ url depth] on_rpc_def take_receiver_def remove_proof_methods_def)
  have t: "harness_launch_node rg parse reth l =
      Inr (c, with_send_raw_transaction_sync_timeout (lc_sync_timeout c) (eth_api_builder_new True),
           [ExtendRpcModules ?test, OnNodeStarted ?tstart])"
    using assms
    by (simp add: harness_launch_node_def local_node_with_options_def test_ext_apply_def hooks_new_def apply_to_def
        add_rpc_module_def add_node_started_hook_def del: run_hooks.simps)
  have n: "snd (launch_node rg \<lparr>extensions = [FlashblocksExtension (Some ?cfg)], pending_state = True\<rparr> timeout) =
      [ExtendRpcModules ?node, OnNodeStarted ?started]"
    by (simp add: launch_node_def ext_apply_def hooks_new_def apply_to_def
        add_rpc_module_def add_node_started_hook_def del: run_hooks.simps)
  have "?tstart w = Inr (w @ StateProcessorTask 5 # (if hl_process_canonical l then [CanonicalTask] else []))"
    "?started w = Inr (w @ [StateProcessorTask depth, SubscriberTask url (from_secs 30), CanonicalTask, VersionMetrics])" for w
    by (simp_all add: test_started_def TEST_MAX_DEPTH_def flashblocks_started_def config_new_def)
  with same t n show ?thesis by blast
qed

definition example_reth_config :: "unit local_config" where
  "example_reth_config = \<lparr>lc_api = None, lc_sync_timeout = from_secs 30, lc_cross_block_cache_size = 4096,
     lc_persistence_threshold = 2\<rparr>"

definition example_launch ::
    "string + (unit local_config \<times> eth_api_builder
      \<times> ((example_modules, string \<Rightarrow> bool) test_context, started list, unit) builder_call list)" where
  "example_launch = harness_launch_node example_registry (\<lambda>_. None) example_reth_config harness_new"

theorem test_node_is_production_witness:
  "\<exists>c api test_hook test_start node_hook.
      example_launch =
        Inr (c, api, [ExtendRpcModules test_hook, OnNodeStarted test_start])
     \<and> test_hook (example_context, InSlot) = res_bind (node_hook example_context) (\<lambda>ctx'. Inr (ctx', Receiving))
     \<and> test_start [] = Inr [StateProcessorTask 5, CanonicalTask]"
proof -
  let ?c = "example_reth_config\<lparr>lc_cross_block_cache_size := 1\<rparr>"
  have c: "local_node_config (\<lambda>_. None) example_reth_config (hl_options harness_new) = Inr ?c"
    by (simp add: local_node_config_def harness_new_def harness_with_options_def options_default_def
        CROSS_BLOCK_CACHE_SIZE_MB_def)
  have "hl_process_canonical harness_new" by (simp add: harness_new_def harness_with_options_def)
  with test_node_is_production [OF c, of example_registry "''ws''" 3 0]
  obtain test_hook test_start node_hook where
    "example_launch =
       Inr (?c, with_send_raw_transaction_sync_timeout (lc_sync_timeout ?c) (eth_api_builder_new True),
            [ExtendRpcModules test_hook, OnNodeStarted test_start])"
    "\<forall>ctx. test_hook (ctx, InSlot) = res_bind (node_hook ctx) (\<lambda>ctx'. Inr (ctx', Receiving))"
    "\<forall>w. test_start w = Inr (w @ StateProcessorTask 5 # [CanonicalTask])"
    unfolding example_launch_def by (elim exE conjE) (simp only: if_True)
  then show ?thesis by (intro exI conjI) (assumption, simp_all)
qed

section \<open>What the flashblock builder builds\<close>

lemma fbd_push_frame [simp]:
  "fbd_index (fbd_push encode txs gas b) = fbd_index b"
  "fbd_canonical_block_number (fbd_push encode txs gas b) = fbd_canonical_block_number b"
  "fbd_inclusion_fee (fbd_push encode txs gas b) = fbd_inclusion_fee b"
  "fbd_transactions (fbd_push encode txs gas b) = fbd_transactions b @ map encode txs"
  by (induction encode txs gas b rule: fbd_push.induct) (simp_all add: Let_def)

lemma fbd_push_other: "h \<notin> tx_hash ` set txs \<Longrightarrow> fbd_receipts (fbd_push encode txs gas b) h = fbd_receipts b h"
  by (induction encode txs gas b rule: fbd_push.induct) (auto simp: Let_def)

text \<open>
  The receipts of a built flashblock: one per transaction, with the gas limits of the block so far
  as the cumulative gas; other receipts stay.
\<close>

lemma fbd_push_receipt:
  "distinct (map tx_hash txs) \<Longrightarrow> i < length txs \<Longrightarrow>
     fbd_receipts (fbd_push encode txs gas b) (tx_hash (txs ! i)) =
       Some \<lparr>rc_tx_type = 2, rc_success = True,
             rc_cumulative_gas_used = gas + sum_list (map tx_gas_limit (take (Suc i) txs)), rc_logs = []\<rparr>"
proof (induction encode txs gas b arbitrary: i rule: fbd_push.induct)
  case (2 encode tx txs gas b)
  show ?case
  proof (cases i)
    case 0
    with 2 show ?thesis by (simp add: Let_def fbd_push_other)
  next
    case (Suc j)
    with 2 show ?thesis by (simp add: Let_def add.assoc)
  qed
qed simp

text \<open>
  The test builder's flashblocks form the stream the node expects: with the tip unchanged, the
  flashblock of the next index continues the one before it, as long as the index does not
  wrap; once the tip is the block a flashblock was for, a base flashblock starts the next
  block; and a second base flashblock for the same block counts as a duplicate or a gap, never
  as a new payload. Its number, its base and its receipts agree: the base is of the block the
  metadata names, with the tip as its parent, and each transaction has its receipt.
\<close>

theorem test_flashblocks_in_sequence:
  assumes "fbd_canonical_block_number b = None" and "fbd_index b \<noteq> - 1"
    and "fbd_with_transactions encode txs (fbd_new (fbd_index b + 1)) = Inr nb"
    and "distinct (map tx_hash txs)" and "rb_number later = rb_number current + 1"
  shows "let fb = flashblock_on r m current b; fb' = flashblock_on r' m' current nb;
             again = flashblock_on r' m' current fbd_new_base; base = flashblock_on r' m' later fbd_new_base;
             judge = (\<lambda>x. seq_validate (block_number_of fb) (fb_index fb) (fb_payload_id fb)
                        (block_number_of x) (fb_index x) (fb_payload_id x))
         in judge fb' = NextInSequence \<and> judge base = FirstOfNextBlock
          \<and> judge again \<in> {Duplicate, NonSequentialGap (fbd_index b + 1) 0}
          \<and> map_option base_block_number (fb_base base) = Some (block_number_of base)
          \<and> parent_hash_of base = Some (rb_hash later)
          \<and> diff_transactions (fb_diff fb') = map encode txs
          \<and> (\<forall>i < length txs. map_option rc_cumulative_gas_used (md_receipts (fb_metadata fb') (tx_hash (txs ! i)))
               = Some (sum_list (map tx_gas_limit (take (Suc i) txs))))"
proof -
  have n: "fbd_index b + 1 \<noteq> 0" using assms(2) by (metis add_eq_0_iff2)
  with assms(3) have nb: "nb = fbd_push encode txs 0 (fbd_new (fbd_index b + 1))"
    by (simp add: fbd_with_transactions_def fbd_new_def)
  have idx: "fbd_index nb = fbd_index b + 1" "fbd_canonical_block_number nb = None"
    "fbd_transactions nb = map encode txs" by (simp_all add: nb fbd_new_def)
  have "fbd_receipts nb (tx_hash (txs ! i)) =
      Some \<lparr>rc_tx_type = 2, rc_success = True,
            rc_cumulative_gas_used = sum_list (map tx_gas_limit (take (Suc i) txs)), rc_logs = []\<rparr>"
    if "i < length txs" for i
    using fbd_push_receipt [OF assms(4) that, of encode 0] by (simp add: nb)
  then show ?thesis
    using n assms(1,5) idx
    by (simp add: Let_def flashblock_on_def block_number_of_def parent_hash_of_def seq_validate_def
        fbd_new_base_def fbd_new_def [of 0])
qed

theorem test_flashblocks_in_sequence_witness:
  "seq_validate 8 0 0 (block_number_of (flashblock_on 0 0
       \<lparr>rb_block = \<lparr>blk_header = header_at 7, blk_transactions = [], blk_withdrawals = None\<rparr>, rb_hash = 3, rb_senders = []\<rparr>
       (fbd_push (\<lambda>_. []) [default_tx 1, default_tx 2] 0 (fbd_new 1)))) 1 0 = NextInSequence"
proof -
  let ?at = "\<lambda>i. \<lparr>rb_block = \<lparr>blk_header = header_at i, blk_transactions = [], blk_withdrawals = None\<rparr>,
    rb_hash = 3, rb_senders = []\<rparr>"
  let ?txs = "[default_tx 1, default_tx 2]"
  have "fbd_with_transactions (\<lambda>_. []) ?txs (fbd_new 1) = Inr (fbd_push (\<lambda>_. []) ?txs 0 (fbd_new 1))"
    by (simp add: fbd_with_transactions_def fbd_new_def)
  then show ?thesis
    using test_flashblocks_in_sequence [of fbd_new_base "\<lambda>_. []" ?txs _ "?at 8" "?at 7" 0 0 0 0]
    by (simp add: fbd_new_base_def fbd_new_def rb_number_def flashblock_on_def block_number_of_def Let_def)
qed

text \<open>The state the harness expects of an account is what the snapshot says, on top of the canonical one.\<close>

lemma account_state_without_snapshot:
  "get_pending_blocks (bh_flashblocks h) = None \<Longrightarrow> account_state he h a = canonical_account he h a"
  by (cases "canonical_account he h a") (simp_all add: account_state_def api_get_balance_def)

text \<open>A canonical block the harness built is the last update in the processor's queue before it sleeps.\<close>

lemma new_canonical_block_queues:
  assumes "new_canonical_block_without_processing ln he txs (bh_node h) = (Inr block, n)"
    and "\<And>d s. he_wait he d s = s"
  shows "new_canonical_block ln he txs h =
      (Inr (), \<lparr>bh_node = n, bh_flashblocks = on_canonical_block_received block (bh_flashblocks h)\<rparr>)"
    and "last (fs_queue (on_canonical_block_received block (bh_flashblocks h))) = Canonical block"
  using assms by (simp_all add: new_canonical_block_def on_canonical_block_received_def enqueue_def Let_def)

end
