(* ===== verification/Utilities.thy ===== *)
theory Utilities
  imports Prelude
begin

text \<open>
  The command-line utilities of \<open>utilities/cli\<close>: the logging types with their wire names and
  defaults (\<open>logging.rs\<close>), the backtrace variable (\<open>backtrace.rs\<close>) and the version strings
  (\<open>version.rs\<close>). The process environment is a map; reth's default metadata, its initialiser
  and the metrics registry are arguments.
\<close>

section \<open>Logging types\<close>

datatype LogFormat = Full | Json | Pretty | Compact | Logfmt

datatype LogRotation = Minutely | Hourly | Daily | Never

datatype LogLevel = Trace | Debug | Info | Warn | Error

text \<open>\<open>LevelFilter\<close> of the tracing crate, from the least to the most verbose.\<close>

datatype LevelFilter = OFF | ERROR | WARN | INFO | DEBUG | TRACE

record StdoutLogConfig =
  so_format :: LogFormat

record FileLogConfig =
  fl_directory_path :: string
  fl_format :: LogFormat
  fl_rotation :: LogRotation

record LogConfig =
  global_level :: LevelFilter
  stdout_logs :: "StdoutLogConfig option"
  file_logs :: "FileLogConfig option"

definition stdout_log_config_default :: StdoutLogConfig where
  "stdout_log_config_default = \<lparr>so_format = Full\<rparr>"

definition log_config_default :: LogConfig where
  "log_config_default = \<lparr>global_level = INFO, stdout_logs = Some stdout_log_config_default, file_logs = None\<rparr>"

fun level_filter_from :: "LogLevel \<Rightarrow> LevelFilter" where
  "level_filter_from Trace = TRACE"
| "level_filter_from Debug = DEBUG"
| "level_filter_from Info = INFO"
| "level_filter_from Warn = WARN"
| "level_filter_from Error = ERROR"

definition verbosity_to_level_filter :: "u8 \<Rightarrow> LevelFilter" where
  "verbosity_to_level_filter verbosity =
     (if verbosity = 1 then ERROR
      else if verbosity = 2 then WARN
      else if verbosity = 3 then INFO
      else if verbosity = 4 then DEBUG
      else TRACE)"

text \<open>The names serde and clap derive: the variants in lower case.\<close>

fun log_format_name :: "LogFormat \<Rightarrow> string" where
  "log_format_name Full = ''full''"
| "log_format_name Json = ''json''"
| "log_format_name Pretty = ''pretty''"
| "log_format_name Compact = ''compact''"
| "log_format_name Logfmt = ''logfmt''"

fun log_rotation_name :: "LogRotation \<Rightarrow> string" where
  "log_rotation_name Minutely = ''minutely''"
| "log_rotation_name Hourly = ''hourly''"
| "log_rotation_name Daily = ''daily''"
| "log_rotation_name Never = ''never''"

fun log_level_name :: "LogLevel \<Rightarrow> string" where
  "log_level_name Trace = ''trace''"
| "log_level_name Debug = ''debug''"
| "log_level_name Info = ''info''"
| "log_level_name Warn = ''warn''"
| "log_level_name Error = ''error''"

definition parse_named :: "('a \<Rightarrow> string) \<Rightarrow> 'a list \<Rightarrow> string \<Rightarrow> 'a option" where
  "parse_named name variants s = find (\<lambda>v. name v = s) variants"

definition log_format_from_str :: "string \<Rightarrow> LogFormat option" where
  "log_format_from_str = parse_named log_format_name [Full, Json, Pretty, Compact, Logfmt]"

definition log_rotation_from_str :: "string \<Rightarrow> LogRotation option" where
  "log_rotation_from_str = parse_named log_rotation_name [Minutely, Hourly, Daily, Never]"

definition log_level_from_str :: "string \<Rightarrow> LogLevel option" where
  "log_level_from_str = parse_named log_level_name [Trace, Debug, Info, Warn, Error]"

section \<open>Backtraces and versions\<close>

definition backtracing_enable :: "(string \<rightharpoonup> string) \<Rightarrow> (string \<rightharpoonup> string)" where
  "backtracing_enable env =
     (if env ''RUST_BACKTRACE'' = None then env(''RUST_BACKTRACE'' \<mapsto> ''1'') else env)"

text \<open>
  The fields of reth's version constants that the node sets; \<open>vc_rest\<close> stands for the others.
  \<open>try_init\<close> is reth's \<open>try_init_version_metadata\<close>; \<open>None\<close> is the panic of \<open>expect\<close>.
\<close>

record 'r RethCliVersionConsts =
  vc_name_client :: string
  vc_cargo_pkg_version :: string
  vc_p2p_client_version :: string
  vc_extra_data :: string
  vc_rest :: 'r

definition init_reth ::
    "'r RethCliVersionConsts \<Rightarrow> ('r RethCliVersionConsts \<Rightarrow> 'e + 'g) \<Rightarrow> string \<Rightarrow> string \<Rightarrow> 'g option" where
  "init_reth default_metadata try_init version pkg_name =
     (let client_version = ''ethgas/v'' @ version in
      res_ok (try_init
        (default_metadata\<lparr>vc_name_client := pkg_name,
           vc_cargo_pkg_version := vc_cargo_pkg_version default_metadata @ ''/'' @ version,
           vc_p2p_client_version := vc_p2p_client_version default_metadata @ ''/'' @ client_version,
           vc_extra_data := vc_extra_data default_metadata @ ''/'' @ client_version\<rparr>)))"

text \<open>A gauge is named and labelled.\<close>

type_synonym gauge = "string \<times> (string \<times> string) list"

definition register_metrics :: "string \<Rightarrow> (gauge \<Rightarrow> nat) \<Rightarrow> (gauge \<Rightarrow> nat)" where
  "register_metrics version gauges = gauges((''ethgas_info'', [(''version'', version)]) := 1)"

section \<open>Properties\<close>

lemma parse_named_exact:
  assumes "inj name" and "x \<in> set variants"
  shows "parse_named name variants (name x) = Some x"
  using assms(2) by (induction variants) (auto simp: parse_named_def inj_eq [OF assms(1)])

text \<open>Every variant is read back from its name.\<close>

lemma names_injective: "inj log_format_name" "inj log_rotation_name" "inj log_level_name"
proof -
  show "inj log_format_name"
  proof
    fix x y assume "log_format_name x = log_format_name y"
    then show "x = y" by (cases x; cases y) simp_all
  qed
  show "inj log_rotation_name"
  proof
    fix x y assume "log_rotation_name x = log_rotation_name y"
    then show "x = y" by (cases x; cases y) simp_all
  qed
  show "inj log_level_name"
  proof
    fix x y assume "log_level_name x = log_level_name y"
    then show "x = y" by (cases x; cases y) simp_all
  qed
qed

lemma names_roundtrip:
  "log_format_from_str (log_format_name f) = Some f"
  "log_rotation_from_str (log_rotation_name r) = Some r"
  "log_level_from_str (log_level_name l) = Some l"
proof -
  have "f \<in> set [Full, Json, Pretty, Compact, Logfmt]" by (cases f) simp_all
  then show "log_format_from_str (log_format_name f) = Some f"
    unfolding log_format_from_str_def by (rule parse_named_exact [OF names_injective(1)])
  have "r \<in> set [Minutely, Hourly, Daily, Never]" by (cases r) simp_all
  then show "log_rotation_from_str (log_rotation_name r) = Some r"
    unfolding log_rotation_from_str_def by (rule parse_named_exact [OF names_injective(2)])
  have "l \<in> set [Trace, Debug, Info, Warn, Error]" by (cases l) simp_all
  then show "log_level_from_str (log_level_name l) = Some l"
    unfolding log_level_from_str_def by (rule parse_named_exact [OF names_injective(3)])
qed

text \<open>No verbosity turns logging off, and none at all is the most verbose level.\<close>

lemma verbosity_range:
  "verbosity_to_level_filter v \<noteq> OFF" "verbosity_to_level_filter 0 = TRACE"
  "5 \<le> v \<Longrightarrow> verbosity_to_level_filter v = TRACE"
  by (auto simp: verbosity_to_level_filter_def word_le_nat_alt)

text \<open>The variable is set afterwards and an explicit value survives; a second call changes nothing.\<close>

lemma backtracing_enable_once:
  "backtracing_enable env ''RUST_BACKTRACE'' \<noteq> None"
  "env ''RUST_BACKTRACE'' = Some v \<Longrightarrow> backtracing_enable env = env"
  "backtracing_enable (backtracing_enable env) = backtracing_enable env"
  by (auto simp: backtracing_enable_def)

text \<open>What reth is given: the node's name, and its version behind reth's own; nothing else changes.\<close>

lemma init_reth_metadata:
  "init_reth d Inr version pkg = Some v \<Longrightarrow>
     vc_name_client v = pkg \<and> vc_cargo_pkg_version v = vc_cargo_pkg_version d @ ''/'' @ version
   \<and> vc_p2p_client_version v = vc_p2p_client_version d @ ''/ethgas/v'' @ version
   \<and> vc_extra_data v = vc_extra_data d @ ''/ethgas/v'' @ version \<and> vc_rest v = vc_rest d"
  by (auto simp: init_reth_def Let_def)

end
