(* ===== verification/ProcessorBuild.thy ===== *)
theory ProcessorBuild
  imports ProcessorExample
begin

text \<open>
  What a built snapshot contains, as a function of the flashblocks it was built from, and
  that the snapshot built for the next flashblock extends the one before it.
\<close>

section \<open>Grouping by block\<close>

lemma bt_push_keys: "fst ` set (bt_push bn fb m) = insert bn (fst ` set m)"
  by (induction bn fb m rule: bt_push.induct) auto

lemma bt_push_sorted:
  "sorted_wrt (<) (map fst m) \<Longrightarrow> sorted_wrt (<) (map fst (bt_push bn fb m))"
proof (induction bn fb m rule: bt_push.induct)
  case (2 bn fb k fbs m)
  then show ?case
  proof (cases "bn = k \<or> bn < k")
    case False
    have "k < x" if "x \<in> fst ` set (bt_push bn fb m)" for x
      using that False 2(2) by (auto simp: bt_push_keys)
    with False 2 show ?thesis by auto
  next
    case True
    with 2 show ?thesis by (auto intro: order.strict_trans)
  qed
qed simp

lemma bt_push_append:
  "sorted_wrt (<) (map fst (gs @ [(k, g)])) \<Longrightarrow>
     bt_push k fb (gs @ [(k, g)]) = gs @ [(k, g @ [fb])]"
  by (induction gs) auto

lemma bt_push_next:
  "(\<And>x. x \<in> fst ` set gs \<Longrightarrow> x < k) \<Longrightarrow> bt_push k fb gs = gs @ [(k, [fb])]"
proof (induction gs)
  case (Cons a gs)
  then have "fst a < k" by simp
  moreover have "bt_push k fb gs = gs @ [(k, [fb])]" using Cons by simp
  ultimately show ?case by (cases a) auto
qed simp

lemma flashblocks_per_block_snoc:
  "flashblocks_per_block (fbs @ [fb]) = bt_push (block_number_of fb) fb (flashblocks_per_block fbs)"
  by (simp add: flashblocks_per_block_def block_number_of_def)

lemma flashblocks_per_block_sorted: "sorted_wrt (<) (map fst (flashblocks_per_block fbs))"
proof (induction fbs rule: rev_induct)
  case (snoc fb fbs)
  then show ?case by (simp add: flashblocks_per_block_snoc bt_push_sorted)
qed (simp add: flashblocks_per_block_def)

lemma bt_push_groups:
  "\<forall>g \<in> set m. snd g \<noteq> [] \<and> (\<forall>x \<in> set (snd g). block_number_of x = fst g) \<Longrightarrow>
   block_number_of fb = bn \<Longrightarrow>
   \<forall>g \<in> set (bt_push bn fb m). snd g \<noteq> [] \<and> (\<forall>x \<in> set (snd g). block_number_of x = fst g)"
  by (induction bn fb m rule: bt_push.induct) auto

lemma flashblocks_per_block_groups:
  "\<forall>g \<in> set (flashblocks_per_block fbs). snd g \<noteq> [] \<and> (\<forall>x \<in> set (snd g). block_number_of x = fst g)"
proof (induction fbs rule: rev_induct)
  case (snoc fb fbs)
  then show ?case unfolding flashblocks_per_block_snoc by (rule bt_push_groups) simp
qed (simp add: flashblocks_per_block_def)

section \<open>The view of a block\<close>

text \<open>
  What receipt conversion documents: the converted receipt wraps what the closure built,
  for the transaction and gas it was given.
\<close>

definition converts_faithfully :: "('sp, 'db, 'env, 'st) evm \<Rightarrow> bool" where
  "converts_faithfully ev \<longleftrightarrow>
     (\<forall>i bp f. tr_inner (ev_build_receipt ev i bp f) = f (ci_receipt i) (ci_next_log_index i) (ci_meta i)
       \<and> tr_gas_used (ev_build_receipt ev i bp f) = ci_gas_used i
       \<and> tr_transaction_hash (ev_build_receipt ev i bp f) = tm_tx_hash (ci_meta i))"

text \<open>The header fields of a block that its base determines.\<close>

definition base_block :: "ExecutionPayloadBaseV1 \<Rightarrow> Block" where
  "base_block base = \<lparr>blk_header = default_header\<lparr>hd_number := base_block_number base,
      hd_timestamp := base_timestamp base,
      hd_base_fee_per_gas := Some (ucast (base_base_fee_per_gas base))\<rparr>,
     blk_transactions = [], blk_withdrawals = None\<rparr>"

definition of_base :: "Block \<Rightarrow> ExecutionPayloadBaseV1 \<Rightarrow> bool" where
  "of_base block base \<longleftrightarrow> hd_number (blk_header block) = base_block_number base
     \<and> hd_timestamp (blk_header block) = base_timestamp base
     \<and> hd_base_fee_per_gas (blk_header block) = Some (ucast (base_base_fee_per_gas base))"

text \<open>The transactions of a block in order, each with its logs, numbered through the block.\<close>

fun tx_view ::
    "('sp, 'db, 'env, 'st) evm \<Rightarrow> ExecutionPayloadBaseV1 \<Rightarrow> (b256 \<rightharpoonup> receipt)
      \<Rightarrow> (TransactionSigned \<Rightarrow> address) \<Rightarrow> nat \<Rightarrow> nat \<Rightarrow> TransactionSigned list
      \<Rightarrow> (Transaction \<times> Log list) list" where
  "tx_view ev base receipts sf idx nli [] = []"
| "tx_view ev base receipts sf idx nli (t # ts) =
     (let ls = (case receipts (tx_hash t) of None \<Rightarrow> [] | Some r \<Rightarrow> rc_logs r) in
      (rpc_transaction ev (base_block base) base idx t (sf t),
       rpc_logs (transaction_meta (base_block base) idx t) nli ls)
      # tx_view ev base receipts sf (idx + 1) (nli + length ls) ts)"

lemma tx_view_length [simp]: "length (tx_view ev base receipts sf idx nli ts) = length ts"
  by (induction ts arbitrary: idx nli) (auto simp: Let_def)

lemma tx_view_inner: "map (rt_inner \<circ> fst) (tx_view ev base receipts sf idx nli ts) = ts"
  by (induction ts arbitrary: idx nli) (auto simp: Let_def rpc_transaction_def)

lemma tx_view_from:
  "x \<in> set (tx_view ev base receipts sf idx nli ts) \<Longrightarrow> rt_from (fst x) = sf (rt_inner (fst x))"
  by (induction ts arbitrary: idx nli) (auto simp: Let_def rpc_transaction_def)

text \<open>The logs of a block, whatever computes them: those of the receipts, numbered in one run.\<close>

definition wire_logs :: "(b256 \<rightharpoonup> receipt) \<Rightarrow> TransactionSigned \<Rightarrow> plog list" where
  "wire_logs receipts t = (case receipts (tx_hash t) of None \<Rightarrow> [] | Some r \<Rightarrow> rc_logs r)"

lemma rpc_logs_numbered:
  "map rl_inner (rpc_logs meta n ls) = ls"
  "map rl_log_index (rpc_logs meta n ls) = map (\<lambda>i. Some (of_nat i)) [n..<n + length ls]"
  by (induction ls arbitrary: n) (simp_all add: rpc_log_def upt_conv_Cons del: upt_Suc)

lemma rpc_logs_length [simp]: "length (rpc_logs meta n ls) = length ls"
  using arg_cong [OF rpc_logs_numbered(1), of length] by simp

lemma tx_view_logs:
  "map rl_inner (concat (map snd (tx_view ev base receipts sf idx nli ts)))
     = concat (map (wire_logs receipts) ts)
   \<and> map rl_log_index (concat (map snd (tx_view ev base receipts sf idx nli ts)))
     = map (\<lambda>i. Some (of_nat i)) [nli..<nli + length (concat (map (wire_logs receipts) ts))]"
proof (induction ts arbitrary: idx nli)
  case (Cons t ts)
  let ?ls = "wire_logs receipts t" and ?n = "length (concat (map (wire_logs receipts) ts))"
  have "[nli..<nli + (length ?ls + ?n)] = [nli..<nli + length ?ls] @ [nli + length ?ls..<nli + length ?ls + ?n]"
    using upt_add_eq_append [of nli "nli + length ?ls" ?n] by (simp add: add.assoc)
  with Cons [of "idx + 1" "nli + length ?ls"] show ?case
    by (simp add: Let_def rpc_logs_numbered flip: wire_logs_def)
qed simp

lemma tx_view_cong:
  assumes "\<And>t. t \<in> set ts \<Longrightarrow> sf t = sg t" and "\<And>t. t \<in> set ts \<Longrightarrow> r (tx_hash t) = q (tx_hash t)"
  shows "tx_view ev base r sf idx nli ts = tx_view ev base q sg idx nli ts"
  using assms
proof (induction ts arbitrary: idx nli)
  case (Cons t ts)
  then have "tx_view ev base r sf i n ts = tx_view ev base q sg i n ts" for i n by simp
  with Cons.prems show ?case by (simp add: Let_def)
qed simp

lemma tx_view_append:
  "\<exists>us'. tx_view ev base r sf idx nli (ts @ us) = tx_view ev base r sf idx nli ts @ us' \<and> length us' = length us"
proof (induction ts arbitrary: idx nli)
  case Nil
  show ?case by (intro exI [of _ "tx_view ev base r sf idx nli us"]) simp
next
  case (Cons t ts)
  then show ?case by (simp add: Let_def)
qed

section \<open>The loop over transactions\<close>

definition builder_view :: "'st PendingBlocksBuilder \<Rightarrow> (Transaction \<times> Log list) list" where
  "builder_view b = map (\<lambda>t. (t, case pbb_transaction_receipts b (rt_hash t) of
       None \<Rightarrow> [] | Some r \<Rightarrow> rwb_logs (tr_inner r))) (pbb_transactions b)"

text \<open>Every listed transaction has a receipt, an EVM state and its sender.\<close>

definition complete :: "'st PendingBlocksBuilder \<Rightarrow> bool" where
  "complete b \<longleftrightarrow> (\<forall>t \<in> set (pbb_transactions b).
     pbb_transaction_receipts b (rt_hash t) \<noteq> None
   \<and> pbb_transaction_state b (rt_hash t) \<noteq> None
   \<and> pbb_transaction_senders b (rt_hash t) = Some (rt_from t))"

lemma rt_hash_rpc_transaction [simp]: "rt_hash (rpc_transaction ev block base idx t a) = tx_hash t"
  by (simp add: rt_hash_def rpc_transaction_def)

lemma rt_from_rpc_transaction [simp]: "rt_from (rpc_transaction ev block base idx t a) = a"
  by (simp add: rpc_transaction_def)

lemma rpc_logs_cong:
  "tm_block_hash m = tm_block_hash n \<Longrightarrow> tm_block_number m = tm_block_number n \<Longrightarrow>
   tm_timestamp m = tm_timestamp n \<Longrightarrow> tm_tx_hash m = tm_tx_hash n \<Longrightarrow> tm_index m = tm_index n \<Longrightarrow>
   rpc_logs m i ls = rpc_logs n i ls"
  by (induction ls arbitrary: i) (simp_all add: rpc_log_def)

lemma rpc_transaction_base:
  "of_base block base \<Longrightarrow>
     rpc_transaction ev block base idx t a = rpc_transaction ev (base_block base) base idx t a"
  by (simp add: rpc_transaction_def of_base_def base_block_def)

lemma eth_receipt_logs:
  "converts_faithfully ev \<Longrightarrow> of_base block base \<Longrightarrow>
     rwb_logs (tr_inner (eth_receipt ev block idx t a r g nli)) =
       rpc_logs (transaction_meta (base_block base) idx t) nli (rc_logs r)"
  by (auto simp: converts_faithfully_def eth_receipt_def Let_def rpc_receipt_def transaction_meta_def
      of_base_def base_block_def intro!: rpc_logs_cong)

text \<open>The builder after a transaction, and the counters of the loop.\<close>

lemma process_transaction_Inr:
  assumes "process_transaction ev prev env block base receipts idx t a ac m = (Inr ac', m')"
  shows "\<exists>r g st. receipts (tx_hash t) = Some r
     \<and> checked_sub (rc_cumulative_gas_used r) (tl_gas_used ac) = Some g
     \<and> tl_builder ac' = with_transaction_state (tx_hash t) st (with_receipt (tx_hash t)
          (eth_receipt ev block idx t a r g (tl_next_log_index ac))
          (with_transaction (rpc_transaction ev block base idx t a)
            (with_transaction_sender (tx_hash t) a (tl_builder ac))))
     \<and> tl_next_log_index ac' = tl_next_log_index ac + length (rc_logs r)
     \<and> tl_gas_used ac' = rc_cumulative_gas_used r"
  using assms
  by (auto simp: process_transaction_def Let_def split: option.splits sum.splits if_splits) blast+

definition tx_builder ::
    "b256 \<Rightarrow> address \<Rightarrow> Transaction \<Rightarrow> TransactionReceipt \<Rightarrow> 'st
      \<Rightarrow> 'st PendingBlocksBuilder \<Rightarrow> 'st PendingBlocksBuilder" where
  "tx_builder h a x r st b = with_transaction_state h st (with_receipt h r
     (with_transaction x (with_transaction_sender h a b)))"

lemma tx_builder_keeps [simp]:
  "pbb_flashblocks (tx_builder h a x r st b) = pbb_flashblocks b"
  "pbb_headers (tx_builder h a x r st b) = pbb_headers b"
  by (simp_all add: tx_builder_def builder_defs Let_def)

lemma tx_builder_error:
  "pbb_deferred_error (tx_builder h a x r st b) = None \<Longrightarrow> rt_hash x = h \<Longrightarrow>
     pbb_deferred_error b = None \<and> pbb_transactions_by_hash b h = None"
  by (auto simp: tx_builder_def builder_defs Let_def split: if_splits option.splits)

lemma tx_builder_inv: "builder_inv b \<Longrightarrow> builder_inv (tx_builder h a x r st b)"
  by (simp add: tx_builder_def builder_inv_with_transaction)

lemma tx_builder_view:
  assumes "builder_inv b" and "pbb_transactions_by_hash b h = None" and "rt_hash x = h"
  shows "builder_view (tx_builder h a x r st b) = builder_view b @ [(x, rwb_logs (tr_inner r))]"
    and "complete b \<Longrightarrow> rt_from x = a \<Longrightarrow> complete (tx_builder h a x r st b)"
proof -
  have n: "rt_hash t \<noteq> h" if "t \<in> set (pbb_transactions b)" for t
    using assms(1,2) that unfolding builder_inv_def index_consistent_def
    by (metis option.distinct(1))
  have t: "pbb_transactions (tx_builder h a x r st b) = pbb_transactions b @ [x]"
    "pbb_transaction_receipts (tx_builder h a x r st b) = (pbb_transaction_receipts b)(h \<mapsto> r)"
    "pbb_transaction_state (tx_builder h a x r st b) = (pbb_transaction_state b)(h \<mapsto> st)"
    "pbb_transaction_senders (tx_builder h a x r st b) = (pbb_transaction_senders b)(h \<mapsto> a)"
    using assms(2,3) by (simp_all add: tx_builder_def builder_defs Let_def)
  show "builder_view (tx_builder h a x r st b) = builder_view b @ [(x, rwb_logs (tr_inner r))]"
    using n assms(3) by (simp add: builder_view_def t)
  show "complete b \<Longrightarrow> rt_from x = a \<Longrightarrow> complete (tx_builder h a x r st b)"
    using n assms(3) by (simp add: complete_def t)
qed

lemma process_transactions_inv:
  "process_transactions ev prev env block base receipts senders idx ts ac m = (Inr ac', m') \<Longrightarrow>
     builder_inv (tl_builder ac) \<Longrightarrow> builder_inv (tl_builder ac')"
proof (induction ts arbitrary: idx ac m)
  case (Cons t ts)
  obtain ac1 m1 where s: "process_transaction ev prev env block base receipts idx t (senders ! idx) ac m
      = (Inr ac1, m1)"
    and rest: "process_transactions ev prev env block base receipts senders (idx + 1) ts ac1 m1 = (Inr ac', m')"
    using Cons.prems(1) by (auto split: prod.splits sum.splits)
  have "builder_inv (tl_builder ac1)"
    using process_transaction_Inr [OF s] Cons.prems(2) by (auto simp: builder_inv_with_transaction)
  then show ?case by (rule Cons.IH [OF rest])
qed simp

lemma process_transactions_view:
  assumes "process_transactions ev prev env block base receipts senders idx ts ac m = (Inr ac', m')"
    and "pbb_deferred_error (tl_builder ac') = None" and "builder_inv (tl_builder ac)"
    and "converts_faithfully ev" and "of_base block base"
    and "\<And>i. i < length ts \<Longrightarrow> senders ! (idx + i) = sf (ts ! i)"
  shows "builder_view (tl_builder ac') =
      builder_view (tl_builder ac) @ tx_view ev base receipts sf idx (tl_next_log_index ac) ts
    \<and> builder_inv (tl_builder ac') \<and> pbb_deferred_error (tl_builder ac) = None
    \<and> pbb_flashblocks (tl_builder ac') = pbb_flashblocks (tl_builder ac)
    \<and> pbb_headers (tl_builder ac') = pbb_headers (tl_builder ac)
    \<and> (complete (tl_builder ac) \<longrightarrow> complete (tl_builder ac'))"
  using assms(1-3,6)
proof (induction ts arbitrary: idx ac m)
  case Nil
  then show ?case by simp
next
  case (Cons t ts)
  obtain ac1 m1 where s: "process_transaction ev prev env block base receipts idx t (senders ! idx) ac m
      = (Inr ac1, m1)"
    and rest: "process_transactions ev prev env block base receipts senders (idx + 1) ts ac1 m1 = (Inr ac', m')"
    using Cons.prems(1) by (auto split: prod.splits sum.splits)
  obtain r g st where r: "receipts (tx_hash t) = Some r"
    and b: "tl_builder ac1 = tx_builder (tx_hash t) (senders ! idx)
        (rpc_transaction ev block base idx t (senders ! idx))
        (eth_receipt ev block idx t (senders ! idx) r g (tl_next_log_index ac)) st (tl_builder ac)"
    and n: "tl_next_log_index ac1 = tl_next_log_index ac + length (rc_logs r)"
    using process_transaction_Inr [OF s] by (auto simp: tx_builder_def)
  have i1: "builder_inv (tl_builder ac1)" unfolding b by (rule tx_builder_inv [OF Cons.prems(3)])
  have sf: "senders ! (idx + 1 + i) = sf (ts ! i)" if "i < length ts" for i
    using Cons.prems(4) [of "Suc i"] that by simp
  have s0: "senders ! idx = sf t" using Cons.prems(4) [of 0] by simp
  note IH = Cons.IH [OF rest Cons.prems(2) i1 sf]
  then have "pbb_deferred_error (tl_builder ac1) = None" by blast
  then have e: "pbb_deferred_error (tl_builder ac) = None"
    "pbb_transactions_by_hash (tl_builder ac) (tx_hash t) = None"
    unfolding b by (auto dest: tx_builder_error)
  have v: "builder_view (tl_builder ac1) = builder_view (tl_builder ac)
      @ [(rpc_transaction ev (base_block base) base idx t (sf t),
          rpc_logs (transaction_meta (base_block base) idx t) (tl_next_log_index ac) (rc_logs r))]"
    unfolding b using tx_builder_view(1) [OF Cons.prems(3) e(2)]
    by (simp add: s0 rpc_transaction_base [OF assms(5)] eth_receipt_logs [OF assms(4,5)])
  have c: "complete (tl_builder ac) \<Longrightarrow> complete (tl_builder ac1)"
    unfolding b by (rule tx_builder_view(2) [OF Cons.prems(3) e(2)]) simp_all
  show ?case using IH v c e(1) r n by (simp add: b Let_def)
qed

section \<open>The loop over blocks\<close>

definition sender_of ::
    "('sp, 'db, 'env, 'st) evm \<Rightarrow> 'st PendingBlocks option \<Rightarrow> TransactionSigned \<Rightarrow> address" where
  "sender_of ev prev t =
     (case Option.bind prev (\<lambda>p. get_transaction_sender p (tx_hash t)) of
        Some a \<Rightarrow> a
      | None \<Rightarrow> (case ev_recover_signer ev t of Inr a \<Rightarrow> a | Inl _ \<Rightarrow> 0))"

lemma recover_senders_nth:
  assumes "recover_senders (ev_recover_signer ev) ts
      (\<lambda>h. Option.bind prev (\<lambda>p. get_transaction_sender p h)) = Inr as" and "i < length ts"
  shows "as ! i = sender_of ev prev (ts ! i)"
proof -
  from assms have "(case Option.bind prev (\<lambda>p. get_transaction_sender p (tx_hash (ts ! i))) of
        Some sender \<Rightarrow> Inr sender
      | None \<Rightarrow> map_err processor_error_from_recovery (ev_recover_signer ev (ts ! i))) = Inr (as ! i)"
    unfolding recover_senders_def map_res_Inr by (rule list_all2_nthD)
  then show ?thesis by (auto simp: sender_of_def split: option.splits)
qed

definition wire_transactions :: "FlashBlock list \<Rightarrow> bytes list" where
  "wire_transactions fbs = concat (map (\<lambda>fb. diff_transactions (fb_diff fb)) fbs)"

definition block_view ::
    "('sp, 'db, 'env, 'st) evm \<Rightarrow> (bytes \<Rightarrow> TransactionSigned) \<Rightarrow> (TransactionSigned \<Rightarrow> address)
      \<Rightarrow> FlashBlock list \<Rightarrow> (Transaction \<times> Log list) list" where
  "block_view ev dt sf fbs =
     (case fb_base (hd fbs) of
        None \<Rightarrow> []
      | Some base \<Rightarrow> tx_view ev base (wire_receipts fbs) sf 0 0 (map dt (wire_transactions fbs)))"

lemma block_view_logs:
  assumes "fb_base (hd fbs) = Some base"
  shows "map rl_inner (concat (map snd (block_view ev dt sf fbs))) =
        concat (map (wire_logs (wire_receipts fbs) \<circ> dt) (wire_transactions fbs))
      \<and> map rl_log_index (concat (map snd (block_view ev dt sf fbs))) =
        map (\<lambda>i. Some (of_nat i)) [0..<length (concat (map snd (block_view ev dt sf fbs)))]"
proof -
  let ?w = "concat (map (wire_logs (wire_receipts fbs) \<circ> dt) (wire_transactions fbs))"
  note l = tx_view_logs [of ev base "wire_receipts fbs" sf 0 0 "map dt (wire_transactions fbs)"]
  have inner: "map rl_inner (concat (map snd (block_view ev dt sf fbs))) = ?w"
    using l assms by (simp add: block_view_def)
  then have "length (concat (map snd (block_view ev dt sf fbs))) = length ?w"
    by (metis length_map)
  with inner l assms show ?thesis by (simp add: block_view_def)
qed

lemma with_account_balances_simps [simp]:
  "builder_view (with_account_balances m b) = builder_view b"
  "builder_inv (with_account_balances m b) = builder_inv b"
  "complete (with_account_balances m b) = complete b"
  "pbb_deferred_error (with_account_balances m b) = pbb_deferred_error b"
  "pbb_flashblocks (with_account_balances m b) = pbb_flashblocks b"
  "pbb_headers (with_account_balances m b) = pbb_headers b"
  by (simp_all add: with_account_balances_def builder_view_def builder_inv_def complete_def)

lemma head_simps [simp]:
  "builder_view (with_header h (with_flashblocks fbs b)) = builder_view b"
  "complete (with_header h (with_flashblocks fbs b)) = complete b"
  "pbb_deferred_error (with_header h (with_flashblocks fbs b)) = pbb_deferred_error b"
  "pbb_flashblocks (with_header h (with_flashblocks fbs b)) = pbb_flashblocks b @ fbs"
  "pbb_headers (with_header h (with_flashblocks fbs b)) = pbb_headers b @ [h]"
  by (simp_all add: with_header_def with_flashblocks_def builder_view_def complete_def)

lemma process_block_inv:
  assumes "process_block ev prev fbs bl m = (Inr bl', m')" and "builder_inv (bl_builder bl)"
  shows "builder_inv (bl_builder bl')"
  using assms process_transactions_inv
  by (fastforce simp: process_block_def Let_def split: list.splits option.splits sum.splits prod.splits)

lemma process_block_view:
  assumes "process_block ev prev fbs bl m = (Inr bl', m')"
    and "pbb_deferred_error (bl_builder bl') = None" and "builder_inv (bl_builder bl)"
    and "converts_faithfully ev" and "decodes_faithfully (ev_spec ev) dt"
  shows "\<exists>base h. fbs \<noteq> [] \<and> fb_base (hd fbs) = Some base \<and> sh_number h = base_block_number base
    \<and> builder_view (bl_builder bl') = builder_view (bl_builder bl) @ block_view ev dt (sender_of ev prev) fbs
    \<and> builder_inv (bl_builder bl') \<and> pbb_deferred_error (bl_builder bl) = None
    \<and> pbb_flashblocks (bl_builder bl') = pbb_flashblocks (bl_builder bl) @ fbs
    \<and> pbb_headers (bl_builder bl') = pbb_headers (bl_builder bl) @ [h]
    \<and> (complete (bl_builder bl) \<longrightarrow> complete (bl_builder bl'))"
proof -
  obtain f rest where f: "fbs = f # rest" using assms(1) by (cases fbs) (auto simp: process_block_def)
  obtain base where b: "fb_base f = Some base"
    using assms(1) f by (cases "fb_base f") (auto simp: process_block_def)
  obtain ab where a: "assemble (ev_spec ev) fbs = Inr ab"
    using assms(1) f b by (cases "assemble (ev_spec ev) fbs") (auto simp: process_block_def)
  obtain env db where p: "prepare_block ev base (ab_header ab) (bl_last_block_header bl) (bl_db bl)
      = Inr (env, db)"
    using assms(1) f b a
    by (cases "prepare_block ev base (ab_header ab) (bl_last_block_header bl) (bl_db bl)")
      (auto simp: process_block_def Let_def)
  let ?rs = "recover_senders (ev_recover_signer ev) (blk_transactions (ab_block ab))
      (\<lambda>h. Option.bind prev (\<lambda>p. get_transaction_sender p h))"
  obtain as where r: "?rs = Inr as"
    using assms(1) f b a p by (cases ?rs) (auto simp: process_block_def Let_def)
  let ?ac = "\<lparr>tl_builder = with_header (ab_header ab) (with_flashblocks fbs (bl_builder bl)),
      tl_db = db, tl_gas_used = 0, tl_next_log_index = 0\<rparr>"
  let ?pt = "process_transactions ev prev env (ab_block ab) base (wire_receipts fbs) as 0
      (blk_transactions (ab_block ab)) ?ac m"
  obtain ac' where t: "?pt = (Inr ac', m')"
    and bl': "bl_builder bl' = with_account_balances (updated_balances fbs) (tl_builder ac')"
    using assms(1) f b a p r
    by (cases ?pt; cases "fst ?pt") (auto simp: process_block_def Let_def)
  have tx: "blk_transactions (ab_block ab) = map dt (wire_transactions fbs)"
    and ob: "of_base (ab_block ab) base" and h: "sh_number (ab_header ab) = base_block_number base"
    using assemble_fields [OF assms(5) a] b f
    by (auto simp: wire_transactions_def of_base_def sh_number_def seal_def)
  have e: "pbb_deferred_error (tl_builder ac') = None" using assms(2) bl' by simp
  have i: "builder_inv (tl_builder ?ac)" using assms(3) by simp
  have "as ! (0 + i) = sender_of ev prev (blk_transactions (ab_block ab) ! i)"
    if "i < length (blk_transactions (ab_block ab))" for i
    using recover_senders_nth [OF r that] by simp
  from process_transactions_view [OF t e i assms(4) ob this]
  show ?thesis
    using bl' h b f by (intro exI [of _ base] exI [of _ "ab_header ab"]) (simp add: block_view_def tx)
qed

lemma process_blocks_view:
  assumes "process_blocks ev prev groups bl m = (Inr bl', m')"
    and "pbb_deferred_error (bl_builder bl') = None" and "builder_inv (bl_builder bl)"
    and "converts_faithfully ev" and "decodes_faithfully (ev_spec ev) dt"
  shows "builder_view (bl_builder bl') = builder_view (bl_builder bl)
      @ concat (map (\<lambda>g. block_view ev dt (sender_of ev prev) (snd g)) groups)
    \<and> builder_inv (bl_builder bl') \<and> pbb_deferred_error (bl_builder bl) = None
    \<and> pbb_flashblocks (bl_builder bl') = pbb_flashblocks (bl_builder bl) @ concat (map snd groups)
    \<and> (complete (bl_builder bl) \<longrightarrow> complete (bl_builder bl'))
    \<and> map (Some \<circ> sh_number) (pbb_headers (bl_builder bl')) = map (Some \<circ> sh_number) (pbb_headers (bl_builder bl))
      @ map (\<lambda>g. map_option base_block_number (fb_base (hd (snd g)))) groups
    \<and> (\<forall>g \<in> set groups. snd g \<noteq> [] \<and> fb_base (hd (snd g)) \<noteq> None)"
  using assms(1-3)
proof (induction groups arbitrary: bl m)
  case Nil
  then show ?case by simp
next
  case (Cons g groups)
  obtain bn fbs where g: "g = (bn, fbs)" by fastforce
  obtain bl1 m1 where s: "process_block ev prev fbs bl m = (Inr bl1, m1)"
    and rest: "process_blocks ev prev groups bl1 m1 = (Inr bl', m')"
    using Cons.prems(1) g by (auto split: prod.splits sum.splits)
  have e1: "pbb_deferred_error (bl_builder bl1) = None \<and> builder_inv (bl_builder bl1)"
    if "builder_inv (bl_builder bl1)"
    using Cons.IH [OF rest Cons.prems(2) that] that by blast
  have i1: "builder_inv (bl_builder bl1)" by (rule process_block_inv [OF s Cons.prems(3)])
  with e1 have e: "pbb_deferred_error (bl_builder bl1) = None" by blast
  show ?case
    using Cons.IH [OF rest Cons.prems(2) i1] process_block_view [OF s e Cons.prems(3) assms(4,5)]
    by (auto simp: g)
qed

section \<open>The view of a snapshot\<close>

definition snapshot_view :: "'st PendingBlocks \<Rightarrow> (Transaction \<times> Log list) list" where
  "snapshot_view pb = map (\<lambda>t. (t, logs_of pb (rt_hash t))) (pb_transactions pb)"

definition snapshot_complete :: "'st PendingBlocks \<Rightarrow> bool" where
  "snapshot_complete pb \<longleftrightarrow> (\<forall>t \<in> set (pb_transactions pb).
     get_receipt pb (rt_hash t) \<noteq> None \<and> get_transaction_state pb (rt_hash t) \<noteq> None
   \<and> get_transaction_sender pb (rt_hash t) = Some (rt_from t))"

text \<open>The facts of a snapshot built from grouped flashblocks.\<close>

definition snapshot_of ::
    "('sp, 'db, 'env, 'st) evm \<Rightarrow> (bytes \<Rightarrow> TransactionSigned) \<Rightarrow> 'st PendingBlocks option
      \<Rightarrow> (u64 \<times> FlashBlock list) list \<Rightarrow> 'st PendingBlocks \<Rightarrow> bool" where
  "snapshot_of ev dt prev groups pb \<longleftrightarrow>
     wf_pending pb \<and> snapshot_complete pb
   \<and> snapshot_view pb = concat (map (\<lambda>g. block_view ev dt (sender_of ev prev) (snd g)) groups)
   \<and> pb_flashblocks pb = concat (map snd groups)
   \<and> map (Some \<circ> sh_number) (pb_headers pb) =
       map (\<lambda>g. map_option base_block_number (fb_base (hd (snd g)))) groups
   \<and> (\<forall>g \<in> set groups. snd g \<noteq> [] \<and> fb_base (hd (snd g)) \<noteq> None)"

lemma builder_new_simps [simp]:
  "complete builder_new" "builder_view builder_new = []"
  "pbb_flashblocks builder_new = []" "pbb_headers builder_new = []"
  by (simp_all add: complete_def builder_view_def builder_new_def)

lemma build_from_anchor_snapshot:
  assumes "build_from_anchor ev prev groups h sp m = (Inr pb, m')"
    and "converts_faithfully ev" and "decodes_faithfully (ev_spec ev) dt"
  shows "snapshot_of ev dt prev groups pb \<and> pb_anchor pb = Some (seal h (ev_hash_slow ev h))"
proof -
  obtain db0 m1 bl where p: "process_blocks ev prev groups
      \<lparr>bl_builder = builder_new, bl_db = db0, bl_last_block_header = h\<rparr> m1 = (Inr bl, m')"
    and b: "build (with_anchor (seal h (ev_hash_slow ev h))
        (with_bundle_state (ev_take_bundle ev (bl_db bl)) (bl_builder bl))) = Inr pb"
    using assms(1) by (auto simp: build_from_anchor_def Let_def split: prod.splits sum.splits)
  note bf = build_fields [OF b]
  have e: "pbb_deferred_error (bl_builder bl) = None"
    using bf(14) by (simp add: with_anchor_def with_bundle_state_def)
  have i: "builder_inv (bl_builder \<lparr>bl_builder = builder_new, bl_db = db0, bl_last_block_header = h\<rparr>)"
    by simp
  note v = process_blocks_view [OF p e i assms(2,3)]
  have "snapshot_view pb = builder_view (bl_builder bl)" "snapshot_complete pb = complete (bl_builder bl)"
    by (simp_all add: snapshot_view_def builder_view_def logs_of_def snapshot_complete_def complete_def
        bf get_receipt_def get_transaction_state_def get_transaction_sender_def
        with_anchor_def with_bundle_state_def)
  moreover have "wf_pending pb"
    using build_wf [OF _ b] v by simp
  ultimately show ?thesis
    using v by (simp add: snapshot_of_def bf with_anchor_def with_bundle_state_def)
qed

text \<open>A successful build, taken apart: the two provider reads and the loop over the blocks.\<close>

lemma build_pending_state_Some:
  assumes "build_pending_state pe s prev fbs = (Inr (Some a), t)"
  shows "\<exists>e h sp m m'. flashblocks_per_block fbs \<noteq> []
    \<and> fst (hd (flashblocks_per_block fbs)) = e \<and> e \<noteq> 0
    \<and> cl_header_by_number (pe_clients pe (ps_reads s)) (e - 1) = Inr (Some h)
    \<and> cl_state_by_block_number (pe_clients pe (ps_reads s + 1)) (e - 1) = Inr sp
    \<and> build_from_anchor (pe_evm pe) (map_option arc_val prev) (flashblocks_per_block fbs) h sp m
        = (Inr (arc_val a), m')"
proof -
  obtain e g gs where f: "flashblocks_per_block fbs = (e, g) # gs"
    using assms by (cases "flashblocks_per_block fbs") (auto simp: build_pending_state_def)
  have z: "e \<noteq> 0" "checked_sub e 1 = Some (e - 1)"
    using assms f by (auto simp: build_pending_state_def checked_sub_def split: if_splits)
  obtain h where h: "cl_header_by_number (pe_clients pe (ps_reads s)) (e - 1) = Inr (Some h)"
    using assms f z
    by (cases "cl_header_by_number (pe_clients pe (ps_reads s)) (e - 1)")
      (auto simp: build_pending_state_def read_client_def split: option.splits)
  obtain sp where sp: "cl_state_by_block_number (pe_clients pe (ps_reads s + 1)) (e - 1) = Inr sp"
    using assms f z h
    by (cases "cl_state_by_block_number (pe_clients pe (ps_reads s + 1)) (e - 1)")
      (auto simp: build_pending_state_def read_client_def)
  let ?b = "build_from_anchor (pe_evm pe) (map_option arc_val prev) ((e, g) # gs) h sp (ps_metrics s)"
  obtain m' where "?b = (Inr (arc_val a), m')"
    using assms f z h sp
    by (cases ?b; cases "fst ?b")
      (auto simp: build_pending_state_def read_client_def arc_new_def Let_def)
  with f z h sp show ?thesis by auto
qed

lemma build_pending_state_snapshot:
  assumes "build_pending_state pe s prev fbs = (Inr (Some a), t)"
    and "converts_faithfully (pe_evm pe)" and "decodes_faithfully (ev_spec (pe_evm pe)) dt"
  shows "snapshot_of (pe_evm pe) dt (map_option arc_val prev) (flashblocks_per_block fbs) (arc_val a)"
proof -
  obtain h sp m m' where "build_from_anchor (pe_evm pe) (map_option arc_val prev)
      (flashblocks_per_block fbs) h sp m = (Inr (arc_val a), m')"
    using build_pending_state_Some [OF assms(1)] by blast
  from build_from_anchor_snapshot [OF this assms(2,3)] show ?thesis by blast
qed

section \<open>The next flashblock\<close>

text \<open>The concatenated groups, grouped again, are the groups.\<close>

lemma foldl_push_group:
  assumes "\<forall>x \<in> set fbs. block_number_of x = k" and "\<And>x. x \<in> fst ` set gs \<Longrightarrow> x < k"
    and "sorted_wrt (<) (map fst gs)" and "fbs \<noteq> []"
  shows "foldl (\<lambda>m fb. bt_push (md_block_number (fb_metadata fb)) fb m) gs fbs = gs @ [(k, fbs)]"
  using assms(1,4)
proof (induction fbs rule: rev_induct)
  case (snoc x xs)
  have k: "md_block_number (fb_metadata x) = k" using snoc.prems by (simp add: block_number_of_def)
  show ?case
  proof (cases "xs = []")
    case True
    then show ?thesis using bt_push_next [OF assms(2)] k by simp
  next
    case False
    have "sorted_wrt (<) (map fst (gs @ [(k, xs)]))"
      using assms(2,3) by (auto simp: sorted_wrt_append)
    then show ?thesis using snoc False k by (simp add: bt_push_append)
  qed
qed simp

lemma regroup:
  assumes "sorted_wrt (<) (map fst gs)"
    and "\<forall>g \<in> set gs. snd g \<noteq> [] \<and> (\<forall>x \<in> set (snd g). block_number_of x = fst g)"
  shows "flashblocks_per_block (concat (map snd gs)) = gs"
  using assms
proof (induction gs rule: rev_induct)
  case (snoc g gs)
  have s: "sorted_wrt (<) (map fst gs)" and lt: "\<And>x. x \<in> fst ` set gs \<Longrightarrow> x < fst g"
    using snoc.prems(1) by (auto simp: sorted_wrt_append)
  have "flashblocks_per_block (concat (map snd gs)) = gs" using snoc s by simp
  then show ?case
    using foldl_push_group [of "snd g" "fst g" gs] lt s snoc.prems(2)
    by (simp add: flashblocks_per_block_def)
qed (simp add: flashblocks_per_block_def)

lemma block_view_length:
  "fb_base (hd fbs) \<noteq> None \<Longrightarrow> length (block_view ev dt sf fbs) = length (wire_transactions fbs)"
  by (auto simp: block_view_def)

lemma snapshot_covers:
  assumes "snapshot_of ev dt prev groups pb"
  shows "covers pb"
proof -
  have w: "length (wire_transactions fbs) = sum_list (map (\<lambda>fb. length (diff_transactions (fb_diff fb))) fbs)"
    for fbs by (simp add: wire_transactions_def length_concat comp_def)
  have "length (pb_transactions pb) = length (snapshot_view pb)" by (simp add: snapshot_view_def)
  also have "\<dots> = sum_list (map (\<lambda>g. length (wire_transactions (snd g))) groups)"
    using assms by (auto simp: snapshot_of_def length_concat comp_def block_view_length
        intro!: arg_cong [of _ _ sum_list])
  also have "\<dots> = length (wire_transactions (concat (map snd groups)))"
    by (induction groups) (simp_all add: wire_transactions_def)
  finally show ?thesis using assms by (simp add: covers_def w snapshot_of_def)
qed

text \<open>The sender of a transaction does not change when a later build reuses it.\<close>

lemma sender_reused:
  assumes "snapshot_of ev dt prev groups pb" and "g \<in> set groups"
    and "t \<in> set (map dt (wire_transactions (snd g)))"
  shows "sender_of ev (Some pb) t = sender_of ev prev t
    \<and> tx_hash t \<in> rt_hash ` set (pb_transactions pb)"
proof -
  obtain base where b: "fb_base (hd (snd g)) = Some base"
    using assms(1,2) by (auto simp: snapshot_of_def)
  let ?v = "block_view ev dt (sender_of ev prev) (snd g)"
  have v: "?v = tx_view ev base (wire_receipts (snd g)) (sender_of ev prev) 0 0
      (map dt (wire_transactions (snd g)))"
    by (simp add: block_view_def b)
  then have "t \<in> set (map (rt_inner \<circ> fst) ?v)" using assms(3) by (simp only: tx_view_inner)
  then obtain x where x: "x \<in> set ?v" "rt_inner (fst x) = t" by auto
  then have "x \<in> set (snapshot_view pb)" using assms(1,2) by (auto simp: snapshot_of_def)
  then have m: "fst x \<in> set (pb_transactions pb)" by (auto simp: snapshot_view_def)
  have "rt_from (fst x) = sender_of ev prev t" using tx_view_from x v by metis
  moreover have "get_transaction_sender pb (rt_hash (fst x)) = Some (rt_from (fst x))"
    using assms(1) m by (simp add: snapshot_of_def snapshot_complete_def)
  ultimately show ?thesis using x(2) m by (auto simp: sender_of_def rt_hash_def)
qed

lemma view_extends:
  assumes "snapshot_view q = snapshot_view p @ us"
  shows "take (length (pb_transactions p)) (pb_transactions q) = pb_transactions p"
    and "x \<in> set (pb_transactions p) \<Longrightarrow> logs_of q (rt_hash x) = logs_of p (rt_hash x)"
proof -
  have "map fst (snapshot_view q) = map fst (snapshot_view p) @ map fst us" using assms by simp
  then have q: "pb_transactions q = pb_transactions p @ map fst us"
    by (simp add: snapshot_view_def comp_def)
  then show "take (length (pb_transactions p)) (pb_transactions q) = pb_transactions p" by simp
  have "map (\<lambda>t. (t, logs_of q (rt_hash t))) (pb_transactions p)
      = map (\<lambda>t. (t, logs_of p (rt_hash t))) (pb_transactions p)"
    using assms q by (simp add: snapshot_view_def)
  then show "x \<in> set (pb_transactions p) \<Longrightarrow> logs_of q (rt_hash x) = logs_of p (rt_hash x)" by simp
qed

text \<open>The blocks that the new flashblock does not touch have the same view in both snapshots.\<close>

lemma blocks_reused:
  assumes "snapshot_of ev dt prev groups pb" and "set gs \<subseteq> set groups"
  shows "map (\<lambda>g. block_view ev dt (sender_of ev (Some pb)) (snd g)) gs
    = map (\<lambda>g. block_view ev dt (sender_of ev prev) (snd g)) gs"
proof (rule map_cong [OF refl])
  fix g assume "g \<in> set gs"
  then have g: "g \<in> set groups" using assms(2) by blast
  show "block_view ev dt (sender_of ev (Some pb)) (snd g) = block_view ev dt (sender_of ev prev) (snd g)"
    using sender_reused [OF assms(1) g] by (auto simp: block_view_def intro!: tx_view_cong split: option.split)
qed

text \<open>The block that the new flashblock extends keeps its view as a prefix.\<close>

lemma block_extended:
  assumes "snapshot_of ev dt prev groups pb" and g: "(k, fbs) \<in> set groups"
    and "\<And>t. t \<in> set (pb_transactions pb) \<Longrightarrow> md_receipts (fb_metadata fb) (rt_hash t) = None"
  shows "\<exists>us. block_view ev dt (sender_of ev (Some pb)) (fbs @ [fb])
    = block_view ev dt (sender_of ev prev) fbs @ us"
proof -
  obtain base where b: "fb_base (hd fbs) = Some base" "fbs \<noteq> []"
    using assms(1) g by (fastforce simp: snapshot_of_def)
  let ?ts = "map dt (wire_transactions fbs)"
  have w: "map dt (wire_transactions (fbs @ [fb])) = ?ts @ map dt (diff_transactions (fb_diff fb))"
    by (simp add: wire_transactions_def)
  have r: "wire_receipts (fbs @ [fb]) (tx_hash t) = wire_receipts fbs (tx_hash t)" if "t \<in> set ?ts" for t
    using sender_reused [OF assms(1) g, of t] assms(3) that
    by (auto simp: wire_receipts_snoc map_add_def)
  have "tx_view ev base (wire_receipts (fbs @ [fb])) (sender_of ev (Some pb)) 0 0 ?ts
      = tx_view ev base (wire_receipts fbs) (sender_of ev prev) 0 0 ?ts"
    using sender_reused [OF assms(1) g] r by (intro tx_view_cong) auto
  then show ?thesis
    using b tx_view_append [of ev base "wire_receipts (fbs @ [fb])" "sender_of ev (Some pb)" 0 0 ?ts]
    by (auto simp: block_view_def w)
qed

text \<open>The number of the latest block is the last group's, when the producer's numbers agree.\<close>

definition numbers_agree :: "FlashBlock list \<Rightarrow> bool" where
  "numbers_agree fbs \<longleftrightarrow>
     (\<forall>fb \<in> set fbs. \<forall>b. fb_base fb = Some b \<longrightarrow> base_block_number b = block_number_of fb)"

lemma latest_block_number_group:
  assumes "snapshot_of ev dt prev (gs @ [(k, g)]) pb" and "numbers_agree (pb_flashblocks pb)"
    and "\<forall>x \<in> set g. block_number_of x = k"
  shows "latest_block_number pb = k"
proof -
  have g: "g \<noteq> []" "fb_base (hd g) \<noteq> None" "set g \<subseteq> set (pb_flashblocks pb)"
    using assms(1) by (auto simp: snapshot_of_def)
  then obtain b where b: "fb_base (hd g) = Some b" by blast
  have "base_block_number b = block_number_of (hd g)"
    using assms(2) b g unfolding numbers_agree_def by (meson list.set_sel(1) subsetD)
  then have bk: "base_block_number b = k" using assms(3) g by simp
  have m: "map (Some \<circ> sh_number) (pb_headers pb) = map (\<lambda>g. map_option base_block_number (fb_base (hd (snd g)))) gs @ [Some k]"
    using assms(1) b bk by (simp add: snapshot_of_def)
  then have "pb_headers pb \<noteq> []" by auto
  then have "Some (sh_number (last (pb_headers pb))) = last (map (Some \<circ> sh_number) (pb_headers pb))"
    by (simp add: last_map)
  also have "\<dots> = Some k" by (simp add: m)
  finally show ?thesis
    using assms(1) by (simp add: latest_block_number_def snapshot_of_def wf_pending_def)
qed

lemma snapshot_extends:
  assumes p: "snapshot_of ev dt prev groups p" and gr: "groups = flashblocks_per_block fbs"
    and ne: "groups \<noteq> []" and na: "numbers_agree (pb_flashblocks p)"
    and q: "snapshot_of ev dt (Some p) (flashblocks_per_block (pb_flashblocks p @ [fb])) q"
    and bn: "block_number_of fb = latest_block_number p
        \<or> latest_block_number p < block_number_of fb"
    and fresh: "\<And>t. t \<in> set (pb_transactions p) \<Longrightarrow> md_receipts (fb_metadata fb) (rt_hash t) = None"
  shows "extends_by_one p q"
proof -
  have sg: "sorted_wrt (<) (map fst groups)"
    "\<forall>g \<in> set groups. snd g \<noteq> [] \<and> (\<forall>x \<in> set (snd g). block_number_of x = fst g)"
    using gr flashblocks_per_block_sorted flashblocks_per_block_groups by simp_all
  obtain gs k g where last: "groups = gs @ [(k, g)]"
    using ne by (metis rev_exhaust surj_pair)
  have k: "latest_block_number p = k"
    using latest_block_number_group p na sg(2) last by fastforce
  have fp: "pb_flashblocks p = concat (map snd groups)" using p by (simp add: snapshot_of_def)
  have gs': "flashblocks_per_block (pb_flashblocks p @ [fb]) = bt_push (block_number_of fb) fb groups"
    using regroup [OF sg] by (simp add: flashblocks_per_block_snoc fp)
  define new where "new = flashblocks_per_block (pb_flashblocks p @ [fb])"
  have qv: "snapshot_view q = concat (map (\<lambda>g. block_view ev dt (sender_of ev (Some p)) (snd g)) new)"
    and qf: "pb_flashblocks q = concat (map snd new)"
    using q by (simp_all add: snapshot_of_def new_def)
  have v: "snapshot_view p = concat (map (\<lambda>g. block_view ev dt (sender_of ev prev) (snd g)) groups)"
    using p by (simp add: snapshot_of_def)
  have reuse: "concat (map (\<lambda>g. block_view ev dt (sender_of ev (Some p)) (snd g)) hs)
      = concat (map (\<lambda>g. block_view ev dt (sender_of ev prev) (snd g)) hs)"
    if "set hs \<subseteq> set groups" for hs
    by (rule arg_cong [OF blocks_reused [OF p that], of concat])
  have sub: "set gs \<subseteq> set groups" by (auto simp: last)
  have "\<exists>us. snapshot_view q = snapshot_view p @ us \<and> pb_flashblocks q = pb_flashblocks p @ [fb]"
  proof (cases "block_number_of fb = k")
    case True
    then have new: "new = gs @ [(k, g @ [fb])]"
      using sg(1) bt_push_append by (simp add: new_def gs' last)
    obtain us where us: "block_view ev dt (sender_of ev (Some p)) (g @ [fb])
        = block_view ev dt (sender_of ev prev) g @ us"
      using block_extended [OF p _ fresh, of k g] last by auto
    have "snapshot_view q = snapshot_view p @ us"
      using reuse [OF sub] us by (simp add: qv v last new)
    moreover have "pb_flashblocks q = pb_flashblocks p @ [fb]"
      by (simp add: qf fp last new)
    ultimately show ?thesis by blast
  next
    case False
    then have "k < block_number_of fb" using bn k by simp
    moreover have "x \<le> k" if "x \<in> fst ` set groups" for x
      using that sg(1) by (auto simp: last sorted_wrt_append)
    ultimately have new: "new = groups @ [(block_number_of fb, [fb])]"
      using bt_push_next [of groups "block_number_of fb" fb] by (force simp: new_def gs')
    have "snapshot_view q = snapshot_view p @ block_view ev dt (sender_of ev (Some p)) [fb]"
      using reuse [OF subset_refl] by (simp add: qv v new)
    moreover have "pb_flashblocks q = pb_flashblocks p @ [fb]"
      by (simp add: qf fp new)
    ultimately show ?thesis by blast
  qed
  then show ?thesis
    using view_extends [of q p] snapshot_covers [OF p] snapshot_covers [OF q]
    by (auto simp: extends_by_one_def)
qed

section \<open>Properties\<close>

text \<open>
  C3. What a built snapshot holds. For faithful decoding and receipt conversion: the header
  it was anchored on is the provider's for the block below its earliest; its flashblocks
  are the given ones in block order; its transactions are those of the flashblocks, each
  with a receipt, an EVM state and its sender; the logs it serves are those of the wire
  receipts, numbered consecutively through each block.
\<close>

theorem built_snapshot:
  assumes "converts_faithfully (pe_evm pe)" and "decodes_faithfully (ev_spec (pe_evm pe)) dt"
    and "build_pending_state pe s prev fbs = (Inr (Some a), t)"
  shows "let pb = arc_val a; groups = flashblocks_per_block fbs; bn = fst (hd groups) in
      wf_pending pb
    \<and> (\<exists>h. cl_header_by_number (pe_clients pe (ps_reads s)) (bn - 1) = Inr (Some h)
         \<and> pb_anchor pb = Some (seal h (ev_hash_slow (pe_evm pe) h)))
    \<and> bn \<noteq> 0 \<and> pb_flashblocks pb = concat (map snd groups)
    \<and> map (\<lambda>x. rt_inner x) (pb_transactions pb) = map dt (wire_transactions (pb_flashblocks pb))
    \<and> (\<forall>x. x \<in> set (pb_transactions pb) \<longrightarrow>
         get_receipt pb (rt_hash x) \<noteq> None \<and> get_transaction_state pb (rt_hash x) \<noteq> None
       \<and> get_transaction_sender pb (rt_hash x) = Some (rt_from x))
    \<and> map (\<lambda>x. (x, logs_of pb (rt_hash x))) (pb_transactions pb) =
        concat (map (\<lambda>g. block_view (pe_evm pe) dt
          (sender_of (pe_evm pe) (map_option arc_val prev)) (snd g)) groups)
    \<and> (\<forall>g \<in> set groups.
         let ls = concat (map snd (block_view (pe_evm pe) dt
               (sender_of (pe_evm pe) (map_option arc_val prev)) (snd g)))
         in map rl_inner ls =
              concat (map (wire_logs (wire_receipts (snd g)) \<circ> dt) (wire_transactions (snd g)))
          \<and> map rl_log_index ls = map (\<lambda>i. Some (of_nat i)) [0..<length ls])"
proof -
  obtain h sp m m' where b: "fst (hd (flashblocks_per_block fbs)) \<noteq> 0"
    "cl_header_by_number (pe_clients pe (ps_reads s)) (fst (hd (flashblocks_per_block fbs)) - 1) = Inr (Some h)"
    "build_from_anchor (pe_evm pe) (map_option arc_val prev) (flashblocks_per_block fbs) h sp m
        = (Inr (arc_val a), m')"
    using build_pending_state_Some [OF assms(3)] by blast
  from build_from_anchor_snapshot [OF b(3) assms(1,2)]
  have sn: "snapshot_of (pe_evm pe) dt (map_option arc_val prev) (flashblocks_per_block fbs) (arc_val a)"
    and an: "pb_anchor (arc_val a) = Some (seal h (ev_hash_slow (pe_evm pe) h))" by blast+
  let ?v = "\<lambda>g. block_view (pe_evm pe) dt (sender_of (pe_evm pe) (map_option arc_val prev)) (snd g)"
  have "map (rt_inner \<circ> fst) (?v g) = map dt (wire_transactions (snd g))"
    if "g \<in> set (flashblocks_per_block fbs)" for g
    using sn that by (auto simp: snapshot_of_def block_view_def tx_view_inner split: option.split)
  then have "map (rt_inner \<circ> fst) (concat (map ?v gs)) = map dt (wire_transactions (concat (map snd gs)))"
    if "set gs \<subseteq> set (flashblocks_per_block fbs)" for gs
    using that by (induction gs) (auto simp: wire_transactions_def)
  then have "map (rt_inner \<circ> fst) (snapshot_view (arc_val a)) = map dt (wire_transactions (pb_flashblocks (arc_val a)))"
    using sn by (simp add: snapshot_of_def)
  then have "map (\<lambda>x. rt_inner x) (pb_transactions (arc_val a)) = map dt (wire_transactions (pb_flashblocks (arc_val a)))"
    by (simp add: snapshot_view_def comp_def)
  moreover have "map rl_inner (concat (map snd (?v g))) =
        concat (map (wire_logs (wire_receipts (snd g)) \<circ> dt) (wire_transactions (snd g)))
      \<and> map rl_log_index (concat (map snd (?v g))) =
        map (\<lambda>i. Some (of_nat i)) [0..<length (concat (map snd (?v g)))]"
    if "g \<in> set (flashblocks_per_block fbs)" for g
  proof -
    have "fb_base (hd (snd g)) \<noteq> None" using sn that unfolding snapshot_of_def by blast
    then obtain base where "fb_base (hd (snd g)) = Some base" by blast
    then show ?thesis by (rule block_view_logs)
  qed
  ultimately show ?thesis
    using sn an b by (simp add: snapshot_of_def snapshot_complete_def snapshot_view_def Let_def)
qed

text \<open>
  C4. The next flashblock extends the snapshot: when a snapshot was built from flashblocks
  whose base and metadata agree on the block number, and a flashblock that validates as the
  next of the block or the first of the next one is built on it, the new snapshot has the
  old flashblocks followed by the new one, keeps every old transaction and its logs in
  place, and adds one transaction per new wire transaction. (The new flashblock sends no
  receipt for an old transaction, and the block number does not wrap.)
\<close>

theorem next_flashblock_extends:
  assumes "converts_faithfully (pe_evm pe)" and "decodes_faithfully (ev_spec (pe_evm pe)) dt"
    and "build_pending_state pe s0 p0 fbs = (Inr (Some a), t0)"
    and "numbers_agree (pb_flashblocks (arc_val a))"
    and "seq_validate (latest_block_number (arc_val a)) (pb_latest_flashblock_index (arc_val a))
          (pb_payload_id (arc_val a)) (block_number_of fb) (fb_index fb) (fb_payload_id fb)
          \<in> {NextInSequence, FirstOfNextBlock}"
    and "latest_block_number (arc_val a) \<noteq> - 1"
    and "\<And>x. x \<in> set (pb_transactions (arc_val a)) \<Longrightarrow> md_receipts (fb_metadata fb) (rt_hash x) = None"
    and "process_flashblock pe s (Some a) fb = (Inr (Some b), t)"
  shows "extends_by_one (arc_val a) (arc_val b)"
proof -
  have "\<exists>s'. build_pending_state pe s' (Some a) (pb_flashblocks (arc_val a) @ [fb]) = (Inr (Some b), t)"
    using assms(5,8) by (auto simp: process_flashblock_def block_number_of_def get_flashblocks_def Let_def)
  then obtain s' where b: "build_pending_state pe s' (Some a) (pb_flashblocks (arc_val a) @ [fb]) = (Inr (Some b), t)"
    by blast
  have p: "snapshot_of (pe_evm pe) dt (map_option arc_val p0) (flashblocks_per_block fbs) (arc_val a)"
    by (rule build_pending_state_snapshot [OF assms(3,1,2)])
  have q: "snapshot_of (pe_evm pe) dt (Some (arc_val a))
      (flashblocks_per_block (pb_flashblocks (arc_val a) @ [fb])) (arc_val b)"
    using build_pending_state_snapshot [OF b assms(1,2)] by simp
  have "latest_block_number (arc_val a) < latest_block_number (arc_val a) + 1"
    by (rule word_less_succ [OF assms(6)])
  then have bn: "block_number_of fb = latest_block_number (arc_val a)
      \<or> latest_block_number (arc_val a) < block_number_of fb"
    using assms(5) by (auto simp: seq_validate_def split: if_splits)
  show ?thesis
    using snapshot_extends [OF p refl _ assms(4) q bn assms(7)] build_pending_state_Some [OF assms(3)] by blast
qed

section \<open>Witnesses\<close>

lemma example_converts: "converts_faithfully (pe_evm example_env)"
  by (simp add: converts_faithfully_def example_env_def example_evm_def example_convert_def)

lemma example_decodes: "decodes_faithfully (ev_spec (pe_evm example_env)) example_decode_tx"
  using example_spec_decodes by (simp add: example_env_def example_evm_def)

lemma example_build:
  "\<exists>a t. build_pending_state example_env example_start None [example_first] = (Inr (Some a), t)
     \<and> pb_flashblocks (arc_val a) = [example_first]
     \<and> pb_headers (arc_val a) = [pb_latest_header (arc_val a)]
     \<and> latest_block_number (arc_val a) = 8 \<and> pb_latest_flashblock_index (arc_val a) = 0
     \<and> map rt_hash (pb_transactions (arc_val a)) = [0, 2]"
  by (simp add: example_start_def processor_new_def build_pending_state_def
      latest_block_number_def sh_number_def example_defs build_defs Let_def)

theorem built_snapshot_witness:
  "\<exists>a t. build_pending_state example_env example_start None [example_first] = (Inr (Some a), t)
     \<and> (\<exists>r. get_receipt (arc_val a) 2 = Some r)
     \<and> map rl_log_index (concat (map (\<lambda>x. logs_of (arc_val a) (rt_hash x)) (pb_transactions (arc_val a))))
         = [Some 0, Some 1, Some 2]"
proof -
  obtain a t where a: "build_pending_state example_env example_start None [example_first] = (Inr (Some a), t)"
    and h: "map rt_hash (pb_transactions (arc_val a)) = [0, 2]"
    using example_build by (elim exE conjE) (rule that)
  note b = built_snapshot [OF example_converts example_decodes a, unfolded Let_def]
  have "2 \<in> set (map rt_hash (pb_transactions (arc_val a)))" by (simp add: h)
  then have "\<exists>r. get_receipt (arc_val a) 2 = Some r" using b by fastforce
  moreover have "concat (map (\<lambda>x. logs_of (arc_val a) (rt_hash x)) (pb_transactions (arc_val a)))
      = concat (map snd (map (\<lambda>x. (x, logs_of (arc_val a) (rt_hash x))) (pb_transactions (arc_val a))))"
    by (simp add: comp_def)
  moreover have "map rl_log_index (concat (map snd (map (\<lambda>x. (x, logs_of (arc_val a) (rt_hash x)))
      (pb_transactions (arc_val a))))) = [Some 0, Some 1, Some 2]"
    using b by (simp add: flashblocks_per_block_def block_view_def wire_transactions_def wire_receipts_def
        rpc_log_def example_defs numeral_2_eq_2)
  ultimately show ?thesis using a by auto
qed

text \<open>The second flashblock of the example, processed on the first one's snapshot.\<close>

lemma example_next:
  assumes "build_pending_state example_env example_start None [example_first] = (Inr (Some a), t)"
  shows "\<exists>b u. process_flashblock example_env t (Some a) example_second = (Inr (Some b), u)
     \<and> map rt_hash (pb_transactions (arc_val b)) = [0, 2, 3]"
  using assms
  by (auto simp: example_start_def processor_new_def build_pending_state_def process_flashblock_def
      seq_validate_def get_flashblocks_def pb_payload_id_def
      latest_block_number_def sh_number_def example_defs build_defs Let_def)

theorem next_flashblock_extends_witness:
  "\<exists>a b t u. build_pending_state example_env example_start None [example_first] = (Inr (Some a), t)
     \<and> process_flashblock example_env t (Some a) example_second = (Inr (Some b), u)
     \<and> extends_by_one (arc_val a) (arc_val b) \<and> get_latest_flashblock_transaction_hashes (arc_val b) = [3]"
proof -
  obtain a t where a: "build_pending_state example_env example_start None [example_first] = (Inr (Some a), t)"
    and f: "pb_flashblocks (arc_val a) = [example_first]" and n: "latest_block_number (arc_val a) = 8"
    and i: "pb_latest_flashblock_index (arc_val a) = 0"
    and h: "map rt_hash (pb_transactions (arc_val a)) = [0, 2]"
    using example_build by (elim exE conjE) (rule that)
  obtain b u where b: "process_flashblock example_env t (Some a) example_second = (Inr (Some b), u)"
    and hb: "map rt_hash (pb_transactions (arc_val b)) = [0, 2, 3]"
    using example_next [OF a] by (elim exE conjE) (rule that)
  have na: "numbers_agree (pb_flashblocks (arc_val a))"
    by (simp add: f numbers_agree_def example_defs)
  have sq: "seq_validate (latest_block_number (arc_val a)) (pb_latest_flashblock_index (arc_val a))
      (pb_payload_id (arc_val a)) (block_number_of example_second) (fb_index example_second)
      (fb_payload_id example_second) \<in> {NextInSequence, FirstOfNextBlock}"
    by (simp add: n i seq_validate_def example_defs)
  have w: "latest_block_number (arc_val a) \<noteq> - 1" by (simp add: n)
  have "rt_hash x \<in> {0, 2}" if "x \<in> set (pb_transactions (arc_val a))" for x
    using that arg_cong [OF h, of set] by auto
  then have r: "md_receipts (fb_metadata example_second) (rt_hash x) = None"
    if "x \<in> set (pb_transactions (arc_val a))" for x
    using that by (fastforce simp: example_defs)
  have e: "extends_by_one (arc_val a) (arc_val b)"
    by (rule next_flashblock_extends [OF example_converts example_decodes a na sq w r b])
  have "chained extends_by_one (arc_val a) [arc_val b]" using e by simp
  from hashes_stream.chain_view [OF this] have "get_latest_flashblock_transaction_hashes (arc_val b) = [3]"
    using h hb by (simp add: get_pending_transaction_hashes_def)
  with a b e show ?thesis by blast
qed

text \<open>A run of the example: one flashblock, published and broadcast.\<close>

lemma example_run: "(processor_step example_env)\<^sup>*\<^sup>* example_start
    (on_update example_env example_start (Flashblock example_first))"
  by (blast intro: processor_step.intros)

theorem published_usable_witness:
  "\<exists>a. ps_pending (on_update example_env example_start (Flashblock example_first)) = Some a
     \<and> 7 < unat (latest_block_number (arc_val a))
     \<and> (\<exists>s' u i. (processor_step example_env)\<^sup>*\<^sup>* example_start s'
          \<and> Suc i < length (update_states example_env s' u)
          \<and> ps_pending (update_states example_env s' u ! Suc i) = Some a)
     \<and> checked_step example_env example_start
         (on_update example_env example_start (Flashblock example_first))"
proof -
  let ?s = "on_update example_env example_start (Flashblock example_first)"
  obtain a where a: "ps_pending ?s = Some a" using example_first_built by blast
  have t: "cl_best_block_number (pe_clients example_env k) = Inr 7" for k
    by (simp add: example_env_def example_client_def)
  obtain s' u i where "(processor_step example_env)\<^sup>*\<^sup>* example_start s'"
      and "Suc i < length (update_states example_env s' u)"
      and "ps_pending (update_states example_env s' u ! Suc i) = Some a"
      and "7 < unat (latest_block_number (arc_val a))"
    using published_usable [OF example_run [unfolded example_start_def], THEN conjunct1, rule_format, of a] a
    by (auto simp: example_start_def t)
  moreover have "checked_step example_env example_start ?s"
    using published_usable [OF rtranclp.rtrancl_refl, where u = "Flashblock example_first",
        of example_env 0, folded example_start_def]
    by (simp add: update_states_def on_update_def case_prod_beta)
  ultimately show ?thesis using a by blast
qed

theorem broadcasts_distinct_witness:
  "\<exists>a. ps_sent (on_update example_env example_start (Flashblock example_first)) = [a]
     \<and> distinct (ps_sent (on_update example_env example_start (Flashblock example_first)))"
  using broadcasts_distinct [OF example_run [unfolded example_start_def]] example_first_built
  by (auto simp: example_start_def)

theorem flashblock_harmless_witness:
  "apply_flashblock example_env example_start None (make_flashblock 7 0)
     = incr flashblock_superseded (example_start\<lparr>ps_reads := ps_reads example_start + 1\<rparr>)
   \<and> (\<exists>s a. ps_pending s = Some a \<and> ps_sent s = [a]
        \<and> ps_pending (apply_flashblock example_env s (Some a) example_first) = Some a
        \<and> ps_sent (apply_flashblock example_env s (Some a) example_first) = [a])"
proof
  have "fst (is_superseded example_env example_start (make_flashblock 7 0))"
    by (simp add: is_superseded_eq example_start_def processor_new_def tip_at_def example_env_def example_client_def)
  with flashblock_harmless [of example_env example_start "make_flashblock 7 0" None MissingFirstFlashblock]
  show "apply_flashblock example_env example_start None (make_flashblock 7 0)
     = incr flashblock_superseded (example_start\<lparr>ps_reads := ps_reads example_start + 1\<rparr>)" by simp
next
  let ?s = "on_update example_env example_start (Flashblock example_first)"
  obtain a where a: "ps_pending ?s = Some a" "ps_sent ?s = [a]"
    and n: "earliest_block_number (arc_val a) = 8" "latest_block_number (arc_val a) = 8"
    and i: "pb_latest_flashblock_index (arc_val a) = 0" "pb_payload_id (arc_val a) = fb_payload_id example_first"
    and l: "ps_last_canonical_block ?s = 0"
    using example_first_built by blast
  have t: "tip_at example_env k = Some 7" for k
    by (simp add: tip_at_def example_env_def example_client_def)
  have f: "block_number_of example_first = 8" "fb_index example_first = 0"
    by (simp_all add: example_defs)
  have "\<not> fst (is_superseded example_env ?s example_first)"
    by (simp add: is_superseded_eq t l f)
  moreover have "seq_validate (latest_block_number (arc_val a)) (pb_latest_flashblock_index (arc_val a))
      (pb_payload_id (arc_val a)) (md_block_number (fb_metadata example_first)) (fb_index example_first)
      (fb_payload_id example_first) = Duplicate"
    using f by (simp add: seq_validate_def n i block_number_of_def)
  moreover have "usable example_env k (arc_val a)" for k
    by (simp add: usable_def t n)
  ultimately have "ps_pending (apply_flashblock example_env ?s (Some a) example_first) = Some a"
    "ps_sent (apply_flashblock example_env ?s (Some a) example_first) = [a]"
    using flashblock_harmless [of example_env ?s example_first "Some a" MissingFirstFlashblock a] a
    by simp_all
  with a show "\<exists>s a. ps_pending s = Some a \<and> ps_sent s = [a]
        \<and> ps_pending (apply_flashblock example_env s (Some a) example_first) = Some a
        \<and> ps_sent (apply_flashblock example_env s (Some a) example_first) = [a]" by blast
qed

end
