(* ===== verification/PubSub.thy ===== *)
theory PubSub
  imports Pending
begin

text \<open>
  Flashblock subscriptions (\<open>rpc/pubsub.rs\<close>, \<open>rpc/types.rs\<close>): the slots a connection may
  hold, the streams over the broadcast snapshots, and the two pipes that feed a slow
  client. A connection is a number; jsonrpsee's sink is seen through what the code reads of
  it: how full its buffer is, whether it is closed, whether a send succeeds. What the
  clock and the sink answer at each point of a loop is an argument.
\<close>

section \<open>Subscription kinds\<close>

datatype SubscriptionKind = NewHeads | Logs | NewPendingTransactions | Syncing

datatype FlashblocksSubscriptionKind =
  NewFlashblocks | PendingLogs | NewFlashblockTransactions | NewFlashblockBatches

datatype ExtendedSubscriptionKind =
  Standard SubscriptionKind | Flashblocks FlashblocksSubscriptionKind

definition as_standard :: "ExtendedSubscriptionKind \<Rightarrow> SubscriptionKind option" where
  "as_standard k = (case k of Standard s \<Rightarrow> Some s | Flashblocks _ \<Rightarrow> None)"

definition is_flashblocks :: "ExtendedSubscriptionKind \<Rightarrow> bool" where
  "is_flashblocks k = (case k of Flashblocks _ \<Rightarrow> True | Standard _ \<Rightarrow> False)"

text \<open>\<open>Params\<close> of alloy; a filter is the predicate it computes.\<close>

datatype Params = ParamsNone | ParamsLogs "plog \<Rightarrow> bool" | ParamsBool bool

section \<open>Slots\<close>

definition MAX_FLASHBLOCKS_SUBSCRIPTIONS_PER_CONNECTION :: nat where
  "MAX_FLASHBLOCKS_SUBSCRIPTIONS_PER_CONNECTION = 32"

definition MAX_NEW_FLASHBLOCKS_SUBSCRIPTIONS_PER_CONNECTION :: nat where
  "MAX_NEW_FLASHBLOCKS_SUBSCRIPTIONS_PER_CONNECTION = 4"

definition DRAIN_POLL_INTERVAL :: duration where
  "DRAIN_POLL_INTERVAL = from_millis 1"

record SlowSubscriberLimits =
  max_queued :: nat
  timeout :: duration

definition limits_default :: SlowSubscriberLimits where
  "limits_default = \<lparr>max_queued = 32, timeout = from_secs 10\<rparr>"

datatype SlotKind = SlotNewFlashblocks | SlotPerItem

definition slot_of :: "FlashblocksSubscriptionKind \<Rightarrow> SlotKind" where
  "slot_of k = (case k of
     NewFlashblocks \<Rightarrow> SlotNewFlashblocks
   | PendingLogs \<Rightarrow> SlotPerItem
   | NewFlashblockTransactions \<Rightarrow> SlotPerItem
   | NewFlashblockBatches \<Rightarrow> SlotPerItem)"

definition slot_cap :: "SlotKind \<Rightarrow> nat" where
  "slot_cap k = (case k of
     SlotNewFlashblocks \<Rightarrow> MAX_NEW_FLASHBLOCKS_SUBSCRIPTIONS_PER_CONNECTION
   | SlotPerItem \<Rightarrow> MAX_FLASHBLOCKS_SUBSCRIPTIONS_PER_CONNECTION)"

definition slot_name :: "SlotKind \<Rightarrow> string" where
  "slot_name k = (case k of
     SlotNewFlashblocks \<Rightarrow> ''newFlashblocks''
   | SlotPerItem \<Rightarrow> ''pendingLogs, newFlashblockTransactions and newFlashblockBatches'')"

text \<open>\<open>queued_total\<close> is a shared counter: its cell, by number.\<close>

record HeldSubscriptions =
  hs_new_flashblocks :: nat
  hs_per_item :: nat
  hs_queued_total :: nat

definition held_count :: "SlotKind \<Rightarrow> HeldSubscriptions \<Rightarrow> nat" where
  "held_count k h = (case k of SlotNewFlashblocks \<Rightarrow> hs_new_flashblocks h | SlotPerItem \<Rightarrow> hs_per_item h)"

definition set_count :: "SlotKind \<Rightarrow> nat \<Rightarrow> HeldSubscriptions \<Rightarrow> HeldSubscriptions" where
  "set_count k n h = (case k of
     SlotNewFlashblocks \<Rightarrow> h\<lparr>hs_new_flashblocks := n\<rparr> | SlotPerItem \<Rightarrow> h\<lparr>hs_per_item := n\<rparr>)"

definition held_is_empty :: "HeldSubscriptions \<Rightarrow> bool" where
  "held_is_empty h \<longleftrightarrow> hs_new_flashblocks h = 0 \<and> hs_per_item h = 0"

record slots =
  sl_counts :: "nat \<rightharpoonup> HeldSubscriptions"
  sl_next_cell :: nat

record ConnectionSlot =
  cs_connection :: nat
  cs_kind :: SlotKind
  cs_queued_total :: nat

definition held_default :: "nat \<Rightarrow> HeldSubscriptions" where
  "held_default cell = \<lparr>hs_new_flashblocks = 0, hs_per_item = 0, hs_queued_total = cell\<rparr>"

definition slot_take :: "slots \<Rightarrow> nat \<Rightarrow> SlotKind \<Rightarrow> ConnectionSlot option \<times> slots" where
  "slot_take sl conn kind =
     (let (subs, sl1) =
        (case sl_counts sl conn of
           Some h \<Rightarrow> (h, sl)
         | None \<Rightarrow>
             (held_default (sl_next_cell sl),
              sl\<lparr>sl_counts := (sl_counts sl)(conn \<mapsto> held_default (sl_next_cell sl)),
                 sl_next_cell := sl_next_cell sl + 1\<rparr>))
      in if held_count kind subs \<ge> slot_cap kind then (None, sl1)
         else
           (Some \<lparr>cs_connection = conn, cs_kind = kind, cs_queued_total = hs_queued_total subs\<rparr>,
            sl1\<lparr>sl_counts := (sl_counts sl1)(conn \<mapsto> set_count kind (held_count kind subs + 1) subs)\<rparr>))"

definition slot_drop :: "ConnectionSlot \<Rightarrow> slots \<Rightarrow> slots" where
  "slot_drop slot sl =
     (case sl_counts sl (cs_connection slot) of
        None \<Rightarrow> sl
      | Some subs \<Rightarrow>
          (let subs' = set_count (cs_kind slot) (held_count (cs_kind slot) subs - 1) subs in
           if held_is_empty subs'
           then sl\<lparr>sl_counts := (sl_counts sl)(cs_connection slot := None)\<rparr>
           else sl\<lparr>sl_counts := (sl_counts sl)(cs_connection slot \<mapsto> subs')\<rparr>))"

section \<open>Streams over the broadcasts\<close>

text \<open>
  A receiver sees each broadcast snapshot, or an error when it lagged behind the buffer.
  A stream is what it yields for the results received so far.
\<close>

definition filter_ok :: "(string + 'a) list \<Rightarrow> 'a list" where
  "filter_ok rs = List.map_filter res_ok rs"

definition new_flashblocks_stream ::
    "(string + 'st PendingBlocks) list \<Rightarrow> 'st PendingBlocks list" where
  "new_flashblocks_stream rs = filter_ok rs"

text \<open>\<open>filter_map\<close> that drops empty batches, then \<open>flat_map\<close> over \<open>stream::iter\<close>.\<close>

definition delta_items :: "('st PendingBlocks \<Rightarrow> 'a list) \<Rightarrow> (string + 'st PendingBlocks) list \<Rightarrow> 'a list" where
  "delta_items get rs =
     concat (List.map_filter
       (\<lambda>r. case r of Inl _ \<Rightarrow> None | Inr pb \<Rightarrow> (let xs = get pb in if xs = [] then None else Some xs)) rs)"

definition pending_logs_stream ::
    "(plog \<Rightarrow> bool) \<Rightarrow> (string + 'st PendingBlocks) list \<Rightarrow> Log list" where
  "pending_logs_stream matches = delta_items (\<lambda>pb. get_latest_flashblock_logs pb matches)"

definition new_flashblock_transactions_full_stream ::
    "(string + 'st PendingBlocks) list \<Rightarrow> TransactionWithLogs list" where
  "new_flashblock_transactions_full_stream = delta_items get_latest_flashblock_transactions_with_logs"

definition new_flashblock_transactions_filtered_stream ::
    "(plog \<Rightarrow> bool) \<Rightarrow> (string + 'st PendingBlocks) list \<Rightarrow> TransactionWithLogs list" where
  "new_flashblock_transactions_filtered_stream matches =
     delta_items (\<lambda>pb. get_latest_flashblock_transactions_with_logs_filtered pb matches)"

definition new_flashblock_transactions_hash_stream ::
    "(string + 'st PendingBlocks) list \<Rightarrow> b256 list" where
  "new_flashblock_transactions_hash_stream = delta_items get_latest_flashblock_transaction_hashes"

definition new_flashblock_batches_stream ::
    "(plog \<Rightarrow> bool) option \<Rightarrow> (string + 'st PendingBlocks) list \<Rightarrow> FlashblockBatch list" where
  "new_flashblock_batches_stream fltr rs =
     List.map_filter
       (\<lambda>r. case r of Inl _ \<Rightarrow> None | Inr pb \<Rightarrow> Some (get_latest_flashblock_batch pb fltr)) rs"

section \<open>Subscribing\<close>

definition subscription_counter :: "FlashblocksSubscriptionKind \<Rightarrow> counter" where
  "subscription_counter k = (case k of
     NewFlashblocks \<Rightarrow> subscriptions_new_flashblocks
   | PendingLogs \<Rightarrow> subscriptions_pending_logs
   | NewFlashblockTransactions \<Rightarrow> subscriptions_new_flashblock_transactions
   | NewFlashblockBatches \<Rightarrow> subscriptions_new_flashblock_batches)"

definition count_subscription :: "FlashblocksSubscriptionKind \<Rightarrow> Metrics \<Rightarrow> Metrics" where
  "count_subscription k m = increment (subscription_counter k) m"

datatype subscription_task =
    PipeLatestBlocks
  | PipeLogs "plog \<Rightarrow> bool"
  | PipeTransactionsFiltered "plog \<Rightarrow> bool"
  | PipeTransactionsFull
  | PipeTransactionHashes
  | PipeBatches "(plog \<Rightarrow> bool) option"

datatype subscribe_outcome =
    Delegated SubscriptionKind "Params option"
  | Rejected string
  | AcceptFailed
  | Spawned subscription_task ConnectionSlot

definition subscription_task_of ::
    "FlashblocksSubscriptionKind \<Rightarrow> Params option \<Rightarrow> subscription_task" where
  "subscription_task_of kind params = (case kind of
     NewFlashblocks \<Rightarrow> PipeLatestBlocks
   | PendingLogs \<Rightarrow>
       (case params of Some (ParamsLogs f) \<Rightarrow> PipeLogs f | _ \<Rightarrow> PipeLogs (\<lambda>_. True))
   | NewFlashblockTransactions \<Rightarrow>
       (case params of
          Some (ParamsLogs f) \<Rightarrow> PipeTransactionsFiltered f
        | Some (ParamsBool True) \<Rightarrow> PipeTransactionsFull
        | _ \<Rightarrow> PipeTransactionHashes)
   | NewFlashblockBatches \<Rightarrow>
       (case params of Some (ParamsLogs f) \<Rightarrow> PipeBatches (Some f) | _ \<Rightarrow> PipeBatches None))"

definition too_many_message :: "SlotKind \<Rightarrow> string" where
  "too_many_message k = ''too many '' @ slot_name k @ '' subscriptions on this connection: max ''
     @ dec_digits (slot_cap k)"

text \<open>
  \<open>subscribe\<close>. When accepting fails the slot is a local that is dropped on the early return.
\<close>

definition subscribe ::
    "slots \<Rightarrow> Metrics \<Rightarrow> nat \<Rightarrow> ExtendedSubscriptionKind \<Rightarrow> Params option \<Rightarrow> bool
      \<Rightarrow> subscribe_outcome \<times> slots \<times> Metrics" where
  "subscribe sl m conn kind params accept_ok =
     (case kind of
        Standard k \<Rightarrow> (Delegated k params, sl, m)
      | Flashblocks fb_kind \<Rightarrow>
          (case slot_take sl conn (slot_of fb_kind) of
             (None, sl') \<Rightarrow> (Rejected (too_many_message (slot_of fb_kind)), sl', m)
           | (Some slot, sl') \<Rightarrow>
               if \<not> accept_ok then (AcceptFailed, slot_drop slot sl', m)
               else (Spawned (subscription_task_of fb_kind params) slot, sl',
                     count_subscription fb_kind m)))"

section \<open>The pipes\<close>

text \<open>What a pipe sees of the sink and the clock at one look.\<close>

record sink_view =
  sv_capacity :: nat
  sv_max_capacity :: nat
  sv_closed :: bool
  sv_now :: instant

definition queued :: "sink_view \<Rightarrow> nat" where
  "queued v = sv_max_capacity v - sv_capacity v"

text \<open>
  \<open>wait_for_room\<close>: \<open>polls n\<close> is the \<open>n\<close>-th look at the sink, and \<open>None\<close> means that the fuel
  did not suffice.
\<close>

fun wait_poll ::
    "nat \<Rightarrow> (nat \<Rightarrow> sink_view) \<Rightarrow> SlowSubscriberLimits \<Rightarrow> instant \<Rightarrow> nat \<Rightarrow> bool option" where
  "wait_poll 0 polls limits deadline n = None"
| "wait_poll (Suc fuel) polls limits deadline n =
     (if queued (polls n) > max_queued limits then
        if sv_closed (polls n) \<or> sv_now (polls n) \<ge> deadline then Some False
        else wait_poll fuel polls limits deadline (n + 1)
      else Some True)"

definition wait_for_room ::
    "nat \<Rightarrow> (nat \<Rightarrow> sink_view) \<Rightarrow> SlowSubscriberLimits \<Rightarrow> instant \<Rightarrow> bool option" where
  "wait_for_room fuel polls limits now = wait_poll fuel polls limits (now + timeout limits) 0"

text \<open>
  \<open>send\<close>: the shared counter before it, whether the item serializes and whether the sink
  takes it; the counter after it comes second.
\<close>

definition send :: "u64 \<Rightarrow> bool \<Rightarrow> bool \<Rightarrow> u64 option \<times> u64" where
  "send queued_tot serializes sink_ok =
     (if \<not> serializes then (None, queued_tot)
      else if \<not> sink_ok then (None, queued_tot + 1)
      else (Some (queued_tot + 1), queued_tot + 1))"

definition has_left :: "nat \<Rightarrow> u64 \<Rightarrow> bool" where
  "has_left queued_now queued_after \<longleftrightarrow> (of_nat queued_now :: u64) \<le> queued_after"

text \<open>
  What one round of a pipe's loop meets: whether the sink's close wins the \<open>select\<close>, the
  clock when the wait starts and the looks at the sink during it, the shared counter when
  it is read and when the message is counted, the clock at the two reads of a skip, and how
  sending goes.
\<close>

record round_env =
  re_closed :: bool
  re_start :: instant
  re_polls :: "nat \<Rightarrow> sink_view"
  re_total_read :: u64
  re_total_send :: u64
  re_now :: instant
  re_elapsed_at :: instant
  re_serializes :: bool
  re_sink_ok :: bool

definition env_send :: "round_env \<Rightarrow> u64 option" where
  "env_send e = fst (send (re_total_send e) (re_serializes e) (re_sink_ok e))"

text \<open>Both pipes return the items they sent, in order; the stream's items are a list.\<close>

fun pipe_from_stream ::
    "nat \<Rightarrow> SlowSubscriberLimits \<Rightarrow> (nat \<Rightarrow> round_env) \<Rightarrow> nat \<Rightarrow> 'a list \<Rightarrow> 'a list option" where
  "pipe_from_stream fuel limits envs n [] = Some []"
| "pipe_from_stream fuel limits envs n (x # xs) =
     (if re_closed (envs n) then Some []
      else
        (case wait_for_room fuel (re_polls (envs n)) limits (re_start (envs n)) of
           None \<Rightarrow> None
         | Some False \<Rightarrow> Some []
         | Some True \<Rightarrow>
             (case env_send (envs n) of
                None \<Rightarrow> Some []
              | Some _ \<Rightarrow> map_option ((#) x) (pipe_from_stream fuel limits envs (n + 1) xs))))"

record latest_state =
  ls_skipping_since :: "instant option"
  ls_previous_at :: "u64 option"

definition previous_queued :: "round_env \<Rightarrow> latest_state \<Rightarrow> bool" where
  "previous_queued e st = (case ls_previous_at st of
     None \<Rightarrow> False
   | Some at \<Rightarrow> \<not> has_left (queued (re_polls e 0)) (sat_sub (re_total_read e) at))"

datatype latest_round = LatestSkip latest_state | LatestSend latest_state | LatestEnd

definition pipe_latest_round ::
    "SlowSubscriberLimits \<Rightarrow> round_env \<Rightarrow> latest_state \<Rightarrow> latest_round" where
  "pipe_latest_round limits e st =
     (if re_closed e then LatestEnd
      else if previous_queued e st then
        (let since = (case ls_skipping_since st of None \<Rightarrow> re_now e | Some t \<Rightarrow> t) in
         if re_elapsed_at e - since \<ge> timeout limits then LatestEnd
         else LatestSkip (st\<lparr>ls_skipping_since := Some since\<rparr>))
      else
        (case env_send e of
           None \<Rightarrow> LatestEnd
         | Some queued_at \<Rightarrow>
             LatestSend \<lparr>ls_skipping_since = None, ls_previous_at = Some queued_at\<rparr>))"

fun pipe_latest_loop ::
    "SlowSubscriberLimits \<Rightarrow> (nat \<Rightarrow> round_env) \<Rightarrow> ('a \<Rightarrow> 'b) \<Rightarrow> nat \<Rightarrow> latest_state \<Rightarrow> 'a list \<Rightarrow> 'b list" where
  "pipe_latest_loop limits envs render n st [] = []"
| "pipe_latest_loop limits envs render n st (x # xs) =
     (case pipe_latest_round limits (envs n) st of
        LatestEnd \<Rightarrow> []
      | LatestSkip st' \<Rightarrow> pipe_latest_loop limits envs render (n + 1) st' xs
      | LatestSend st' \<Rightarrow> render x # pipe_latest_loop limits envs render (n + 1) st' xs)"

definition pipe_latest ::
    "SlowSubscriberLimits \<Rightarrow> (nat \<Rightarrow> round_env) \<Rightarrow> ('a \<Rightarrow> 'b) \<Rightarrow> 'a list \<Rightarrow> 'b list" where
  "pipe_latest limits envs render items =
     pipe_latest_loop limits envs render 0 \<lparr>ls_skipping_since = None, ls_previous_at = None\<rparr> items"

section \<open>A connection never holds more than its cap\<close>

text \<open>
  The subscriptions of all connections, with the slots held: a request takes a slot or is
  rejected, a failed accept gives it back, and a task that ends drops its own. Accepting is
  awaited with the slot in hand, so other requests and tasks may run in between: a request
  that has taken its slot and is not accepted yet holds it as a task does, and a failed
  accept is then the drop of a held slot. \<open>ConnectionSlot::drop\<close> runs once per slot, so a
  held slot is one element of a multiset, here a list.
\<close>

record subscriptions =
  su_slots :: slots
  su_live :: "ConnectionSlot list"

inductive subscription_step :: "subscriptions \<Rightarrow> subscriptions \<Rightarrow> bool" where
  step_subscribe:
    "subscribe (su_slots s) m conn kind params accept_ok = (out, sl, m') \<Longrightarrow>
     subscription_step s
       \<lparr>su_slots = sl,
        su_live = (case out of Spawned _ slot \<Rightarrow> slot # su_live s | _ \<Rightarrow> su_live s)\<rparr>"
| step_task_ends:
    "su_live s = us @ slot # vs \<Longrightarrow>
     subscription_step s \<lparr>su_slots = slot_drop slot (su_slots s), su_live = us @ vs\<rparr>"
| step_awaits_accept:
    "slot_take (su_slots s) conn k = (Some slot, sl) \<Longrightarrow>
     subscription_step s \<lparr>su_slots = sl, su_live = slot # su_live s\<rparr>"

definition live_count :: "ConnectionSlot list \<Rightarrow> nat \<Rightarrow> SlotKind \<Rightarrow> nat" where
  "live_count live conn k = length (filter (\<lambda>s. cs_connection s = conn \<and> cs_kind s = k) live)"

definition count_of :: "slots \<Rightarrow> nat \<Rightarrow> SlotKind \<Rightarrow> nat" where
  "count_of sl conn k = (case sl_counts sl conn of None \<Rightarrow> 0 | Some h \<Rightarrow> held_count k h)"

definition slots_inv :: "subscriptions \<Rightarrow> bool" where
  "slots_inv s \<longleftrightarrow>
     (\<forall>conn k. count_of (su_slots s) conn k = live_count (su_live s) conn k)
   \<and> (\<forall>conn k. live_count (su_live s) conn k \<le> slot_cap k)
   \<and> (\<forall>conn h. sl_counts (su_slots s) conn = Some h \<longrightarrow> \<not> held_is_empty h)
   \<and> (\<forall>slot \<in> set (su_live s). \<forall>h. sl_counts (su_slots s) (cs_connection slot) = Some h \<longrightarrow>
        hs_queued_total h = cs_queued_total slot)"

lemma held_count_set_count [simp]:
  "held_count k (set_count k' n h) = (if k = k' then n else held_count k h)"
  by (cases k; cases k') (simp_all add: held_count_def set_count_def)

lemma set_count_cell [simp]: "hs_queued_total (set_count k n h) = hs_queued_total h"
  by (cases k) (simp_all add: set_count_def)

lemma held_default_simps [simp]:
  "held_count k (held_default c) = 0" "hs_queued_total (held_default c) = c"
  by (cases k; simp add: held_count_def held_default_def)+

lemma held_is_empty_iff: "held_is_empty h \<longleftrightarrow> (\<forall>k. held_count k h = 0)"
  unfolding held_is_empty_def held_count_def
  by (metis SlotKind.exhaust SlotKind.simps(3,4))

lemma slot_cap_pos [simp]: "0 < slot_cap k"
  by (cases k) (simp_all add: slot_cap_def MAX_NEW_FLASHBLOCKS_SUBSCRIPTIONS_PER_CONNECTION_def
      MAX_FLASHBLOCKS_SUBSCRIPTIONS_PER_CONNECTION_def)

text \<open>A slot is refused exactly at the cap, and then nothing changes.\<close>

lemma slot_take_full:
  "slot_cap k \<le> count_of sl conn k \<Longrightarrow> slot_take sl conn k = (None, sl)"
  using slot_cap_pos [of k]
  by (cases "sl_counts sl conn") (simp_all add: count_of_def slot_take_def Let_def)

lemma slot_take_free:
  assumes "count_of sl conn k < slot_cap k"
  obtains h n where
    "slot_take sl conn k = (Some \<lparr>cs_connection = conn, cs_kind = k, cs_queued_total = hs_queued_total h\<rparr>,
       \<lparr>sl_counts = (sl_counts sl)(conn \<mapsto> set_count k (count_of sl conn k + 1) h), sl_next_cell = n\<rparr>)"
    "\<And>k'. held_count k' h = count_of sl conn k'"
    "\<And>h'. sl_counts sl conn = Some h' \<Longrightarrow> h = h'"
proof (cases "sl_counts sl conn")
  case None
  then show thesis
    using that [of "held_default (sl_next_cell sl)" "sl_next_cell sl + 1"] assms
    by (simp add: count_of_def slot_take_def Let_def)
next
  case (Some h)
  show thesis
    by (rule that [of h "sl_next_cell sl"]) (use Some assms in \<open>simp_all add: count_of_def slot_take_def Let_def\<close>)
qed

lemma live_count_Cons [simp]:
  "live_count (x # xs) c k = live_count xs c k + (if cs_connection x = c \<and> cs_kind x = k then 1 else 0)"
  by (simp add: live_count_def)

lemma live_count_remove:
  "live_count (us @ x # vs) c k = live_count (us @ vs) c k + (if cs_connection x = c \<and> cs_kind x = k then 1 else 0)"
  by (simp add: live_count_def)

lemma subscriptions_eta [simp]: "\<lparr>su_slots = su_slots s, su_live = su_live s\<rparr> = (s :: subscriptions)"
  by simp

lemma slots_inv_cell:
  "slots_inv s \<Longrightarrow> x \<in> set (su_live s) \<Longrightarrow> sl_counts (su_slots s) (cs_connection x) = Some h \<Longrightarrow>
     hs_queued_total h = cs_queued_total x"
  by (simp add: slots_inv_def)

lemma take_keeps_inv:
  assumes inv: "slots_inv s" and take: "slot_take (su_slots s) conn k = (Some slot, sl)"
  shows "slots_inv \<lparr>su_slots = sl, su_live = slot # su_live s\<rparr>"
proof -
  have free: "count_of (su_slots s) conn k < slot_cap k"
    using take slot_take_full by (metis not_le_imp_less option.distinct(1) prod.inject)
  obtain h n where
    slot: "slot = \<lparr>cs_connection = conn, cs_kind = k, cs_queued_total = hs_queued_total h\<rparr>"
    and sl: "sl = \<lparr>sl_counts = (sl_counts (su_slots s))
        (conn \<mapsto> set_count k (count_of (su_slots s) conn k + 1) h), sl_next_cell = n\<rparr>"
    and h: "\<And>k'. held_count k' h = count_of (su_slots s) conn k'"
      "\<And>h'. sl_counts (su_slots s) conn = Some h' \<Longrightarrow> h = h'"
    by (rule slot_take_free [OF free]) (use take in auto)
  have count: "count_of sl c k' = count_of (su_slots s) c k' + (if c = conn \<and> k' = k then 1 else 0)"
    for c k' by (simp add: sl count_of_def [of "\<lparr>sl_counts = _, sl_next_cell = _\<rparr>"] h)
      (simp add: count_of_def)
  have cell: "hs_queued_total h = cs_queued_total x"
    if "x \<in> set (su_live s)" "cs_connection x = conn" for x
  proof -
    have "live_count (su_live s) conn (cs_kind x) \<noteq> 0"
      using that by (auto simp: live_count_def filter_empty_conv)
    then have "count_of (su_slots s) conn (cs_kind x) \<noteq> 0" using inv by (simp add: slots_inv_def)
    then obtain h' where "sl_counts (su_slots s) conn = Some h'" by (auto simp: count_of_def split: option.splits)
    with inv that h(2) show ?thesis by (auto simp: slots_inv_def)
  qed
  have le: "live_count (slot # su_live s) c k' \<le> slot_cap k'" for c k'
    using inv free by (auto simp: slots_inv_def slot)
  have counts: "sl_counts sl =
      (sl_counts (su_slots s))(conn \<mapsto> set_count k (count_of (su_slots s) conn k + 1) h)"
    by (simp add: sl)
  have "count_of sl c k' = live_count (slot # su_live s) c k'" for c k'
    using inv by (auto simp: count slots_inv_def slot)
  moreover have "\<not> held_is_empty h'" if "sl_counts sl c = Some h'" for c h'
    using that inv by (auto simp: counts slots_inv_def held_is_empty_iff split: if_splits)
  moreover have "hs_queued_total h' = cs_queued_total x"
    if "x \<in> set (slot # su_live s)" "sl_counts sl (cs_connection x) = Some h'" for x h'
  proof (cases "x = slot")
    case True
    then show ?thesis using that by (auto simp: counts slot split: if_splits)
  next
    case False
    then show ?thesis using that cell [of x] slots_inv_cell [OF inv, of x]
      by (auto simp: counts split: if_splits)
  qed
  ultimately show ?thesis using le unfolding slots_inv_def by simp
qed

lemma drop_keeps_inv:
  assumes inv: "slots_inv s" and live: "su_live s = us @ slot # vs"
  shows "slots_inv \<lparr>su_slots = slot_drop slot (su_slots s), su_live = us @ vs\<rparr>"
proof -
  let ?c = "cs_connection slot" and ?k = "cs_kind slot"
  have "count_of (su_slots s) ?c ?k = live_count (us @ vs) ?c ?k + 1"
    using inv by (simp add: slots_inv_def live live_count_remove)
  then obtain h where h: "sl_counts (su_slots s) ?c = Some h"
    and n: "held_count ?k h = live_count (us @ vs) ?c ?k + 1"
    by (auto simp: count_of_def split: option.splits)
  let ?h = "set_count ?k (held_count ?k h - 1) h"
  have sl: "sl_counts (slot_drop slot (su_slots s)) =
      (sl_counts (su_slots s))(?c := if held_is_empty ?h then None else Some ?h)"
    by (simp add: slot_drop_def h Let_def)
  have count: "count_of (slot_drop slot (su_slots s)) c k =
      count_of (su_slots s) c k - (if ?c = c \<and> ?k = k then 1 else 0)" for c k
    by (auto simp: count_of_def sl h held_is_empty_iff)
  have "count_of (slot_drop slot (su_slots s)) c k = live_count (us @ vs) c k" for c k
    using inv by (simp add: count slots_inv_def live live_count_remove)
  moreover have "live_count (us @ vs) c k \<le> slot_cap k" for c k
    using inv unfolding slots_inv_def live by (metis live_count_remove le_add1 le_trans)
  moreover have "hs_queued_total h = cs_queued_total x"
    if "x \<in> set (us @ vs)" "cs_connection x = ?c" for x
    using slots_inv_cell [OF inv, of x h] that h by (auto simp: live)
  ultimately show ?thesis
    using inv unfolding slots_inv_def by (auto simp: sl live split: if_splits)
qed

lemma take_then_drop:
  assumes "slots_inv s" and "slot_take (su_slots s) conn k = (Some slot, sl)"
  shows "slots_inv \<lparr>su_slots = slot_drop slot sl, su_live = su_live s\<rparr>"
  using drop_keeps_inv [OF take_keeps_inv [OF assms], of "[]"] by simp

lemma subscription_step_inv: "slots_inv s \<Longrightarrow> subscription_step s t \<Longrightarrow> slots_inv t"
proof (erule subscription_step.cases)
  fix s' m conn kind params accept_ok out sl m'
  assume inv: "slots_inv s" and s: "s = s'"
    and t: "t = \<lparr>su_slots = sl, su_live = (case out of Spawned _ slot \<Rightarrow> slot # su_live s' | _ \<Rightarrow> su_live s')\<rparr>"
    and sub: "subscribe (su_slots s') m conn kind params accept_ok = (out, sl, m')"
  show "slots_inv t"
  proof (cases kind)
    case (Standard k)
    with sub inv show ?thesis by (auto simp: subscribe_def t s)
  next
    case (Flashblocks fb)
    show ?thesis
    proof (cases "slot_take (su_slots s') conn (slot_of fb)")
      case (Pair r sl')
      show ?thesis
      proof (cases r)
        case None
        with Pair have "sl' = su_slots s'"
          using slot_take_free [of "su_slots s'" conn "slot_of fb"] slot_take_full
          by (metis not_le_imp_less option.distinct(1) prod.inject)
        with None Pair Flashblocks sub inv show ?thesis by (auto simp: subscribe_def t s)
      next
        case (Some slot)
        with Pair Flashblocks sub inv show ?thesis
          by (cases accept_ok) (auto simp: subscribe_def t s intro: take_keeps_inv take_then_drop)
      qed
    qed
  qed
next
  fix s' us slot vs
  assume "slots_inv s" "s = s'" "t = \<lparr>su_slots = slot_drop slot (su_slots s'), su_live = us @ vs\<rparr>"
    "su_live s' = us @ slot # vs"
  then show "slots_inv t" by (simp add: drop_keeps_inv)
next
  fix s' conn k slot sl
  assume "slots_inv s" "s = s'" "t = \<lparr>su_slots = sl, su_live = slot # su_live s'\<rparr>"
    "slot_take (su_slots s') conn k = (Some slot, sl)"
  then show "slots_inv t" by (simp add: take_keeps_inv)
qed

definition subscriptions_new :: subscriptions where
  "subscriptions_new = \<lparr>su_slots = \<lparr>sl_counts = Map.empty, sl_next_cell = 0\<rparr>, su_live = []\<rparr>"

lemma subscriptions_new_inv: "slots_inv subscriptions_new"
  by (simp add: slots_inv_def subscriptions_new_def count_of_def live_count_def)

interpretation subs: transition_system "\<lambda>s. s = subscriptions_new" subscription_step slots_inv
  by unfold_locales (auto intro: subscription_step_inv subscriptions_new_inv)

text \<open>
  C21. Whatever clients subscribe, wait to be accepted, fail to be accepted and end, a
  connection holds at most 4 \<open>newFlashblocks\<close> and 32 other flashblocks subscriptions, those
  still being accepted included, the counts are exactly the subscriptions held, and a
  connection that holds none has no entry; a request is rejected exactly when its connection
  is at the cap, with no change to the counts.
\<close>

theorem subscriptions_capped:
  assumes "subscription_step\<^sup>*\<^sup>* subscriptions_new s"
  shows "live_count (su_live s) conn SlotNewFlashblocks \<le> 4
    \<and> live_count (su_live s) conn SlotPerItem \<le> 32
    \<and> count_of (su_slots s) conn k = live_count (su_live s) conn k
    \<and> (sl_counts (su_slots s) conn = None \<longleftrightarrow> (\<forall>x \<in> set (su_live s). cs_connection x \<noteq> conn))
    \<and> ((\<exists>msg sl m'. subscribe (su_slots s) m conn (Flashblocks kind) params ok = (Rejected msg, sl, m'))
         \<longleftrightarrow> live_count (su_live s) conn (slot_of kind) = slot_cap (slot_of kind))
    \<and> (live_count (su_live s) conn (slot_of kind) = slot_cap (slot_of kind) \<longrightarrow>
         fst (snd (subscribe (su_slots s) m conn (Flashblocks kind) params ok)) = su_slots s)"
proof -
  have inv: "slots_inv s" using assms by (blast intro: subs.reachable_inv)
  then have count: "count_of (su_slots s) conn k = live_count (su_live s) conn k" for k
    by (simp add: slots_inv_def)
  have cap: "live_count (su_live s) conn k \<le> slot_cap k" for k using inv by (simp add: slots_inv_def)
  have none: "sl_counts (su_slots s) conn = None \<longleftrightarrow> (\<forall>x \<in> set (su_live s). cs_connection x \<noteq> conn)"
  proof -
    have "sl_counts (su_slots s) conn = None \<longleftrightarrow> (\<forall>k. count_of (su_slots s) conn k = 0)"
      using inv unfolding slots_inv_def count_of_def held_is_empty_iff
      by (cases "sl_counts (su_slots s) conn") fastforce+
    then show ?thesis by (auto simp: count live_count_def filter_empty_conv)
  qed
  have rej: "(\<exists>msg sl m'. subscribe (su_slots s) m conn (Flashblocks kind) params ok = (Rejected msg, sl, m'))
      \<longleftrightarrow> live_count (su_live s) conn (slot_of kind) = slot_cap (slot_of kind)"
  proof (cases "live_count (su_live s) conn (slot_of kind) = slot_cap (slot_of kind)")
    case True
    then show ?thesis by (simp add: subscribe_def slot_take_full count)
  next
    case False
    then have "count_of (su_slots s) conn (slot_of kind) < slot_cap (slot_of kind)"
      using cap by (simp add: count order.strict_iff_order)
    from slot_take_free [OF this] obtain slot sl'
      where "slot_take (su_slots s) conn (slot_of kind) = (Some slot, sl')" by metis
    then show ?thesis using False by (simp add: subscribe_def)
  qed
  have "live_count (su_live s) conn (slot_of kind) = slot_cap (slot_of kind) \<Longrightarrow>
      fst (snd (subscribe (su_slots s) m conn (Flashblocks kind) params ok)) = su_slots s"
    by (simp add: subscribe_def slot_take_full count)
  with cap [of SlotNewFlashblocks] cap [of SlotPerItem] count none rej show ?thesis
    by (simp add: slot_cap_def MAX_NEW_FLASHBLOCKS_SUBSCRIPTIONS_PER_CONNECTION_def
        MAX_FLASHBLOCKS_SUBSCRIPTIONS_PER_CONNECTION_def)
qed

text \<open>A connection that opens \<open>n\<close> \<open>newFlashblocks\<close> subscriptions one after the other.\<close>

fun open_new :: "nat \<Rightarrow> subscriptions" where
  "open_new 0 = subscriptions_new"
| "open_new (Suc n) =
     (case subscribe (su_slots (open_new n)) metrics_default 1 (Flashblocks NewFlashblocks) None True of
        (out, sl, m) \<Rightarrow>
          \<lparr>su_slots = sl,
           su_live = (case out of Spawned _ slot \<Rightarrow> slot # su_live (open_new n) | _ \<Rightarrow> su_live (open_new n))\<rparr>)"

lemma open_new_reachable: "subscription_step\<^sup>*\<^sup>* subscriptions_new (open_new n)"
proof (induction n)
  case (Suc n)
  obtain out sl m where
    "subscribe (su_slots (open_new n)) metrics_default 1 (Flashblocks NewFlashblocks) None True = (out, sl, m)"
    by (cases "subscribe (su_slots (open_new n)) metrics_default 1 (Flashblocks NewFlashblocks) None True")
  from step_subscribe [OF this] this have "subscription_step (open_new n) (open_new (Suc n))" by simp
  with Suc show ?case by (rule rtranclp.rtrancl_into_rtrancl)
qed simp

lemma open_new_live: "n \<le> 4 \<Longrightarrow> live_count (su_live (open_new n)) 1 SlotNewFlashblocks = n"
proof (induction n)
  case (Suc n)
  have inv: "slots_inv (open_new n)" using open_new_reachable by (blast intro: subs.reachable_inv)
  with Suc have "count_of (su_slots (open_new n)) 1 SlotNewFlashblocks < slot_cap SlotNewFlashblocks"
    by (simp add: slots_inv_def slot_cap_def MAX_NEW_FLASHBLOCKS_SUBSCRIPTIONS_PER_CONNECTION_def)
  from slot_take_free [OF this] obtain c sl' where
    "slot_take (su_slots (open_new n)) 1 SlotNewFlashblocks =
       (Some \<lparr>cs_connection = 1, cs_kind = SlotNewFlashblocks, cs_queued_total = c\<rparr>, sl')" by metis
  with Suc show ?case by (simp add: subscribe_def slot_of_def)
qed (simp add: live_count_def subscriptions_new_def)

theorem subscriptions_capped_witness:
  "\<exists>msg sl m. subscribe (su_slots (open_new 4)) metrics_default 1 (Flashblocks NewFlashblocks) None True
     = (Rejected msg, sl, m)"
proof -
  have "live_count (su_live (open_new 4)) 1 (slot_of NewFlashblocks) = slot_cap (slot_of NewFlashblocks)"
    using open_new_live [of 4]
    by (simp add: slot_of_def slot_cap_def MAX_NEW_FLASHBLOCKS_SUBSCRIPTIONS_PER_CONNECTION_def)
  then show ?thesis
    using subscriptions_capped [OF open_new_reachable, of 4 1 _ metrics_default NewFlashblocks None True]
    by blast
qed

section \<open>Delivery\<close>

text \<open>The sink is looked at every \<open>DRAIN_POLL_INTERVAL\<close>: the clock passes at least that much.\<close>

definition polls_on_time :: "round_env \<Rightarrow> bool" where
  "polls_on_time e \<longleftrightarrow> (\<forall>n. re_start e + n * DRAIN_POLL_INTERVAL \<le> sv_now (re_polls e n))"

lemma wait_poll_returns:
  assumes "\<And>i. start + i * DRAIN_POLL_INTERVAL \<le> sv_now (polls i)"
  shows "timeout limits \<le> (fuel + n) * DRAIN_POLL_INTERVAL \<Longrightarrow>
    wait_poll (Suc fuel) polls limits (start + timeout limits) n \<noteq> None"
proof (induction fuel arbitrary: n)
  case 0
  then have "start + timeout limits \<le> sv_now (polls n)"
    using assms [of n] by (metis add.commute add_0 add_le_cancel_left order_trans)
  then show ?case by auto
next
  case (Suc fuel)
  have "wait_poll (Suc fuel) polls limits (start + timeout limits) (n + 1) \<noteq> None"
    using Suc.prems by (intro Suc.IH) (simp add: algebra_simps)
  then show ?case by (subst wait_poll.simps) (simp del: wait_poll.simps not_None_eq)
qed

text \<open>
  Enough fuel for the looks until the deadline: one per interval, the one at the start and
  the one past the deadline. For the default limits that is 10002.
\<close>

definition poll_fuel :: "SlowSubscriberLimits \<Rightarrow> nat" where
  "poll_fuel limits = Suc (Suc (timeout limits div DRAIN_POLL_INTERVAL))"

lemma wait_for_room_returns:
  assumes "polls_on_time e"
  shows "wait_for_room (poll_fuel limits) (re_polls e) limits (re_start e) \<noteq> None"
proof -
  have "timeout limits \<le> Suc (timeout limits div DRAIN_POLL_INTERVAL) * DRAIN_POLL_INTERVAL"
    using dividend_less_div_times [of DRAIN_POLL_INTERVAL "timeout limits"]
    by (simp add: DRAIN_POLL_INTERVAL_def from_millis_def)
  then show ?thesis
    unfolding wait_for_room_def poll_fuel_def using assms
    by (intro wait_poll_returns) (simp_all add: polls_on_time_def)
qed

text \<open>A round delivers its item when the sink is open, has room in time and takes the message.\<close>

definition delivers :: "SlowSubscriberLimits \<Rightarrow> round_env \<Rightarrow> bool" where
  "delivers limits e \<longleftrightarrow>
     \<not> re_closed e
   \<and> wait_for_room (poll_fuel limits) (re_polls e) limits (re_start e) = Some True
   \<and> env_send e \<noteq> None"

text \<open>The first \<open>k\<close> items were sent: each of their rounds delivered, and the next one did not.\<close>

definition sent_until ::
    "SlowSubscriberLimits \<Rightarrow> (nat \<Rightarrow> round_env) \<Rightarrow> nat \<Rightarrow> 'a list \<Rightarrow> 'a list option \<Rightarrow> bool" where
  "sent_until limits envs n xs out \<longleftrightarrow>
     (\<exists>k \<le> length xs. out = Some (take k xs) \<and> (\<forall>i < k. delivers limits (envs (n + i)))
        \<and> (k < length xs \<longrightarrow> \<not> delivers limits (envs (n + k))))"

lemma pipe_from_stream_sends:
  assumes "\<And>i. polls_on_time (envs i)"
  shows "sent_until limits envs n xs (pipe_from_stream (poll_fuel limits) limits envs n xs)"
proof (induction xs arbitrary: n)
  case Nil
  then show ?case by (simp add: sent_until_def)
next
  case (Cons x xs)
  obtain room where room:
    "wait_for_room (poll_fuel limits) (re_polls (envs n)) limits (re_start (envs n)) = Some room"
    using wait_for_room_returns [OF assms] by blast
  show ?case
  proof (cases "delivers limits (envs n)")
    case True
    obtain k where k: "pipe_from_stream (poll_fuel limits) limits envs (n + 1) xs = Some (take k xs)"
      "k \<le> length xs" "\<forall>i < k. delivers limits (envs (n + 1 + i))"
      "k < length xs \<longrightarrow> \<not> delivers limits (envs (n + 1 + k))"
      using Cons.IH [of "n + 1"] unfolding sent_until_def by blast
    have "pipe_from_stream (poll_fuel limits) limits envs n (x # xs) = Some (take (Suc k) (x # xs))"
      using True k(1) by (auto simp: delivers_def)
    moreover have "\<forall>i < Suc k. delivers limits (envs (n + i))"
      using True k(3) by (auto simp: less_Suc_eq_0_disj)
    ultimately show ?thesis
      unfolding sent_until_def using k(2,4) by (intro exI [of _ "Suc k"]) simp
  next
    case False
    then have "pipe_from_stream (poll_fuel limits) limits envs n (x # xs) = Some (take 0 (x # xs))"
      using room by (cases room) (auto simp: delivers_def)
    with False show ?thesis unfolding sent_until_def by (intro exI [of _ 0]) simp
  qed
qed

lemma delta_items_ok: "delta_items get (map Inr ts) = concat (map get ts)"
proof (induction ts)
  case (Cons t ts)
  then show ?case unfolding delta_items_def by (simp add: List.map_filter_simps Let_def split: if_split)
qed (simp add: delta_items_def List.map_filter_simps)

text \<open>
  C22. What a client receives: over snapshots that each extend the previous one by a
  flashblock, the pipe of a \<open>pendingLogs\<close> subscription returns, having sent in order and
  without gaps the logs that the last snapshot has beyond the first, up to the first round
  that does not deliver; the same for the hashes of \<open>newFlashblockTransactions\<close>.
\<close>

theorem subscriber_receives:
  assumes "chained extends_by_one s ts" and "\<And>i. polls_on_time (envs i)"
  shows "sent_until limits envs 0
       (drop (length (get_pending_logs s f)) (get_pending_logs (last (s # ts)) f))
       (pipe_from_stream (poll_fuel limits) limits envs 0 (pending_logs_stream f (map Inr ts)))
    \<and> sent_until limits envs 0
       (drop (length (get_pending_transaction_hashes s)) (get_pending_transaction_hashes (last (s # ts))))
       (pipe_from_stream (poll_fuel limits) limits envs 0
         (new_flashblock_transactions_hash_stream (map Inr ts)))"
proof -
  have "drop (length (get_pending_logs s f)) (get_pending_logs (last (s # ts)) f) =
      pending_logs_stream f (map Inr ts)"
    unfolding logs_stream.chain_view [OF assms(1), of f]
    by (simp add: pending_logs_stream_def delta_items_ok)
  moreover have "drop (length (get_pending_transaction_hashes s))
      (get_pending_transaction_hashes (last (s # ts))) =
      new_flashblock_transactions_hash_stream (map Inr ts)"
    unfolding hashes_stream.chain_view [OF assms(1)]
    by (simp add: new_flashblock_transactions_hash_stream_def delta_items_ok)
  ultimately show ?thesis
    by (simp only:) (intro conjI pipe_from_stream_sends assms(2))
qed

text \<open>A client that reads: every look finds an empty buffer.\<close>

definition reading_env :: round_env where
  "reading_env = \<lparr>re_closed = False, re_start = 0,
     re_polls = (\<lambda>n. \<lparr>sv_capacity = 1024, sv_max_capacity = 1024, sv_closed = False,
       sv_now = n * DRAIN_POLL_INTERVAL\<rparr>),
     re_total_read = 0, re_total_send = 0, re_now = 0, re_elapsed_at = 0,
     re_serializes = True, re_sink_ok = True\<rparr>"

lemma reading_env_delivers: "polls_on_time reading_env" "delivers limits reading_env"
  by (simp_all add: polls_on_time_def delivers_def reading_env_def wait_for_room_def poll_fuel_def
      queued_def env_send_def send_def)

theorem subscriber_receives_witness:
  "pipe_from_stream (poll_fuel limits_default) limits_default (\<lambda>_. reading_env) 0
     (new_flashblock_transactions_hash_stream
       [Inr (example_snapshot [example_flashblock 0 1, example_flashblock 1 2] [11, 12, 13])])
   = Some [12, 13]"
proof -
  let ?s = "example_snapshot [example_flashblock 0 1] [11]"
  let ?t = "example_snapshot [example_flashblock 0 1, example_flashblock 1 2] [11, 12, 13]"
  have "chained extends_by_one ?s [?t]"
    by (simp add: extends_by_one_def covers_def logs_of_def example_snapshot_def example_flashblock_def)
  from subscriber_receives [OF this, of "\<lambda>_. reading_env" limits_default "\<lambda>_. True"]
  show ?thesis by (auto simp: reading_env_delivers sent_until_def)
qed

section \<open>Has the previous message left?\<close>

text \<open>
  A connection's buffer with the messages' numbers: a flashblocks message carries the
  total it was sent at, another message of the connection none. Every message enters at
  the end; the client's reads take from the front. A message whose send fails is counted
  and never queued. \<open>cn_sent\<close> and \<open>cn_failed\<close> record what was sent and what failed.
\<close>

record connection =
  cn_total :: u64
  cn_buffer :: "u64 option list"
  cn_sent :: "u64 list"
  cn_failed :: nat

inductive connection_step :: "connection \<Rightarrow> connection \<Rightarrow> bool" where
  step_sent:
    "send (cn_total c) True True = (Some at, n) \<Longrightarrow> cn_total c \<noteq> - 1 \<Longrightarrow>
     connection_step c (c\<lparr>cn_total := n, cn_buffer := cn_buffer c @ [Some at], cn_sent := cn_sent c @ [at]\<rparr>)"
| step_send_failed:
    "send (cn_total c) True False = (None, n) \<Longrightarrow> cn_total c \<noteq> - 1 \<Longrightarrow>
     connection_step c (c\<lparr>cn_total := n, cn_failed := cn_failed c + 1\<rparr>)"
| step_foreign: "connection_step c (c\<lparr>cn_buffer := cn_buffer c @ [None]\<rparr>)"
| step_read: "connection_step c (c\<lparr>cn_buffer := tl (cn_buffer c)\<rparr>)"

definition connection_new :: connection where
  "connection_new = \<lparr>cn_total = 0, cn_buffer = [], cn_sent = [], cn_failed = 0\<rparr>"

definition own :: "u64 option list \<Rightarrow> u64 list" where
  "own buf = List.map_filter id buf"

text \<open>
  The numbered messages of the buffer are the last ones sent, numbers grow, and every number
  up to the total was sent or failed.
\<close>

definition connection_inv :: "connection \<Rightarrow> bool" where
  "connection_inv c \<longleftrightarrow>
     sorted_wrt (<) (cn_sent c) \<and> (\<forall>n \<in> set (cn_sent c). 0 < n \<and> n \<le> cn_total c)
   \<and> length (cn_sent c) + cn_failed c = unat (cn_total c)
   \<and> suffix (own (cn_buffer c)) (cn_sent c)"

lemma own_simps [simp]:
  "own [] = []" "own (None # b) = own b" "own (Some x # b) = x # own b" "own (a @ b) = own a @ own b"
  by (simp_all add: own_def List.map_filter_def)

lemma suffix_own_tl: "suffix (own (tl b)) (own b)"
proof (cases b)
  case (Cons x xs)
  then show ?thesis by (cases x) (simp_all add: suffix_ConsI)
qed simp

lemma connection_step_inv:
  assumes "connection_inv c" "connection_step c d"
  shows "connection_inv d"
  using assms(2,1)
proof cases
  case (step_sent at n)
  then have n: "at = cn_total c + 1" "n = cn_total c + 1" by (auto simp: send_def)
  have lt: "cn_total c < cn_total c + 1" using step_sent by (intro word_less_succ)
  then have un: "unat (cn_total c + 1) = unat (cn_total c) + 1"
    using step_sent(3) by (metis unatSuc add.commute Suc_eq_plus1 word_not_simps(1) less_zeroE)
  have "sorted_wrt (<) (cn_sent c @ [cn_total c + 1])"
    using assms(1) lt by (auto simp: connection_inv_def sorted_wrt_append)
  moreover have "0 < cn_total c + 1" using lt by (metis le_less_trans word_zero_le)
  ultimately show ?thesis
    using assms(1) lt un unfolding step_sent(1) by (auto simp: connection_inv_def n)
next
  case (step_send_failed n)
  then have n: "n = cn_total c + 1" by (simp add: send_def)
  have lt: "cn_total c < cn_total c + 1" using step_send_failed by (intro word_less_succ)
  then have un: "unat (cn_total c + 1) = unat (cn_total c) + 1"
    using step_send_failed(3) by (metis unatSuc add.commute Suc_eq_plus1 word_not_simps(1) less_zeroE)
  show ?thesis
    using assms(1) lt un unfolding step_send_failed(1) by (auto simp: connection_inv_def n)
next
  case step_foreign
  then show ?thesis using assms(1) by (simp add: connection_inv_def)
next
  case step_read
  then show ?thesis using assms(1) suffix_own_tl suffix_order.trans
    by (auto simp: connection_inv_def)
qed

interpretation conn: transition_system "\<lambda>c. c = connection_new" connection_step connection_inv
  by unfold_locales
    (simp add: connection_inv_def connection_new_def, rule connection_step_inv)

lemma own_Cons: "own (x # b) = (case x of None \<Rightarrow> own b | Some y \<Rightarrow> y # own b)"
  by (cases x) simp_all

lemma length_own: "length (own b) \<le> length b" "None \<notin> set b \<Longrightarrow> length (own b) = length b"
proof (induction b)
  case (Cons x b)
  { case 1 then show ?case using Cons(1) by (cases x) simp_all }
  { case 2 then show ?case using Cons(2) by (cases x) simp_all }
qed simp_all

lemma has_left_iff:
  "length b < 2 ^ 64 \<Longrightarrow> has_left (length b) (sat_sub t at) \<longleftrightarrow> length b \<le> unat t - unat at"
  by (simp add: has_left_def word_le_nat_alt unat_sat_sub take_bit_nat_eq_self unat_of_nat)

text \<open>Strictly growing numbers that all lie in an interval are no more than its size.\<close>

lemma sorted_words_bound:
  fixes xs :: "u64 list"
  assumes "sorted_wrt (<) xs" "\<And>x. x \<in> set xs \<Longrightarrow> a < x \<and> x \<le> b"
  shows "length xs \<le> unat b - unat a"
proof -
  have "distinct xs" using assms(1) by (simp add: strict_sorted_iff)
  then have "length xs = card (unat ` set xs)"
    by (metis card_image distinct_card inj_onI word_unat_eq_iff)
  also have "\<dots> \<le> card {unat a <.. unat b}"
    using assms(2) by (intro card_mono) (auto simp: word_less_nat_alt word_le_nat_alt)
  finally show ?thesis by simp
qed

text \<open>
  What \<open>pipe_latest\<close> infers from the buffer's size: on a connection where messages enter
  the buffer as they are counted, a message it takes for queued is really in the buffer
  when no other messages are, and a message in the buffer is never taken for written when
  no send has failed; so without either the answer is exact.
\<close>

theorem has_left_exact:
  assumes "connection_step\<^sup>*\<^sup>* connection_new c" and "at \<in> set (cn_sent c)"
    and "length (cn_buffer c) < 2 ^ 64"
  shows "(None \<notin> set (cn_buffer c) \<and> \<not> has_left (length (cn_buffer c)) (sat_sub (cn_total c) at)
            \<longrightarrow> Some at \<in> set (cn_buffer c))
       \<and> (cn_failed c = 0 \<and> Some at \<in> set (cn_buffer c)
            \<longrightarrow> \<not> has_left (length (cn_buffer c)) (sat_sub (cn_total c) at))"
proof -
  have inv: "connection_inv c" using assms(1) by (blast intro: conn.reachable_inv)
  then have srt: "sorted_wrt (<) (cn_sent c)" and le: "\<And>n. n \<in> set (cn_sent c) \<Longrightarrow> 0 < n \<and> n \<le> cn_total c"
    and tot: "length (cn_sent c) + cn_failed c = unat (cn_total c)"
    by (auto simp: connection_inv_def)
  obtain front where front: "cn_sent c = front @ own (cn_buffer c)"
    using inv by (auto simp: connection_inv_def suffix_def)
  have mem: "Some x \<in> set b \<longleftrightarrow> x \<in> set (own b)" for x b
    by (induction b) (auto simp: own_Cons split: option.splits)
  have left: "Some at \<in> set (cn_buffer c)"
    if "None \<notin> set (cn_buffer c)" "\<not> length (cn_buffer c) \<le> unat (cn_total c) - unat at"
  proof (rule ccontr)
    assume "Some at \<notin> set (cn_buffer c)"
    then have "at \<in> set front" using assms(2) front by (auto simp: mem)
    then have "length (own (cn_buffer c)) \<le> unat (cn_total c) - unat at"
      using srt le by (intro sorted_words_bound) (auto simp: front sorted_wrt_append)
    with that show False by (simp add: length_own)
  qed
  have kept: "\<not> length (cn_buffer c) \<le> unat (cn_total c) - unat at"
    if "cn_failed c = 0" and at: "Some at \<in> set (cn_buffer c)"
  proof -
    obtain us vs where split: "own (cn_buffer c) = us @ at # vs"
      using at by (auto simp: mem dest: split_list)
    have "length (front @ us @ [at]) \<le> unat at - unat (0 :: u64)"
      using srt le by (intro sorted_words_bound) (auto simp: front split sorted_wrt_append)
    with tot that(1) have "unat (cn_total c) - unat at \<le> length vs" by (simp add: front split)
    then show ?thesis using length_own(1) [of "cn_buffer c"] by (simp add: split)
  qed
  show ?thesis using left kept by (simp add: has_left_iff [OF assms(3)])
qed

theorem has_left_exact_witness:
  "\<not> has_left 1 (sat_sub (1 :: u64) 1)"
proof -
  let ?c = "\<lparr>cn_total = 1, cn_buffer = [Some 1], cn_sent = [1], cn_failed = 0\<rparr>"
  have "connection_step connection_new ?c"
    using step_sent [of connection_new 1 1] by (simp add: send_def connection_new_def)
  then have "connection_step\<^sup>*\<^sup>* connection_new ?c" by simp
  from has_left_exact [OF this, of 1] show ?thesis by simp
qed

section \<open>The newest block only\<close>

lemma pipe_latest_loop_subseq: "subseq (pipe_latest_loop limits envs render n st xs) (map render xs)"
  by (induction xs arbitrary: n st) (auto split: latest_round.split)

text \<open>A client that reads: nothing of the subscription is queued at a decision.\<close>

definition reads_in_time :: "round_env \<Rightarrow> bool" where
  "reads_in_time e \<longleftrightarrow> \<not> re_closed e \<and> env_send e \<noteq> None \<and> queued (re_polls e 0) = 0"

lemma pipe_latest_loop_all:
  "(\<And>i. reads_in_time (envs i)) \<Longrightarrow> pipe_latest_loop limits envs render n st xs = map render xs"
proof (induction xs arbitrary: n st)
  case (Cons x xs)
  have "reads_in_time (envs n)" by (rule Cons.prems)
  then have "\<not> previous_queued (envs n) st"
    by (simp add: reads_in_time_def previous_queued_def has_left_def split: option.split)
  with \<open>reads_in_time (envs n)\<close> obtain q where "pipe_latest_round limits (envs n) st =
      LatestSend \<lparr>ls_skipping_since = None, ls_previous_at = Some q\<rparr>"
    by (auto simp: reads_in_time_def pipe_latest_round_def)
  with Cons show ?case by simp
qed simp

text \<open>
  A client that stopped reading after the message counted \<open>at\<close>: the message stays queued
  at every decision, and by the last of them the timeout has passed since the first.
\<close>

definition stalled :: "(nat \<Rightarrow> round_env) \<Rightarrow> nat \<Rightarrow> u64 \<Rightarrow> bool" where
  "stalled envs n at \<longleftrightarrow>
     (\<forall>i \<ge> n. \<not> has_left (queued (re_polls (envs i) 0)) (sat_sub (re_total_read (envs i)) at))"

lemma pipe_latest_loop_stalled:
  "stalled envs n at \<Longrightarrow> ls_previous_at st = Some at \<Longrightarrow>
     pipe_latest_loop limits envs render n st xs = []"
proof (induction xs arbitrary: n st)
  case (Cons x xs)
  have queued: "previous_queued (envs n) st"
    using Cons.prems by (simp add: stalled_def previous_queued_def)
  have "stalled envs (n + 1) at" using Cons.prems(1) by (simp add: stalled_def)
  then show ?case
    using Cons.IH [of "n + 1"] Cons.prems(2) queued
    by (auto simp: pipe_latest_round_def Let_def)
qed simp

lemma stalled_round_ends:
  assumes "previous_queued e st" "ls_skipping_since st = Some t" "t + timeout limits \<le> re_elapsed_at e"
  shows "pipe_latest_round limits e st = LatestEnd"
  using assms(1,2) le_diff_conv2 [of t "re_elapsed_at e" "timeout limits"] assms(3)
  by (simp add: pipe_latest_round_def add.commute)

text \<open>
  \<open>newFlashblocks\<close> sends the newest block only: what it sends is a subsequence of the
  rendered snapshots, all of them to a client that reads in time; once a message stays
  queued nothing more is sent, and the subscription ends at the first decision after the
  timeout of skipping.
\<close>

theorem latest_pipe:
  shows "subseq (pipe_latest limits envs render items) (map render items)
    \<and> ((\<forall>i. reads_in_time (envs i)) \<longrightarrow> pipe_latest limits envs render items = map render items)
    \<and> (stalled envs n at \<longrightarrow>
         pipe_latest_loop limits envs render n
           \<lparr>ls_skipping_since = since, ls_previous_at = Some at\<rparr> items = [])
    \<and> (stalled envs n at \<and> t + timeout limits \<le> re_elapsed_at (envs n) \<longrightarrow>
         pipe_latest_round limits (envs n) \<lparr>ls_skipping_since = Some t, ls_previous_at = Some at\<rparr>
           = LatestEnd)"
proof -
  have "stalled envs n at \<Longrightarrow>
      previous_queued (envs n) \<lparr>ls_skipping_since = Some t, ls_previous_at = Some at\<rparr>"
    by (simp add: stalled_def previous_queued_def)
  then show ?thesis
    by (auto simp: pipe_latest_def pipe_latest_loop_subseq pipe_latest_loop_all
        pipe_latest_loop_stalled stalled_round_ends)
qed

text \<open>Ten seconds after a client stopped reading, its one message still queued.\<close>

definition stalled_env :: round_env where
  "stalled_env = \<lparr>re_closed = False, re_start = 0,
     re_polls = (\<lambda>n. \<lparr>sv_capacity = 1023, sv_max_capacity = 1024, sv_closed = False, sv_now = 0\<rparr>),
     re_total_read = 1, re_total_send = 1, re_now = from_secs 10, re_elapsed_at = from_secs 10,
     re_serializes = True, re_sink_ok = True\<rparr>"

theorem latest_pipe_witness:
  "pipe_latest limits_default (\<lambda>_. reading_env) id [7, 8, 9 :: nat] = [7, 8, 9]
   \<and> pipe_latest_round limits_default stalled_env
       \<lparr>ls_skipping_since = Some 0, ls_previous_at = Some 1\<rparr> = LatestEnd"
proof -
  have "reads_in_time reading_env"
    by (simp add: reads_in_time_def reading_env_def env_send_def send_def queued_def)
  moreover have "stalled (\<lambda>_. stalled_env) 0 1"
    by (simp add: stalled_def stalled_env_def queued_def has_left_def sat_sub_def)
  ultimately show ?thesis
    using latest_pipe [of limits_default "\<lambda>_. reading_env" id "[7, 8, 9 :: nat]"]
      latest_pipe [of limits_default "\<lambda>_. stalled_env" id "[7, 8, 9 :: nat]" 0 1 None 0]
    by (simp add: limits_default_def stalled_env_def)
qed

end
