(* ===== verification/EthRpc.thy ===== *)
theory EthRpc
  imports Overlay
begin

text \<open>
  The \<open>eth\<close> methods that know the pending snapshot (\<open>flashblocks/src/rpc/eth.rs\<close>). Each
  handler reads the published snapshot once, given as an option; what reth's \<open>eth\<close> API, its
  log filter and its provider answer to the request are the fields of a record. Every
  handler returns its result and the metrics after it.
\<close>

section \<open>Requests\<close>

datatype FilterBlockOption =
    FilterRange "BlockNumberOrTag option" "BlockNumberOrTag option"
  | AtBlockHash b256

text \<open>A log filter: its block option and the predicate its address and topics compute.\<close>

record Filter =
  flt_block_option :: FilterBlockOption
  flt_matches :: "plog \<Rightarrow> bool"

record ('req, 'ovr, 'sim, 'simres) eth_api =
  ea_rpc_block :: "BlockNumberOrTag \<Rightarrow> bool \<Rightarrow> string + RpcBlock option"
  ea_transaction_receipt :: "b256 \<Rightarrow> string + TransactionReceipt option"
  ea_balance :: "address \<Rightarrow> BlockId option \<Rightarrow> string + u256"
  ea_transaction_count :: "address \<Rightarrow> BlockId option \<Rightarrow> string + u256"
  ea_transaction_by_hash :: "b256 \<Rightarrow> string + Transaction option"
  ea_send_raw_transaction :: "bytes \<Rightarrow> string + b256"
  ea_send_raw_transaction_sync_timeout :: duration
  ea_call :: "'req \<Rightarrow> BlockId \<Rightarrow> 'ovr \<Rightarrow> string + bytes"
  ea_estimate_gas_at :: "'req \<Rightarrow> BlockId \<Rightarrow> 'ovr \<Rightarrow> string + u256"
  ea_simulate_v1 :: "'sim \<Rightarrow> BlockId \<Rightarrow> string + 'simres"
  ea_block_transaction_count :: "BlockNumberOrTag \<Rightarrow> string + nat option"
  ea_block_receipts :: "BlockId \<Rightarrow> string + TransactionReceipt list option"
  ea_transaction_by_block_and_tx_index :: "BlockNumberOrTag \<Rightarrow> nat \<Rightarrow> string + Transaction option"
  ea_logs :: "Filter \<Rightarrow> string + Log list"
  ea_pending_block_num_hash :: "string + (u64 \<times> b256) option"
  ea_block_number :: "b256 \<Rightarrow> string + u64 option"

datatype rpc_error = EthApi string | TransactionConfirmationTimeout b256 duration

definition eth_err :: "string + 'a \<Rightarrow> rpc_error + 'a" where
  "eth_err r = map_err EthApi r"

lemma eth_err_iff [simp]:
  "eth_err r = Inl e \<longleftrightarrow> (\<exists>s. r = Inl s \<and> e = EthApi s)" "eth_err r = Inr x \<longleftrightarrow> r = Inr x"
  by (cases r; auto simp: eth_err_def)+

text \<open>\<open>BlockId::default()\<close> is the latest block.\<close>

definition block_id_or_default :: "BlockId option \<Rightarrow> BlockId" where
  "block_id_or_default b = (case b of None \<Rightarrow> IdNumber Latest | Some i \<Rightarrow> i)"

definition is_pending_tag :: "BlockNumberOrTag \<Rightarrow> bool" where
  "is_pending_tag n \<longleftrightarrow> n = PendingTag"

section \<open>Blocks, transactions and state\<close>

definition builder_balance ::
    "('req, 'ovr, 'sim, 'simres) eth_api \<Rightarrow> 'st PendingBlocks option \<Rightarrow> address \<Rightarrow> u256 option" where
  "builder_balance ea g a =
     (case g of
        None \<Rightarrow> None
      | Some snapshot \<Rightarrow>
          if engine_newer (ea_pending_block_num_hash ea) (latest_block_number snapshot) then None
          else
            (case pb_anchor snapshot of
               None \<Rightarrow> None
             | Some anchor \<Rightarrow>
                 (case ea_block_number ea (sh_hash anchor) of
                    Inr (Some _) \<Rightarrow> get_balance snapshot a
                  | _ \<Rightarrow> None)))"

definition rpc_block_by_number ::
    "('req, 'ovr, 'sim, 'simres) eth_api \<Rightarrow> 'st PendingBlocks option \<Rightarrow> Metrics \<Rightarrow> BlockNumberOrTag \<Rightarrow> bool
      \<Rightarrow> (rpc_error + RpcBlock option) \<times> Metrics" where
  "rpc_block_by_number ea g m number full =
     (if is_pending_tag number then
        (let m' = increment rpc_get_block_by_number m in
         if g \<noteq> None then (Inr (api_get_block g full), m')
         else (eth_err (ea_rpc_block ea number full), m'))
      else (eth_err (ea_rpc_block ea number full), m))"

definition rpc_transaction_receipt ::
    "('req, 'ovr, 'sim, 'simres) eth_api \<Rightarrow> 'st PendingBlocks option \<Rightarrow> Metrics \<Rightarrow> b256
      \<Rightarrow> (rpc_error + TransactionReceipt option) \<times> Metrics" where
  "rpc_transaction_receipt ea g m h =
     (case eth_err (ea_transaction_receipt ea h) of
        Inl e \<Rightarrow> (Inl e, m)
      | Inr (Some r) \<Rightarrow> (Inr (Some r), m)
      | Inr None \<Rightarrow>
          (case api_get_transaction_receipt g h of
             Some r \<Rightarrow> (Inr (Some r), increment rpc_get_transaction_receipt m)
           | None \<Rightarrow> (Inr None, m)))"

definition rpc_balance ::
    "('req, 'ovr, 'sim, 'simres) eth_api \<Rightarrow> 'st PendingBlocks option \<Rightarrow> Metrics \<Rightarrow> address \<Rightarrow> BlockId option
      \<Rightarrow> (rpc_error + u256) \<times> Metrics" where
  "rpc_balance ea g m a block =
     (if is_pending (block_id_or_default block) then
        (let m' = increment rpc_get_balance m in
         case builder_balance ea g a of
           Some balance \<Rightarrow> (Inr balance, m')
         | None \<Rightarrow> (eth_err (ea_balance ea a block), m'))
      else (eth_err (ea_balance ea a block), m))"

definition rpc_transaction_count ::
    "('req, 'ovr, 'sim, 'simres) eth_api \<Rightarrow> Metrics \<Rightarrow> address \<Rightarrow> BlockId option
      \<Rightarrow> (rpc_error + u256) \<times> Metrics" where
  "rpc_transaction_count ea m a block =
     (eth_err (ea_transaction_count ea a block),
      if is_pending (block_id_or_default block) then increment rpc_get_transaction_count m else m)"

definition rpc_transaction_by_hash ::
    "('req, 'ovr, 'sim, 'simres) eth_api \<Rightarrow> 'st PendingBlocks option \<Rightarrow> Metrics \<Rightarrow> b256
      \<Rightarrow> (rpc_error + Transaction option) \<times> Metrics" where
  "rpc_transaction_by_hash ea g m h =
     (case eth_err (ea_transaction_by_hash ea h) of
        Inl e \<Rightarrow> (Inl e, m)
      | Inr (Some t) \<Rightarrow> (Inr (Some t), m)
      | Inr None \<Rightarrow>
          (case api_get_transaction_by_hash g h of
             Some t \<Rightarrow> (Inr (Some t), increment rpc_get_transaction_by_hash m)
           | None \<Rightarrow> (Inr None, m)))"

definition rpc_call_at ::
    "('req, 'ovr, 'sim, 'simres) eth_api \<Rightarrow> Metrics \<Rightarrow> 'req \<Rightarrow> BlockId option \<Rightarrow> 'ovr
      \<Rightarrow> (rpc_error + bytes) \<times> Metrics" where
  "rpc_call_at ea m tx block ovr =
     (eth_err (ea_call ea tx (block_id_or_default block) ovr),
      if is_pending (block_id_or_default block) then increment rpc_call m else m)"

definition estimate_block_id :: "'st PendingBlocks option \<Rightarrow> BlockId option \<Rightarrow> BlockId" where
  "estimate_block_id g block =
     (case block of
        Some b \<Rightarrow> b
      | None \<Rightarrow> if g \<noteq> None then IdNumber PendingTag else IdNumber Latest)"

definition rpc_estimate_gas_at ::
    "('req, 'ovr, 'sim, 'simres) eth_api \<Rightarrow> 'st PendingBlocks option \<Rightarrow> Metrics \<Rightarrow> 'req \<Rightarrow> BlockId option \<Rightarrow> 'ovr
      \<Rightarrow> (rpc_error + u256) \<times> Metrics" where
  "rpc_estimate_gas_at ea g m tx block ovr =
     (let b = estimate_block_id g block in
      (eth_err (ea_estimate_gas_at ea tx b ovr),
       if is_pending b then increment rpc_estimate_gas m else m))"

definition rpc_simulate ::
    "('req, 'ovr, 'sim, 'simres) eth_api \<Rightarrow> Metrics \<Rightarrow> 'sim \<Rightarrow> BlockId option
      \<Rightarrow> (rpc_error + 'simres) \<times> Metrics" where
  "rpc_simulate ea m opts block =
     (eth_err (ea_simulate_v1 ea opts (block_id_or_default block)),
      if is_pending (block_id_or_default block) then increment rpc_simulate_v1 m else m)"

definition block_transactions_len :: "BlockTransactions \<Rightarrow> nat" where
  "block_transactions_len ts = (case ts of Full l \<Rightarrow> length l | Hashes l \<Rightarrow> length l)"

definition rpc_block_transaction_count ::
    "('req, 'ovr, 'sim, 'simres) eth_api \<Rightarrow> 'st PendingBlocks option \<Rightarrow> Metrics \<Rightarrow> BlockNumberOrTag
      \<Rightarrow> (rpc_error + nat option) \<times> Metrics" where
  "rpc_block_transaction_count ea g m number =
     (if is_pending_tag number then
        (let m' = increment rpc_get_block_transaction_count_by_number m in
         case api_get_block g False of
           Some block \<Rightarrow> (Inr (Some (block_transactions_len (rbk_transactions block))), m')
         | None \<Rightarrow> (eth_err (ea_block_transaction_count ea number), m'))
      else (eth_err (ea_block_transaction_count ea number), m))"

definition rpc_block_receipts ::
    "('req, 'ovr, 'sim, 'simres) eth_api \<Rightarrow> 'st PendingBlocks option \<Rightarrow> Metrics \<Rightarrow> BlockId
      \<Rightarrow> (rpc_error + TransactionReceipt list option) \<times> Metrics" where
  "rpc_block_receipts ea g m block =
     (if is_pending block then
        (let m' = increment rpc_get_block_receipts m in
         case api_get_block_receipts g of
           Some receipts \<Rightarrow> (Inr (Some receipts), m')
         | None \<Rightarrow> (eth_err (ea_block_receipts ea block), m'))
      else (eth_err (ea_block_receipts ea block), m))"

definition rpc_transaction_by_number_and_index ::
    "('req, 'ovr, 'sim, 'simres) eth_api \<Rightarrow> 'st PendingBlocks option \<Rightarrow> Metrics \<Rightarrow> BlockNumberOrTag \<Rightarrow> nat
      \<Rightarrow> (rpc_error + Transaction option) \<times> Metrics" where
  "rpc_transaction_by_number_and_index ea g m number i =
     (if is_pending_tag number then
        (let m' = increment rpc_get_transaction_by_block_number_and_index m in
         if g \<noteq> None then (Inr (api_get_transaction_by_index g i), m')
         else (eth_err (ea_transaction_by_block_and_tx_index ea number i), m'))
      else (eth_err (ea_transaction_by_block_and_tx_index ea number i), m))"

section \<open>Logs\<close>

definition log_key :: "Log \<Rightarrow> u64 option \<times> u64 option" where
  "log_key l = (rl_block_number l, rl_log_index l)"

definition rpc_logs_for ::
    "('req, 'ovr, 'sim, 'simres) eth_api \<Rightarrow> 'st PendingBlocks option \<Rightarrow> Metrics \<Rightarrow> Filter
      \<Rightarrow> (rpc_error + Log list) \<times> Metrics" where
  "rpc_logs_for ea g m flt =
     (case flt_block_option flt of
        AtBlockHash _ \<Rightarrow> (eth_err (ea_logs ea flt), m)
      | FilterRange from_block to_block \<Rightarrow>
          if to_block \<noteq> Some PendingTag then (eth_err (ea_logs ea flt), m)
          else
            (let m' = increment rpc_get_logs m in
             if g = None then (eth_err (ea_logs ea flt), m')
             else if from_block = Some PendingTag
               then (Inr (api_get_pending_logs g (flt_matches flt)), m')
             else
               (case eth_err (ea_logs ea (flt\<lparr>flt_block_option := FilterRange from_block (Some Latest)\<rparr>)) of
                  Inl e \<Rightarrow> (Inl e, m')
                | Inr historical \<Rightarrow>
                    (Inr (historical
                       @ filter (\<lambda>l. log_key l \<notin> log_key ` set historical)
                           (api_get_pending_logs g (flt_matches flt))), m'))))"

section \<open>Waiting for a receipt\<close>

text \<open>What a broadcast receiver yields, and a canonical notification: its blocks' transactions.\<close>

datatype 'a recv = Received 'a | Closed | Lagged nat

text \<open>\<open>None\<close> means that the wait has not ended with the events so far.\<close>

fun wait_for_flashblocks_receipt ::
    "'st PendingBlocks recv list \<Rightarrow> b256 \<Rightarrow> TransactionReceipt option option" where
  "wait_for_flashblocks_receipt [] h = None"
| "wait_for_flashblocks_receipt (Received pb # rest) h =
     (case get_receipt pb h of
        Some r \<Rightarrow> Some (Some r)
      | None \<Rightarrow> wait_for_flashblocks_receipt rest h)"
| "wait_for_flashblocks_receipt (Closed # rest) h = Some None"
| "wait_for_flashblocks_receipt (Lagged n # rest) h = wait_for_flashblocks_receipt rest h"

fun wait_for_canonical_receipt ::
    "('req, 'ovr, 'sim, 'simres) eth_api \<Rightarrow> b256 list list recv list \<Rightarrow> b256
      \<Rightarrow> TransactionReceipt option option" where
  "wait_for_canonical_receipt ea [] h = None"
| "wait_for_canonical_receipt ea (Received blocks # rest) h =
     (if list_ex (\<lambda>hashes. h \<in> set hashes) blocks
      then Some (case ea_transaction_receipt ea h of Inr r \<Rightarrow> r | Inl _ \<Rightarrow> None)
      else wait_for_canonical_receipt ea rest h)"
| "wait_for_canonical_receipt ea (Closed # rest) h = Some None"
| "wait_for_canonical_receipt ea (Lagged n # rest) h = wait_for_canonical_receipt ea rest h"

definition confirmation_timeout :: "Metrics \<Rightarrow> b256 \<Rightarrow> duration \<Rightarrow> rpc_error \<times> Metrics" where
  "confirmation_timeout m h d =
     (TransactionConfirmationTimeout h d, increment rpc_send_raw_transaction_sync_timeout m)"

definition sync_timeout :: "duration \<Rightarrow> u64 option \<Rightarrow> duration" where
  "sync_timeout configured timeout_ms =
     (case timeout_ms of
        None \<Rightarrow> configured
      | Some ms \<Rightarrow> if ms > 0 then min (from_millis (unat ms)) configured else configured)"

text \<open>
  The branch of the \<open>select\<close> that completes, with the events its receiver saw. A branch that
  has not ended yields no result.
\<close>

datatype 'st sync_branch =
    FlashblocksBranch "'st PendingBlocks recv list"
  | CanonicalBranch "b256 list list recv list"
  | TimeoutBranch

definition finish_wait ::
    "Metrics \<Rightarrow> b256 \<Rightarrow> duration \<Rightarrow> counter \<Rightarrow> TransactionReceipt option
      \<Rightarrow> (rpc_error + TransactionReceipt) \<times> Metrics" where
  "finish_wait m h d c r =
     (case r of
        Some receipt \<Rightarrow> (Inr receipt, increment c m)
      | None \<Rightarrow> (case confirmation_timeout m h d of (e, m') \<Rightarrow> (Inl e, m')))"

definition rpc_send_raw_transaction_sync ::
    "('req, 'ovr, 'sim, 'simres) eth_api \<Rightarrow> 'st PendingBlocks option \<Rightarrow> Metrics \<Rightarrow> bytes \<Rightarrow> u64 option
      \<Rightarrow> 'st sync_branch \<Rightarrow> ((rpc_error + TransactionReceipt) \<times> Metrics) option" where
  "rpc_send_raw_transaction_sync ea g m tx timeout_ms branch =
     (let d = sync_timeout (ea_send_raw_transaction_sync_timeout ea) timeout_ms in
      case eth_err (ea_send_raw_transaction ea tx) of
        Inl e \<Rightarrow> Some (Inl e, m)
      | Inr h \<Rightarrow>
          (case api_get_transaction_receipt g h of
             Some r \<Rightarrow> Some (Inr r, increment rpc_send_raw_transaction_sync_flashblock m)
           | None \<Rightarrow>
               (case branch of
                  FlashblocksBranch events \<Rightarrow>
                    map_option (finish_wait m h d rpc_send_raw_transaction_sync_flashblock)
                      (wait_for_flashblocks_receipt events h)
                | CanonicalBranch events \<Rightarrow>
                    map_option (finish_wait m h d rpc_send_raw_transaction_sync_canonical)
                      (wait_for_canonical_receipt ea events h)
                | TimeoutBranch \<Rightarrow> Some (finish_wait m h d rpc_send_raw_transaction_sync_timeout None))))"

section \<open>One meaning of pending\<close>

lemma served_overlay_of:
  "served_overlay np (overlay_of pb) = Inr (Some ov) \<longleftrightarrow>
     (\<exists>anchor n. pb_anchor pb = Some anchor
       \<and> \<not> engine_newer (np_pending_block_num_hash np) (latest_block_number pb)
       \<and> np_block_number np (sh_hash anchor) = Inr (Some n)
       \<and> ov = from_bundle anchor (pb_latest_header pb) (pb_bundle_state pb))"
  by (auto simp: served_overlay_def overlay_of_def from_bundle_def latest_block_number_def sh_number_def
      res_bind_eq_Inr split: option.splits)

text \<open>
  C26. \<open>pending\<close> means one state to every method. When the engine's and the chain's answers
  are the same, the builder's balance is served exactly while the snapshot is what
  \<open>pending\<close> resolves to; calls then run in the environment of the snapshot's latest header
  and on its bundle over its anchor's state, and otherwise balances, calls and state reads
  all fall back to reth.
\<close>

theorem pending_is_one_state:
  assumes "np_pending_block_num_hash np = ea_pending_block_num_hash ea"
    and "np_block_number np = ea_block_number ea"
  shows "builder_balance ea (Some pb) a =
      (case served_overlay np (overlay_of pb) of Inr (Some _) \<Rightarrow> get_balance pb a | _ \<Rightarrow> None)
    \<and> (\<forall>ov. served_overlay np (overlay_of pb) = Inr (Some ov) \<longrightarrow>
         (\<exists>anchor. pb_anchor pb = Some anchor
           \<and> evm_env_at np (overlay_of pb) (IdNumber PendingTag) =
               res_bind (np_evm_env_for_header np (pb_latest_header pb))
                 (\<lambda>env. Inr (env, IdNumber PendingTag))
           \<and> local_pending_state ops np (overlay_of pb) =
               res_bind (np_state_by_block_hash np (sh_hash anchor)) (\<lambda>st.
                 Inr (Some (pending_state_provider ops
                   \<lparr>psp_anchor = st, psp_bundle = pb_bundle_state pb\<rparr>)))))
    \<and> (served_overlay np (overlay_of pb) = Inr None \<longrightarrow>
         evm_env_at np (overlay_of pb) (IdNumber PendingTag) = np_evm_env_at np (IdNumber PendingTag)
       \<and> local_pending_state ops np (overlay_of pb) = Inr None)"
proof -
  have "builder_balance ea (Some pb) a =
      (case served_overlay np (overlay_of pb) of Inr (Some _) \<Rightarrow> get_balance pb a | _ \<Rightarrow> None)"
    by (auto simp: builder_balance_def served_overlay_def overlay_of_def from_bundle_def assms
        latest_block_number_def sh_number_def res_bind_def split: option.splits sum.splits)
  moreover have "\<exists>anchor. pb_anchor pb = Some anchor
      \<and> evm_env_at np (overlay_of pb) (IdNumber PendingTag) =
          res_bind (np_evm_env_for_header np (pb_latest_header pb))
            (\<lambda>env. Inr (env, IdNumber PendingTag))
      \<and> local_pending_state ops np (overlay_of pb) =
          res_bind (np_state_by_block_hash np (sh_hash anchor)) (\<lambda>st.
            Inr (Some (pending_state_provider ops \<lparr>psp_anchor = st, psp_bundle = pb_bundle_state pb\<rparr>)))"
    if served: "served_overlay np (overlay_of pb) = Inr (Some ov)" for ov
  proof -
    obtain anchor where anchor: "pb_anchor pb = Some anchor"
      and ov: "ov = from_bundle anchor (pb_latest_header pb) (pb_bundle_state pb)"
      using served unfolding served_overlay_of by blast
    have "po_latest_header ov = pb_latest_header pb" "po_anchor ov = anchor"
      "po_bundle ov = pb_bundle_state pb"
      by (simp_all add: ov from_bundle_def)
    then show ?thesis
      using anchor served
      by (simp add: evm_env_at_def local_pending_state_def is_pending_def)
  qed
  moreover have "served_overlay np (overlay_of pb) = Inr None \<Longrightarrow>
      evm_env_at np (overlay_of pb) (IdNumber PendingTag) = np_evm_env_at np (IdNumber PendingTag)
    \<and> local_pending_state ops np (overlay_of pb) = Inr None"
    by (simp add: evm_env_at_def local_pending_state_def is_pending_def)
  ultimately show ?thesis by blast
qed

section \<open>Merged logs\<close>

text \<open>
  C27. A log query that ends at \<open>pending\<close> returns the historical logs and then the pending
  ones they do not already hold: every log of either by its block and index, none twice,
  each from one of the two.
\<close>

theorem logs_merged:
  assumes "flt_block_option flt = FilterRange from_block (Some PendingTag)"
    and "from_block \<noteq> Some PendingTag"
    and "ea_logs ea (flt\<lparr>flt_block_option := FilterRange from_block (Some Latest)\<rparr>) = Inr historical"
    and "distinct (map log_key historical)"
    and "distinct (map log_key (get_pending_logs pb (flt_matches flt)))"
  shows "\<exists>logs. fst (rpc_logs_for ea (Some pb) m flt) = Inr logs \<and> prefix historical logs
    \<and> distinct (map log_key logs)
    \<and> log_key ` set logs = log_key ` set historical \<union> log_key ` set (get_pending_logs pb (flt_matches flt))
    \<and> set logs \<subseteq> set historical \<union> set (get_pending_logs pb (flt_matches flt))"
proof -
  let ?pending = "get_pending_logs pb (flt_matches flt)"
  let ?new = "filter (\<lambda>l. log_key l \<notin> log_key ` set historical) ?pending"
  have "distinct (map log_key (filter P ls))" if "distinct (map log_key ls)" for P and ls :: "Log list"
    using that by (simp add: distinct_map inj_on_def)
  then have "distinct (map log_key ?new)" using assms(5) by blast
  with assms(4) have "distinct (map log_key (historical @ ?new))" by auto
  moreover have "fst (rpc_logs_for ea (Some pb) m flt) = Inr (historical @ ?new)"
    using assms(1-3) by (simp add: rpc_logs_for_def Let_def eth_err_def api_get_pending_logs_def)
  moreover have "log_key ` set (historical @ ?new) = log_key ` set historical \<union> log_key ` set ?pending"
    by (simp only: set_append set_filter image_Un) blast
  ultimately show ?thesis by (intro exI [of _ "historical @ ?new"]) auto
qed

section \<open>Where a confirmed receipt comes from\<close>

text \<open>
  The events a wait reads on from: those of the flashblocks receiver that hold no receipt of
  the transaction, those of the canonical receiver without it in any block, and in both a
  lag. The wait stops at the first event it does not read on from.
\<close>

definition no_receipt_yet :: "b256 \<Rightarrow> 'st PendingBlocks recv \<Rightarrow> bool" where
  "no_receipt_yet h ev = (case ev of Received pb \<Rightarrow> get_receipt pb h = None | Lagged _ \<Rightarrow> True | Closed \<Rightarrow> False)"

definition no_block_yet :: "b256 \<Rightarrow> b256 list list recv \<Rightarrow> bool" where
  "no_block_yet h ev = (case ev of Received blocks \<Rightarrow> h \<notin> set (concat blocks) | Lagged _ \<Rightarrow> True | Closed \<Rightarrow> False)"

definition stops_at :: "('a \<Rightarrow> bool) \<Rightarrow> 'a list \<Rightarrow> 'a \<Rightarrow> bool" where
  "stops_at reads_on events ev \<longleftrightarrow>
     (\<exists>us vs. events = us @ ev # vs \<and> (\<forall>x \<in> set us. reads_on x) \<and> \<not> reads_on ev)"

lemma stops_at_simps [simp]:
  "\<not> stops_at p [] ev"
  "stops_at p (x # xs) ev \<longleftrightarrow> (if p x then stops_at p xs ev else ev = x)"
proof -
  show "stops_at p (x # xs) ev \<longleftrightarrow> (if p x then stops_at p xs ev else ev = x)"
  proof (cases "p x")
    case True
    have "stops_at p (x # xs) ev" if "xs = us @ ev # vs" "\<forall>y \<in> set us. p y" "\<not> p ev" for us vs
      unfolding stops_at_def using that True by (intro exI [of _ "x # us"] exI [of _ vs]) simp
    with True show ?thesis unfolding stops_at_def by (auto simp: Cons_eq_append_conv)
  qed (auto simp: stops_at_def Cons_eq_append_conv)
qed (simp add: stops_at_def)

lemma wait_for_flashblocks_receipt_exact:
  "wait_for_flashblocks_receipt events h = Some (Some r) \<longleftrightarrow>
     (\<exists>pb. stops_at (no_receipt_yet h) events (Received pb) \<and> get_receipt pb h = Some r)"
  "wait_for_flashblocks_receipt events h = Some None \<longleftrightarrow> stops_at (no_receipt_yet h) events Closed"
  "wait_for_flashblocks_receipt events h = None \<longleftrightarrow> list_all (no_receipt_yet h) events"
  by (induction events h rule: wait_for_flashblocks_receipt.induct)
    (auto simp: no_receipt_yet_def split: option.splits)

lemma wait_for_canonical_receipt_exact:
  "wait_for_canonical_receipt ea events h = Some (Some r) \<longleftrightarrow>
     (\<exists>blocks. stops_at (no_block_yet h) events (Received blocks)) \<and> ea_transaction_receipt ea h = Inr (Some r)"
  "wait_for_canonical_receipt ea events h = Some None \<longleftrightarrow> stops_at (no_block_yet h) events Closed
     \<or> (\<exists>blocks. stops_at (no_block_yet h) events (Received blocks))
       \<and> (\<forall>r. ea_transaction_receipt ea h \<noteq> Inr (Some r))"
  "wait_for_canonical_receipt ea events h = None \<longleftrightarrow> list_all (no_block_yet h) events"
  by (induction ea events h rule: wait_for_canonical_receipt.induct)
    (auto simp: no_block_yet_def list_ex_iff split: sum.splits option.splits)

text \<open>How the end of a wait becomes the answer.\<close>

lemma finished_wait:
  "map_option (finish_wait m h d c) w = None \<longleftrightarrow> w = None"
  "map_option (finish_wait m h d c) w = Some (Inr r, m') \<longleftrightarrow> w = Some (Some r) \<and> m' = increment c m"
  "map_option (finish_wait m h d c) w = Some (Inl e, m') \<longleftrightarrow> w = Some None
     \<and> e = TransactionConfirmationTimeout h d
     \<and> m' = increment rpc_send_raw_transaction_sync_timeout m"
  by (auto simp: finish_wait_def confirmation_timeout_def split: option.splits)

text \<open>
  C28. \<open>eth_sendRawTransactionSync\<close>, exactly. A transaction the pool refuses is answered with
  the pool's error. Otherwise the snapshot published then answers at once when it has the
  receipt. If not, the branch that completes decides. The flashblocks branch returns the
  receipt of the first broadcast that has one, waits through every other broadcast and
  every lag, and is a timeout error exactly when the channel closes first. The canonical
  branch waits through lags and through blocks without the transaction, and once a block
  holds it returns the receipt the node then has; it is a timeout error exactly when the
  node has none or the channel closed first. Each receipt and each timeout is counted where
  it came from, and the reported time is the configured one, or the requested one when that
  is positive and shorter.
\<close>

theorem sync_receipt_provenance:
  fixes ea :: "('req, 'ovr, 'sim, 'simres) eth_api" and g :: "'st PendingBlocks option"
    and m :: Metrics and tx :: bytes and ms :: "u64 option"
  defines "answer \<equiv> rpc_send_raw_transaction_sync ea g m tx ms"
    and "d \<equiv> (case ms of
        Some t \<Rightarrow> if 0 < unat t \<and> from_millis (unat t) \<le> ea_send_raw_transaction_sync_timeout ea
          then from_millis (unat t) else ea_send_raw_transaction_sync_timeout ea
      | None \<Rightarrow> ea_send_raw_transaction_sync_timeout ea)"
    and "timed_out \<equiv> \<lambda>h d. Some (Inl (TransactionConfirmationTimeout h d),
        increment rpc_send_raw_transaction_sync_timeout m)"
  shows "(\<forall>e. ea_send_raw_transaction ea tx = Inl e \<longrightarrow> answer branch = Some (Inl (EthApi e), m))
    \<and> (\<forall>h r. ea_send_raw_transaction ea tx = Inr h \<and> api_get_transaction_receipt g h = Some r \<longrightarrow>
         answer branch = Some (Inr r, increment rpc_send_raw_transaction_sync_flashblock m))
    \<and> (\<forall>h. ea_send_raw_transaction ea tx = Inr h \<and> api_get_transaction_receipt g h = None \<longrightarrow>
         (\<forall>r m'. answer (FlashblocksBranch fevents) = Some (Inr r, m') \<longleftrightarrow>
            (\<exists>pb. stops_at (no_receipt_yet h) fevents (Received pb) \<and> get_receipt pb h = Some r)
            \<and> m' = increment rpc_send_raw_transaction_sync_flashblock m)
       \<and> (\<forall>e m'. answer (FlashblocksBranch fevents) = Some (Inl e, m') \<longleftrightarrow>
            stops_at (no_receipt_yet h) fevents Closed \<and> Some (Inl e, m') = timed_out h d)
       \<and> (answer (FlashblocksBranch fevents) = None \<longleftrightarrow> list_all (no_receipt_yet h) fevents)
       \<and> (\<forall>r m'. answer (CanonicalBranch cevents) = Some (Inr r, m') \<longleftrightarrow>
            (\<exists>blocks. stops_at (no_block_yet h) cevents (Received blocks))
            \<and> ea_transaction_receipt ea h = Inr (Some r)
            \<and> m' = increment rpc_send_raw_transaction_sync_canonical m)
       \<and> (\<forall>e m'. answer (CanonicalBranch cevents) = Some (Inl e, m') \<longleftrightarrow>
            (stops_at (no_block_yet h) cevents Closed
             \<or> (\<exists>blocks. stops_at (no_block_yet h) cevents (Received blocks))
               \<and> (\<forall>r. ea_transaction_receipt ea h \<noteq> Inr (Some r)))
            \<and> Some (Inl e, m') = timed_out h d)
       \<and> (answer (CanonicalBranch cevents) = None \<longleftrightarrow> list_all (no_block_yet h) cevents)
       \<and> answer TimeoutBranch = timed_out h d)"
proof -
  have d: "sync_timeout (ea_send_raw_transaction_sync_timeout ea) ms = d"
    by (auto simp: sync_timeout_def d_def word_less_nat_alt min_def split: option.split)
  have refused: "answer branch = Some (Inl (EthApi e), m)" if "ea_send_raw_transaction ea tx = Inl e" for e
    using that by (simp add: answer_def rpc_send_raw_transaction_sync_def eth_err_def)
  have at_once: "answer branch = Some (Inr r, increment rpc_send_raw_transaction_sync_flashblock m)"
    if "ea_send_raw_transaction ea tx = Inr h" "api_get_transaction_receipt g h = Some r" for h r
    using that by (simp add: answer_def rpc_send_raw_transaction_sync_def eth_err_def)
  have waits: "answer (FlashblocksBranch fevents) =
        map_option (finish_wait m h d rpc_send_raw_transaction_sync_flashblock)
          (wait_for_flashblocks_receipt fevents h)"
      "answer (CanonicalBranch cevents) =
        map_option (finish_wait m h d rpc_send_raw_transaction_sync_canonical)
          (wait_for_canonical_receipt ea cevents h)"
      "answer TimeoutBranch = timed_out h d"
    if "ea_send_raw_transaction ea tx = Inr h" "api_get_transaction_receipt g h = None" for h
    using that
    by (simp_all add: answer_def rpc_send_raw_transaction_sync_def eth_err_def d timed_out_def
        finish_wait_def confirmation_timeout_def)
  show ?thesis
    by (intro conjI allI impI; (elim conjE)?)
      (auto simp: refused at_once waits finished_wait wait_for_flashblocks_receipt_exact
        wait_for_canonical_receipt_exact timed_out_def simp del: map_option_eq_Some)
qed

section \<open>Concrete requests\<close>

text \<open>A node at block 7 that knows one historical log and accepts every transaction as hash 11.\<close>

definition example_log :: "u64 \<Rightarrow> u64 \<Rightarrow> Log" where
  "example_log n i = \<lparr>rl_inner = \<lparr>log_address = 1, log_topics = [], log_data = []\<rparr>,
     rl_block_hash = None, rl_block_number = Some n, rl_block_timestamp = None,
     rl_transaction_hash = None, rl_transaction_index = None, rl_log_index = Some i,
     rl_removed = False\<rparr>"

definition example_eth_api :: "(unit, unit, unit, unit) eth_api" where
  "example_eth_api = \<lparr>ea_rpc_block = (\<lambda>_ _. Inr None), ea_transaction_receipt = (\<lambda>_. Inr None),
     ea_balance = (\<lambda>_ _. Inr 0), ea_transaction_count = (\<lambda>_ _. Inr 0),
     ea_transaction_by_hash = (\<lambda>_. Inr None), ea_send_raw_transaction = (\<lambda>_. Inr 11),
     ea_send_raw_transaction_sync_timeout = from_secs 30, ea_call = (\<lambda>_ _ _. Inr []),
     ea_estimate_gas_at = (\<lambda>_ _ _. Inr 0), ea_simulate_v1 = (\<lambda>_ _. Inr ()),
     ea_block_transaction_count = (\<lambda>_. Inr None), ea_block_receipts = (\<lambda>_. Inr None),
     ea_transaction_by_block_and_tx_index = (\<lambda>_ _. Inr None),
     ea_logs = (\<lambda>_. Inr [example_log 7 0, example_log 8 0]),
     ea_pending_block_num_hash = Inr None, ea_block_number = (\<lambda>_. Inr (Some 7))\<rparr>"

definition example_node_provider ::
    "(unit, unit, unit, unit, unit, unit, unit) node_provider" where
  "example_node_provider = \<lparr>np_pending_block_num_hash = Inr None,
     np_block_number = (\<lambda>_. Inr (Some 7)), np_state_by_block_hash = (\<lambda>_. Inr empty_anchor),
     np_pending_block_and_receipts = Inr None, np_latest_header = Inr None,
     np_cached_block_and_receipts = (\<lambda>_. Inr None), np_evm_env_for_header = (\<lambda>_. Inr ()),
     np_evm_env_at = (\<lambda>at. Inr ((), at))\<rparr>"

text \<open>A snapshot of block 8 with one transaction, its logs 0 and 1, and a builder balance.\<close>

definition example_receipt :: TransactionReceipt where
  "example_receipt = \<lparr>tr_inner = \<lparr>rwb_tx_type = 2, rwb_status = True, rwb_cumulative_gas_used = 0,
       rwb_logs = [example_log 8 0, example_log 8 1], rwb_bloom = 0\<rparr>,
     tr_transaction_hash = 11, tr_transaction_index = Some 0, tr_block_hash = None,
     tr_block_number = Some 8, tr_gas_used = 0, tr_effective_gas_price = 0, tr_from = 0,
     tr_to = None, tr_contract_address = None\<rparr>"

definition example_pending :: "nat PendingBlocks" where
  "example_pending = (example_snapshot [example_flashblock 0 1] [11])
     \<lparr>pb_account_balances := [5 \<mapsto> 77], pb_transaction_receipts := [11 \<mapsto> example_receipt]\<rparr>"

theorem pending_is_one_state_witness:
  "builder_balance example_eth_api (Some example_pending) 5 = Some 77
   \<and> local_pending_state example_ops example_node_provider (overlay_of example_pending) \<noteq> Inr None"
proof -
  have same: "np_pending_block_num_hash example_node_provider = ea_pending_block_num_hash example_eth_api"
    "np_block_number example_node_provider = ea_block_number example_eth_api"
    by (simp_all add: example_node_provider_def example_eth_api_def)
  have served: "served_overlay example_node_provider (overlay_of example_pending) =
      Inr (Some (from_bundle \<lparr>sh_header = header_at 7, sh_hash = 0\<rparr>
        (pb_latest_header example_pending) (pb_bundle_state example_pending)))"
    by (simp add: served_overlay_of)
      (simp add: example_node_provider_def example_pending_def example_snapshot_def engine_newer_def)
  have "get_balance example_pending 5 = Some 77" by (simp add: get_balance_def example_pending_def)
  with served pending_is_one_state [OF same, of example_pending 5 example_ops] show ?thesis
    by (auto simp: example_node_provider_def)
qed

definition example_filter :: Filter where
  "example_filter = \<lparr>flt_block_option = FilterRange (Some Earliest) (Some PendingTag),
     flt_matches = (\<lambda>_. True)\<rparr>"

theorem logs_merged_witness:
  "\<exists>logs. fst (rpc_logs_for example_eth_api (Some example_pending) metrics_default example_filter) = Inr logs
     \<and> log_key ` set logs = {(Some 7, Some 0), (Some 8, Some 0), (Some 8, Some 1)} \<and> length logs = 3"
proof -
  have pending: "get_pending_logs example_pending (flt_matches example_filter) = [example_log 8 0, example_log 8 1]"
    by (simp add: get_pending_logs_def tx_logs_def example_pending_def example_snapshot_def example_filter_def
        example_receipt_def)
  have hist: "ea_logs example_eth_api f = Inr [example_log 7 0, example_log 8 0]" for f
    by (simp add: example_eth_api_def)
  have opt: "flt_block_option example_filter = FilterRange (Some Earliest) (Some PendingTag)"
    by (simp add: example_filter_def)
  have key: "log_key (example_log n i) = (Some n, Some i)" for n i by (simp add: log_key_def example_log_def)
  obtain logs where logs: "fst (rpc_logs_for example_eth_api (Some example_pending) metrics_default example_filter) = Inr logs"
    "distinct (map log_key logs)" "log_key ` set logs = {(Some 7, Some 0), (Some 8, Some 0), (Some 8, Some 1)}"
    using logs_merged [of example_filter "Some Earliest" example_eth_api "[example_log 7 0, example_log 8 0]"
        example_pending metrics_default]
    by (auto simp: opt hist pending key insert_commute)
  have "length logs = card (log_key ` set logs)"
    using logs(2) by (metis distinct_card length_map list.set_map)
  with logs show ?thesis by simp
qed

text \<open>
  The transaction is confirmed by the broadcast after a lag, by the canonical block after a
  lag and after a block without it, and not yet by those alone.
\<close>

theorem sync_receipt_provenance_witness:
  "let ea = example_eth_api\<lparr>ea_transaction_receipt := (\<lambda>_. Inr (Some example_receipt))\<rparr>;
       answer = rpc_send_raw_transaction_sync ea (None :: nat PendingBlocks option) metrics_default [] (Some 5)
   in answer (FlashblocksBranch [Lagged 2, Received example_pending])
        = Some (Inr example_receipt, increment rpc_send_raw_transaction_sync_flashblock metrics_default)
    \<and> answer (CanonicalBranch [Lagged 1, Received [[3]], Received [[4], [5, 11]]])
        = Some (Inr example_receipt, increment rpc_send_raw_transaction_sync_canonical metrics_default)
    \<and> answer (CanonicalBranch [Lagged 1, Received [[3]]]) = None
    \<and> answer TimeoutBranch = Some (Inl (TransactionConfirmationTimeout 11 (from_millis 5)),
        increment rpc_send_raw_transaction_sync_timeout metrics_default)"
proof -
  let ?ea = "example_eth_api\<lparr>ea_transaction_receipt := (\<lambda>_. Inr (Some example_receipt))\<rparr>"
  have h: "ea_send_raw_transaction ?ea [] = Inr 11" "ea_transaction_receipt ?ea 11 = Inr (Some example_receipt)"
    "ea_send_raw_transaction_sync_timeout ?ea = from_secs 30"
    by (simp_all add: example_eth_api_def)
  have g: "api_get_transaction_receipt (None :: nat PendingBlocks option) 11 = None"
    by (simp add: api_get_transaction_receipt_def)
  have r: "get_receipt example_pending 11 = Some example_receipt"
    by (simp add: get_receipt_def example_pending_def)
  note t = sync_receipt_provenance [where ea = ?ea and g = "None :: nat PendingBlocks option" and m = metrics_default and tx = "[]"
      and ms = "Some 5" and branch = TimeoutBranch,
      THEN conjunct2, THEN conjunct2, rule_format, OF conjI, OF h(1) g]
  show ?thesis
    unfolding Let_def
    using t [where fevents = "[Lagged 2, Received example_pending]"
          and cevents = "[Lagged 1, Received [[3]], Received [[4], [5, 11]]]"]
      t [where fevents = "[]" and cevents = "[Lagged 1, Received [[3]]]"]
    by (auto simp: h r no_receipt_yet_def no_block_yet_def from_millis_def from_secs_def)
qed

end
