(* ===== verification/SimValidation.thy ===== *)
theory SimValidation
  imports Chain Payment
begin

text \<open>
  Validation of builder submissions (\<open>validation/mod.rs\<close>, \<open>validation/error.rs\<close>). Consensus
  rules, execution, the state provider, payload decoding and the KZG library are the fields
  of an environment; \<open>'prov\<close> is a state provider, \<open>'reads\<close> the cached reads, \<open>'post\<close> the
  state after execution and \<open>'evm\<close> an EVM on top of it. A validation sees one disallow list;
  the source looks each address up in the shared set when it comes to it, and what a refresh
  in between does to the lookups is shown beside the refresh, in \<open>Blacklist\<close>.
\<close>

section \<open>Errors\<close>

datatype ConsensusError =
    BodyStateRootDiff b256 b256
  | BlockTooLarge nat nat
  | OtherConsensus string

datatype BlockExecutionError = ExecutionValidation string | ExecutionInternal string

datatype NewPayloadError = PayloadEth string | PayloadOther string

datatype GetParentError =
  MissingLatestBlock | MissingParentBlock | BlockTooOld | ParentProvider string

text \<open>A mismatch carries what the message says and what the header says.\<close>

datatype ValidationApiError =
    GasLimitMismatch u64 u64
  | GasUsedMismatch u64 u64
  | ParentHashMismatch b256 b256
  | BlockHashMismatch b256 b256
  | GetParent GetParentError
  | ProposerPayment
  | InvalidBlobsBundle
  | Blacklist address
  | Blob string
  | Consensus ConsensusError
  | Provider string
  | Execution BlockExecutionError
  | Payload NewPayloadError
  | InclusionList

datatype rpc_error_kind = InvalidParams | InternalError

definition error_object :: "ValidationApiError \<Rightarrow> rpc_error_kind" where
  "error_object e = (case e of
     GasLimitMismatch _ _ \<Rightarrow> InvalidParams
   | GasUsedMismatch _ _ \<Rightarrow> InvalidParams
   | ParentHashMismatch _ _ \<Rightarrow> InvalidParams
   | BlockHashMismatch _ _ \<Rightarrow> InvalidParams
   | Blacklist _ \<Rightarrow> InvalidParams
   | ProposerPayment \<Rightarrow> InvalidParams
   | InvalidBlobsBundle \<Rightarrow> InvalidParams
   | InclusionList \<Rightarrow> InvalidParams
   | Blob _ \<Rightarrow> InvalidParams
   | GetParent _ \<Rightarrow> InternalError
   | Consensus _ \<Rightarrow> InternalError
   | Provider _ \<Rightarrow> InternalError
   | Execution err \<Rightarrow>
       (case err of ExecutionValidation _ \<Rightarrow> InvalidParams | ExecutionInternal _ \<Rightarrow> InternalError)
   | Payload err \<Rightarrow>
       (case err of PayloadEth _ \<Rightarrow> InvalidParams | PayloadOther _ \<Rightarrow> InternalError))"

section \<open>Data\<close>

record BidTrace =
  bt_parent_hash :: b256
  bt_block_hash :: b256
  bt_proposer_fee_recipient :: address
  bt_gas_limit :: u64
  bt_gas_used :: u64
  bt_value :: u256

record InclusionListTxWithMetadata =
  il_hash :: b256
  il_bytes :: bytes

record InclusionListWithMetadata =
  il_txs :: "InclusionListTxWithMetadata list"

text \<open>
  What execution leaves behind. A rebuilt block access list is its gas limit check and its
  hash; \<open>xo_accounts\<close> lists the accounts of the state's cache in the order of its keys.
\<close>

record ('reads, 'post) execution =
  xo_receipts :: "receipt list"
  xo_bundle :: BundleState
  xo_bal :: "((u64 \<Rightarrow> ConsensusError + unit) \<times> b256) option"
  xo_accounts :: "address list"
  xo_post :: 'post
  xo_reads :: 'reads

record BlockExecutionOutput =
  bo_receipts :: "receipt list"
  bo_state :: BundleState

record ('prov, 'reads) ExecutedBlock =
  eb_output :: BlockExecutionOutput
  eb_request_cache :: 'reads
  eb_state_provider :: 'prov
  eb_block_access_list_hash :: "b256 option"

record ('prov, 'reads, 'post, 'evm) sim_env =
  se_chain_id :: u64
  se_validate_header :: "RecoveredBlock \<Rightarrow> ConsensusError + unit"
  se_validate_block_pre_execution :: "RecoveredBlock \<Rightarrow> ConsensusError + unit"
  se_validate_header_against_parent :: "RecoveredBlock \<Rightarrow> SealedHeader \<Rightarrow> ConsensusError + unit"
  se_validate_block_post_execution ::
    "RecoveredBlock \<Rightarrow> BlockExecutionOutput \<Rightarrow> b256 option \<Rightarrow> ConsensusError + unit"
  se_latest_header :: "string + SealedHeader option"
  se_sealed_header_by_hash :: "b256 \<Rightarrow> string + SealedHeader option"
  se_state_by_block_hash :: "b256 \<Rightarrow> string + 'prov"
  se_hashed_state_root :: "'prov \<Rightarrow> BundleState \<Rightarrow> string + b256"
  se_execute_one :: "'prov \<Rightarrow> 'reads \<Rightarrow> RecoveredBlock \<Rightarrow> BlockExecutionError + ('reads, 'post) execution"
  se_evm_for_block :: "'post \<Rightarrow> Header \<Rightarrow> string + 'evm"
  se_recover_raw_transaction :: "bytes \<Rightarrow> string + TransactionSigned"
  se_transact :: "'evm \<Rightarrow> TransactionSigned \<Rightarrow> bool \<times> 'evm"
  se_evm_reads :: "'evm \<Rightarrow> 'reads"
  se_reads_default :: 'reads
  se_reads_extend :: "'reads \<Rightarrow> 'reads \<Rightarrow> 'reads"
  se_forwarder_account :: "string + (b256 option) option"
  se_effective_tip_per_gas :: "TransactionSigned \<Rightarrow> u64 \<Rightarrow> u128 option"
  se_abi :: abi

text \<open>The shared state of the API: the disallow list and the cached reads of one head.\<close>

record 'reads validation_api =
  va_disallow :: "address list"
  va_validation_window :: u64
  va_cached_state :: "b256 \<times> 'reads"

definition DEFAULT_VALIDATION_WINDOW :: u64 where
  "DEFAULT_VALIDATION_WINDOW = 3"

definition cached_reads ::
    "('prov, 'reads, 'post, 'evm) sim_env \<Rightarrow> 'reads validation_api \<Rightarrow> b256 \<Rightarrow> 'reads" where
  "cached_reads se va head =
     (if fst (va_cached_state va) = head then snd (va_cached_state va) else se_reads_default se)"

definition update_cached_reads ::
    "('prov, 'reads, 'post, 'evm) sim_env \<Rightarrow> b256 \<Rightarrow> 'reads \<Rightarrow> 'reads validation_api
      \<Rightarrow> 'reads validation_api" where
  "update_cached_reads se head reads va =
     va\<lparr>va_cached_state :=
       (if fst (va_cached_state va) = head
        then (head, se_reads_extend se (snd (va_cached_state va)) reads)
        else (head, reads))\<rparr>"

section \<open>The checks\<close>

definition validate_message_against_header ::
    "RecoveredBlock \<Rightarrow> BidTrace \<Rightarrow> ValidationApiError + unit" where
  "validate_message_against_header b msg =
     (let h = blk_header (rb_block b) in
      if rb_hash b \<noteq> bt_block_hash msg then Inl (BlockHashMismatch (bt_block_hash msg) (rb_hash b))
      else if hd_parent_hash h \<noteq> bt_parent_hash msg
        then Inl (ParentHashMismatch (bt_parent_hash msg) (hd_parent_hash h))
      else if hd_gas_limit h \<noteq> bt_gas_limit msg
        then Inl (GasLimitMismatch (bt_gas_limit msg) (hd_gas_limit h))
      else if hd_gas_used h \<noteq> bt_gas_used msg
        then Inl (GasUsedMismatch (bt_gas_used msg) (hd_gas_used h))
      else Inr ())"

fun blacklisted_transactions ::
    "address list \<Rightarrow> (address \<times> TransactionSigned) list \<Rightarrow> ValidationApiError + unit" where
  "blacklisted_transactions disallow [] = Inr ()"
| "blacklisted_transactions disallow ((sender, tx) # rest) =
     (if sender \<in> set disallow then Inl (Blacklist sender)
      else
        (case tx_to tx of
           Some to \<Rightarrow>
             if to \<in> set disallow then Inl (Blacklist to)
             else blacklisted_transactions disallow rest
         | None \<Rightarrow> blacklisted_transactions disallow rest))"

definition blacklisted_block ::
    "address list \<Rightarrow> bool \<Rightarrow> RecoveredBlock \<Rightarrow> BidTrace \<Rightarrow> ValidationApiError + unit" where
  "blacklisted_block disallow apply_blacklist b msg =
     (if disallow \<noteq> [] \<and> apply_blacklist then
        if hd_beneficiary (blk_header (rb_block b)) \<in> set disallow
          then Inl (Blacklist (hd_beneficiary (blk_header (rb_block b))))
        else if bt_proposer_fee_recipient msg \<in> set disallow
          then Inl (Blacklist (bt_proposer_fee_recipient msg))
        else blacklisted_transactions disallow (zip (rb_senders b) (blk_transactions (rb_block b)))
      else Inr ())"

definition get_parent_header ::
    "('prov, 'reads, 'post, 'evm) sim_env \<Rightarrow> u64 \<Rightarrow> b256 \<Rightarrow> GetParentError + SealedHeader" where
  "get_parent_header se window parent_hash =
     (case se_latest_header se of
        Inl e \<Rightarrow> Inl (ParentProvider e)
      | Inr None \<Rightarrow> Inl MissingLatestBlock
      | Inr (Some latest) \<Rightarrow>
          if parent_hash = sh_hash latest then Inr latest
          else
            (case se_sealed_header_by_hash se parent_hash of
               Inl e \<Rightarrow> Inl (ParentProvider e)
             | Inr None \<Rightarrow> Inl MissingParentBlock
             | Inr (Some parent) \<Rightarrow>
                 if sat_sub (sh_number latest) (sh_number parent) > window then Inl BlockTooOld
                 else Inr parent))"

text \<open>The transactions that are not included are tried in order on one EVM.\<close>

fun inclusion_list_loop ::
    "('prov, 'reads, 'post, 'evm) sim_env \<Rightarrow> b256 list \<Rightarrow> 'evm \<Rightarrow> InclusionListTxWithMetadata list
      \<Rightarrow> (ValidationApiError + unit) \<times> 'evm" where
  "inclusion_list_loop se included evm [] = (Inr (), evm)"
| "inclusion_list_loop se included evm (req # rest) =
     (if il_hash req \<in> set included then inclusion_list_loop se included evm rest
      else
        (case se_recover_raw_transaction se (il_bytes req) of
           Inl _ \<Rightarrow> (Inl InclusionList, evm)
         | Inr tx \<Rightarrow>
             (case se_transact se evm tx of
                (True, evm') \<Rightarrow> (Inl InclusionList, evm')
              | (False, evm') \<Rightarrow> inclusion_list_loop se included evm' rest)))"

definition included_hashes :: "RecoveredBlock \<Rightarrow> InclusionListWithMetadata \<Rightarrow> b256 list" where
  "included_hashes b il =
     remdups (List.map_filter
       (\<lambda>tx. map_option il_hash (find (\<lambda>t. il_hash t = tx_hash tx) (il_txs il)))
       (blk_transactions (rb_block b)))"

definition validate_inclusion_list_constraint ::
    "('prov, 'reads, 'post, 'evm) sim_env \<Rightarrow> RecoveredBlock \<Rightarrow> 'post \<Rightarrow> 'reads
      \<Rightarrow> InclusionListWithMetadata option \<Rightarrow> (ValidationApiError + unit) \<times> 'reads" where
  "validate_inclusion_list_constraint se b post reads inclusion_list =
     (case inclusion_list of
        None \<Rightarrow> (Inr (), reads)
      | Some il \<Rightarrow>
          if il_txs il = [] then (Inr (), reads)
          else if length (included_hashes b il) = length (il_txs il) then (Inr (), reads)
          else
            (case se_evm_for_block se post (blk_header (rb_block b)) of
               Inl _ \<Rightarrow> (Inl InclusionList, reads)
             | Inr evm \<Rightarrow>
                 (case inclusion_list_loop se (included_hashes b il) evm (il_txs il) of
                    (r, evm') \<Rightarrow> (r, se_evm_reads se evm'))))"

definition execute_block ::
    "('prov, 'reads, 'post, 'evm) sim_env \<Rightarrow> address list \<Rightarrow> RecoveredBlock \<Rightarrow> bool
      \<Rightarrow> InclusionListWithMetadata option \<Rightarrow> 'reads
      \<Rightarrow> ValidationApiError + ('prov, 'reads) ExecutedBlock" where
  "execute_block se disallow b apply_blacklist inclusion_list reads =
     res_bind (map_err Provider (se_state_by_block_hash se (hd_parent_hash (blk_header (rb_block b)))))
       (\<lambda>provider.
          res_bind (map_err Execution (se_execute_one se provider reads b)) (\<lambda>x.
            res_bind
              (case xo_bal x of
                 None \<Rightarrow> Inr ()
               | Some (check, _) \<Rightarrow> map_err Consensus (check (hd_gas_limit (blk_header (rb_block b)))))
              (\<lambda>_.
                 (let accessed =
                    (if disallow \<noteq> [] \<and> apply_blacklist
                     then filter (\<lambda>a. a \<in> set disallow) (xo_accounts x) else [])
                  in if accessed \<noteq> [] then Inl (Blacklist (last accessed))
                     else
                       (case validate_inclusion_list_constraint se b (xo_post x) (xo_reads x)
                               inclusion_list of
                          (Inl e, _) \<Rightarrow> Inl e
                        | (Inr _, reads') \<Rightarrow>
                            Inr \<lparr>eb_output = \<lparr>bo_receipts = xo_receipts x, bo_state = xo_bundle x\<rparr>,
                                 eb_request_cache = reads', eb_state_provider = provider,
                                 eb_block_access_list_hash = map_option snd (xo_bal x)\<rparr>)))))"

section \<open>The proposer payment\<close>

definition recipient_balances :: "BundleState \<Rightarrow> address \<Rightarrow> u256 \<times> u256" where
  "recipient_balances st recipient =
     (case bundle_account st recipient of
        Some acc \<Rightarrow>
          ((case ba_original_info acc of None \<Rightarrow> 0 | Some i \<Rightarrow> ai_balance i),
           (case ba_info acc of None \<Rightarrow> 0 | Some i \<Rightarrow> ai_balance i))
      | None \<Rightarrow> (0, 0))"

definition amount_wei :: "withdrawal \<Rightarrow> u256" where
  "amount_wei w = ucast (wd_amount w) * 1000000000"

definition add_withdrawals :: "withdrawal list option \<Rightarrow> address \<Rightarrow> u256 \<Rightarrow> u256" where
  "add_withdrawals ws recipient before =
     (case ws of
        None \<Rightarrow> before
      | Some l \<Rightarrow> foldl (\<lambda>n w. if wd_address w = recipient then n + amount_wei w else n) before l)"

definition paid_in_state :: "RecoveredBlock \<Rightarrow> BlockExecutionOutput \<Rightarrow> BidTrace \<Rightarrow> bool" where
  "paid_in_state b out msg =
     (case recipient_balances (bo_state out) (bt_proposer_fee_recipient msg) of
        (before, after) \<Rightarrow>
          after \<ge> add_withdrawals (blk_withdrawals (rb_block b)) (bt_proposer_fee_recipient msg) before
                    + bt_value msg)"

definition last_opt :: "'a list \<Rightarrow> 'a option" where
  "last_opt xs = (if xs = [] then None else Some (last xs))"

definition nth_opt :: "'a list \<Rightarrow> nat \<Rightarrow> 'a option" where
  "nth_opt xs n = (if n < length xs then Some (xs ! n) else None)"

definition paid_directly :: "TransactionSigned \<Rightarrow> address \<Rightarrow> bool" where
  "paid_directly tx recipient \<longleftrightarrow> tx_to tx = Some recipient \<and> tx_input tx = []"

definition paid_via_forwarder ::
    "('prov, 'reads, 'post, 'evm) sim_env \<Rightarrow> TransactionSigned \<Rightarrow> address \<Rightarrow> bool" where
  "paid_via_forwarder se tx recipient \<longleftrightarrow>
     tx_to tx = Some PAYMENT_FORWARDER
   \<and> payment_forwarder_recipient (tx_input tx) = Some recipient
   \<and> se_forwarder_account se = Inr (Some (Some PAYMENT_FORWARDER_CODE_HASH))"

definition pays_tip ::
    "('prov, 'reads, 'post, 'evm) sim_env \<Rightarrow> RecoveredBlock \<Rightarrow> TransactionSigned \<Rightarrow> bool" where
  "pays_tip se b tx =
     (case hd_base_fee_per_gas (blk_header (rb_block b)) of
        None \<Rightarrow> False
      | Some base_fee \<Rightarrow>
          (case se_effective_tip_per_gas se tx base_fee of None \<Rightarrow> False | Some t \<Rightarrow> t \<noteq> 0))"

definition ensure_payment ::
    "('prov, 'reads, 'post, 'evm) sim_env \<Rightarrow> RecoveredBlock \<Rightarrow> BlockExecutionOutput \<Rightarrow> BidTrace
      \<Rightarrow> ValidationApiError + unit" where
  "ensure_payment se b out msg =
     (if paid_in_state b out msg then Inr ()
      else
        (case (last_opt (bo_receipts out), last_opt (blk_transactions (rb_block b))) of
           (Some receipt, Some tx) \<Rightarrow>
             if \<not> rc_success receipt then Inl ProposerPayment
             else if tx_chain_id tx \<noteq> Some (se_chain_id se) then Inl ProposerPayment
             else if \<not> paid_directly tx (bt_proposer_fee_recipient msg)
                  \<and> \<not> paid_via_forwarder se tx (bt_proposer_fee_recipient msg) then Inl ProposerPayment
             else if tx_value tx \<noteq> bt_value msg then Inl ProposerPayment
             else if pays_tip se b tx then Inl ProposerPayment
             else Inr ()
         | _ \<Rightarrow> Inl ProposerPayment))"

definition recognized_payment_at ::
    "('prov, 'reads, 'post, 'evm) sim_env \<Rightarrow> RecoveredBlock \<Rightarrow> BlockExecutionOutput \<Rightarrow> address \<Rightarrow> nat
      \<Rightarrow> u256" where
  "recognized_payment_at se b out recipient ix =
     (case (nth_opt (bo_receipts out) ix, nth_opt (blk_transactions (rb_block b)) ix) of
        (Some receipt, Some tx) \<Rightarrow>
          if \<not> rc_success receipt then 0
          else
            (let contributed =
               (if paid_directly tx recipient \<or> paid_via_forwarder se tx recipient then tx_value tx
                else multisend_paid_amount (se_abi se) (tx_input tx) recipient)
             in if contributed = 0 then 0
                else if tx_chain_id tx \<noteq> Some (se_chain_id se) then 0
                else if pays_tip se b tx then 0
                else contributed)
      | _ \<Rightarrow> 0)"

definition ensure_merged_payment ::
    "('prov, 'reads, 'post, 'evm) sim_env \<Rightarrow> RecoveredBlock \<Rightarrow> BlockExecutionOutput \<Rightarrow> BidTrace \<Rightarrow> nat
      \<Rightarrow> ValidationApiError + unit" where
  "ensure_merged_payment se b out msg base_payment_tx_index =
     (if paid_in_state b out msg then Inr ()
      else if blk_transactions (rb_block b) = [] then Inl ProposerPayment
      else
        (let last_ix = length (blk_transactions (rb_block b)) - 1;
             recipient = bt_proposer_fee_recipient msg;
             tot = recognized_payment_at se b out recipient last_ix;
             tot' = (if base_payment_tx_index \<noteq> last_ix
                     then tot + recognized_payment_at se b out recipient base_payment_tx_index
                     else tot)
         in if tot' \<ge> bt_value msg then Inr () else Inl ProposerPayment))"

section \<open>A submission\<close>

definition validate_message_against_block ::
    "('prov, 'reads, 'post, 'evm) sim_env \<Rightarrow> RecoveredBlock \<Rightarrow> BidTrace \<Rightarrow> bool
      \<Rightarrow> InclusionListWithMetadata option \<Rightarrow> nat option \<Rightarrow> 'reads validation_api
      \<Rightarrow> (ValidationApiError + unit) \<times> 'reads validation_api" where
  "validate_message_against_block se b msg apply_blacklist inclusion_list base_payment_tx_index va =
     (let h = blk_header (rb_block b) in
      case res_bind (validate_message_against_header b msg) (\<lambda>_.
           res_bind (map_err Consensus (se_validate_header se b)) (\<lambda>_.
           res_bind (map_err Consensus (se_validate_block_pre_execution se b)) (\<lambda>_.
           res_bind (blacklisted_block (va_disallow va) apply_blacklist b msg) (\<lambda>_.
           res_bind (map_err GetParent (get_parent_header se (va_validation_window va) (hd_parent_hash h))) (\<lambda>parent.
           res_bind (map_err Consensus (se_validate_header_against_parent se b parent)) (\<lambda>_.
           res_bind (execute_block se (va_disallow va) b apply_blacklist inclusion_list
                       (cached_reads se va (sh_hash parent))) (\<lambda>executed.
           Inr (sh_hash parent, executed)))))))) of
        Inl e \<Rightarrow> (Inl e, va)
      | Inr (parent_hash, executed) \<Rightarrow>
          (let va' = update_cached_reads se parent_hash (eb_request_cache executed) va;
               out = eb_output executed
           in (res_bind (map_err Consensus
                  (se_validate_block_post_execution se b out (eb_block_access_list_hash executed))) (\<lambda>_.
               res_bind (case base_payment_tx_index of
                           Some ix \<Rightarrow> ensure_merged_payment se b out msg ix
                         | None \<Rightarrow> ensure_payment se b out msg) (\<lambda>_.
               res_bind (map_err Provider
                  (se_hashed_state_root se (eb_state_provider executed) (bo_state out))) (\<lambda>root.
               if root \<noteq> hd_state_root h
               then Inl (Consensus (BodyStateRootDiff root (hd_state_root h)))
               else Inr ()))), va')))"

section \<open>The endpoints\<close>

record BlobsBundle =
  bb_commitments :: "bytes list"
  bb_proofs :: "bytes list"
  bb_blobs :: "bytes list"

text \<open>
  Decoding of the payloads of the three request versions, sidecar validation and the block
  size rule.
\<close>

record 'payload payload_env =
  pl_kzg_to_versioned_hash :: "bytes \<Rightarrow> b256"
  pl_sidecar_validate :: "BlobsBundle \<Rightarrow> b256 list \<Rightarrow> string + unit"
  pl_try_into_sidecar :: "BlobsBundle \<Rightarrow> bytes option"
  pl_sidecar_v2_validate :: "bytes \<Rightarrow> b256 list \<Rightarrow> string + unit"
  pl_ensure_well_formed_payload ::
    "'payload \<Rightarrow> b256 \<Rightarrow> b256 list \<Rightarrow> requests \<Rightarrow> NewPayloadError + RecoveredBlock"
  pl_is_osaka_active_at_timestamp :: "u64 \<Rightarrow> bool"
  pl_rlp_length :: "RecoveredBlock \<Rightarrow> nat"
  pl_max_rlp_block_size :: nat

definition validate_blobs_bundle ::
    "'payload payload_env \<Rightarrow> BlobsBundle \<Rightarrow> ValidationApiError + b256 list" where
  "validate_blobs_bundle pl bb =
     (if length (bb_commitments bb) \<noteq> length (bb_proofs bb)
       \<or> length (bb_commitments bb) \<noteq> length (bb_blobs bb)
      then Inl InvalidBlobsBundle
      else
        (let hashes = map (pl_kzg_to_versioned_hash pl) (bb_commitments bb) in
         res_bind (map_err Blob (pl_sidecar_validate pl bb hashes)) (\<lambda>_. Inr hashes)))"

definition validate_blobs_bundle_v2 ::
    "'payload payload_env \<Rightarrow> BlobsBundle \<Rightarrow> ValidationApiError + b256 list" where
  "validate_blobs_bundle_v2 pl bb =
     (let hashes = map (pl_kzg_to_versioned_hash pl) (bb_commitments bb) in
      res_bind (ok_or (pl_try_into_sidecar pl bb) InvalidBlobsBundle) (\<lambda>sidecar.
        res_bind (map_err Blob (pl_sidecar_v2_validate pl sidecar hashes)) (\<lambda>_. Inr hashes)))"

definition payload_into_block ::
    "'payload payload_env \<Rightarrow> 'payload \<Rightarrow> b256 \<Rightarrow> BlobsBundle \<Rightarrow> requests
      \<Rightarrow> ValidationApiError + RecoveredBlock" where
  "payload_into_block pl payload beacon_root bb reqs =
     res_bind (validate_blobs_bundle_v2 pl bb) (\<lambda>hashes.
       res_bind (map_err Payload (pl_ensure_well_formed_payload pl payload beacon_root hashes reqs)) (\<lambda>b.
         if pl_is_osaka_active_at_timestamp pl (hd_timestamp (blk_header (rb_block b)))
            \<and> pl_rlp_length pl b > pl_max_rlp_block_size pl
         then Inl (Consensus (BlockTooLarge (pl_rlp_length pl b) (pl_max_rlp_block_size pl)))
         else Inr b))"

record 'payload ExtendedValidationRequest =
  rq_payload :: 'payload
  rq_parent_beacon_block_root :: b256
  rq_blobs_bundle :: BlobsBundle
  rq_execution_requests :: requests
  rq_message :: BidTrace
  rq_inclusion_list :: "InclusionListWithMetadata option"
  rq_apply_blacklist :: bool

definition validate_builder_submission_v4_inner ::
    "('prov, 'reads, 'post, 'evm) sim_env \<Rightarrow> 'payload payload_env \<Rightarrow> 'payload ExtendedValidationRequest
      \<Rightarrow> 'reads validation_api \<Rightarrow> (ValidationApiError + unit) \<times> 'reads validation_api" where
  "validate_builder_submission_v4_inner se pl rq va =
     (case res_bind (validate_blobs_bundle pl (rq_blobs_bundle rq)) (\<lambda>hashes.
             map_err Payload (pl_ensure_well_formed_payload pl (rq_payload rq)
               (rq_parent_beacon_block_root rq) hashes (rq_execution_requests rq))) of
        Inl e \<Rightarrow> (Inl e, va)
      | Inr b \<Rightarrow>
          validate_message_against_block se b (rq_message rq) (rq_apply_blacklist rq)
            (rq_inclusion_list rq) None va)"

text \<open>Versions 5 and 6 differ in the payload type only.\<close>

definition validate_builder_submission_v5_inner ::
    "('prov, 'reads, 'post, 'evm) sim_env \<Rightarrow> 'payload payload_env \<Rightarrow> 'payload ExtendedValidationRequest
      \<Rightarrow> nat option \<Rightarrow> 'reads validation_api \<Rightarrow> (ValidationApiError + unit) \<times> 'reads validation_api" where
  "validate_builder_submission_v5_inner se pl rq base_payment_tx_index va =
     (case payload_into_block pl (rq_payload rq) (rq_parent_beacon_block_root rq)
             (rq_blobs_bundle rq) (rq_execution_requests rq) of
        Inl e \<Rightarrow> (Inl e, va)
      | Inr b \<Rightarrow>
          validate_message_against_block se b (rq_message rq) (rq_apply_blacklist rq)
            (rq_inclusion_list rq) base_payment_tx_index va)"

definition validate_builder_submission_v6_inner ::
    "('prov, 'reads, 'post, 'evm) sim_env \<Rightarrow> 'payload payload_env \<Rightarrow> 'payload ExtendedValidationRequest
      \<Rightarrow> nat option \<Rightarrow> 'reads validation_api \<Rightarrow> (ValidationApiError + unit) \<times> 'reads validation_api" where
  "validate_builder_submission_v6_inner se pl rq base_payment_tx_index va =
     (case payload_into_block pl (rq_payload rq) (rq_parent_beacon_block_root rq)
             (rq_blobs_bundle rq) (rq_execution_requests rq) of
        Inl e \<Rightarrow> (Inl e, va)
      | Inr b \<Rightarrow>
          validate_message_against_block se b (rq_message rq) (rq_apply_blacklist rq)
            (rq_inclusion_list rq) base_payment_tx_index va)"

text \<open>\<open>spawn_validation\<close>: the validation's error as an RPC error.\<close>

definition spawn_validation ::
    "(ValidationApiError + unit) \<times> 'reads validation_api
      \<Rightarrow> (rpc_error_kind + unit) \<times> 'reads validation_api" where
  "spawn_validation r = (map_err error_object (fst r), snd r)"

datatype ('p4, 'p5, 'p6) submission =
    SubmissionV1
  | SubmissionV2
  | SubmissionV3
  | SubmissionV4 "'p4 ExtendedValidationRequest"
  | SubmissionV5 "'p5 ExtendedValidationRequest"
  | MergedSubmissionV5 "'p5 ExtendedValidationRequest" u64
  | SubmissionV6 "'p6 ExtendedValidationRequest"
  | MergedSubmissionV6 "'p6 ExtendedValidationRequest" u64

definition validate_builder_submission ::
    "('prov, 'reads, 'post, 'evm) sim_env \<Rightarrow> 'p4 payload_env \<Rightarrow> 'p5 payload_env \<Rightarrow> 'p6 payload_env
      \<Rightarrow> ('p4, 'p5, 'p6) submission \<Rightarrow> 'reads validation_api
      \<Rightarrow> (rpc_error_kind + unit) \<times> 'reads validation_api" where
  "validate_builder_submission se pl4 pl5 pl6 sub va = (case sub of
     SubmissionV1 \<Rightarrow> (Inl InternalError, va)
   | SubmissionV2 \<Rightarrow> (Inl InternalError, va)
   | SubmissionV3 \<Rightarrow> (Inl InternalError, va)
   | SubmissionV4 rq \<Rightarrow> spawn_validation (validate_builder_submission_v4_inner se pl4 rq va)
   | SubmissionV5 rq \<Rightarrow> spawn_validation (validate_builder_submission_v5_inner se pl5 rq None va)
   | MergedSubmissionV5 rq ix \<Rightarrow>
       spawn_validation (validate_builder_submission_v5_inner se pl5 rq (Some (unat ix)) va)
   | SubmissionV6 rq \<Rightarrow> spawn_validation (validate_builder_submission_v6_inner se pl6 rq None va)
   | MergedSubmissionV6 rq ix \<Rightarrow>
       spawn_validation (validate_builder_submission_v6_inner se pl6 rq (Some (unat ix)) va))"

section \<open>What an accepted submission satisfies\<close>

definition header_agrees :: "RecoveredBlock \<Rightarrow> BidTrace \<Rightarrow> bool" where
  "header_agrees b msg \<longleftrightarrow>
     rb_hash b = bt_block_hash msg
   \<and> hd_parent_hash (blk_header (rb_block b)) = bt_parent_hash msg
   \<and> hd_gas_limit (blk_header (rb_block b)) = bt_gas_limit msg
   \<and> hd_gas_used (blk_header (rb_block b)) = bt_gas_used msg"

lemma validate_message_against_header_iff:
  "validate_message_against_header b msg = Inr () \<longleftrightarrow> header_agrees b msg"
  by (auto simp: validate_message_against_header_def header_agrees_def Let_def)

text \<open>No address of the disallow list occurs in the block or in what its execution read.\<close>

definition avoids :: "address list \<Rightarrow> RecoveredBlock \<Rightarrow> BidTrace \<Rightarrow> address list \<Rightarrow> bool" where
  "avoids disallow b msg accessed \<longleftrightarrow>
     hd_beneficiary (blk_header (rb_block b)) \<notin> set disallow
   \<and> bt_proposer_fee_recipient msg \<notin> set disallow
   \<and> (\<forall>(sender, tx) \<in> set (zip (rb_senders b) (blk_transactions (rb_block b))).
        sender \<notin> set disallow \<and> (\<forall>to. tx_to tx = Some to \<longrightarrow> to \<notin> set disallow))
   \<and> (\<forall>a \<in> set accessed. a \<notin> set disallow)"

lemma blacklisted_transactions_iff:
  "blacklisted_transactions disallow ps = Inr () \<longleftrightarrow>
     (\<forall>(sender, tx) \<in> set ps. sender \<notin> set disallow \<and> (\<forall>to. tx_to tx = Some to \<longrightarrow> to \<notin> set disallow))"
  by (induction disallow ps rule: blacklisted_transactions.induct) (auto split: option.split)

text \<open>The parent is the latest header or a known one at most the window behind it.\<close>

definition parent_in_window ::
    "('prov, 'reads, 'post, 'evm) sim_env \<Rightarrow> u64 \<Rightarrow> b256 \<Rightarrow> SealedHeader \<Rightarrow> bool" where
  "parent_in_window se window ph parent \<longleftrightarrow>
     (\<exists>latest. se_latest_header se = Inr (Some latest)
       \<and> (if ph = sh_hash latest then parent = latest
          else se_sealed_header_by_hash se ph = Inr (Some parent)
             \<and> unat (sh_number latest) \<le> unat (sh_number parent) + unat window))"

lemma get_parent_header_Inr:
  "get_parent_header se window ph = Inr parent \<longleftrightarrow> parent_in_window se window ph parent"
  by (auto simp: get_parent_header_def parent_in_window_def sat_sub_le_iff not_less [symmetric] less_sat_sub_iff
      split: sum.splits option.splits if_splits)

lemma execute_block_Inr:
  "execute_block se disallow b app il reads = Inr eb \<longleftrightarrow>
     (\<exists>provider x reads'.
        se_state_by_block_hash se (hd_parent_hash (blk_header (rb_block b))) = Inr provider
      \<and> se_execute_one se provider reads b = Inr x
      \<and> (\<forall>check bal. xo_bal x = Some (check, bal) \<longrightarrow> check (hd_gas_limit (blk_header (rb_block b))) = Inr ())
      \<and> (app \<longrightarrow> (\<forall>a \<in> set (xo_accounts x). a \<notin> set disallow))
      \<and> validate_inclusion_list_constraint se b (xo_post x) (xo_reads x) il = (Inr (), reads')
      \<and> eb = \<lparr>eb_output = \<lparr>bo_receipts = xo_receipts x, bo_state = xo_bundle x\<rparr>,
              eb_request_cache = reads', eb_state_provider = provider,
              eb_block_access_list_hash = map_option snd (xo_bal x)\<rparr>)"
proof -
  have acc: "(if disallow \<noteq> [] \<and> app then filter (\<lambda>a. a \<in> set disallow) (xo_accounts x) else []) = []
      \<longleftrightarrow> (app \<longrightarrow> (\<forall>a \<in> set (xo_accounts x). a \<notin> set disallow))" for x :: "('b, 'c) execution"
    by (auto simp: filter_empty_conv)
  have bal: "(case xo_bal x of None \<Rightarrow> Inr ()
      | Some (check, _) \<Rightarrow> map_err Consensus (check (hd_gas_limit (blk_header (rb_block b))))) = Inr u
      \<longleftrightarrow> (\<forall>check bal. xo_bal x = Some (check, bal) \<longrightarrow> check (hd_gas_limit (blk_header (rb_block b))) = Inr ())"
    for x :: "('b, 'c) execution" and u
    by (auto split: option.splits)
  have inner: "(let accessed = (if disallow \<noteq> [] \<and> app
          then filter (\<lambda>a. a \<in> set disallow) (xo_accounts x) else [])
        in if accessed \<noteq> [] then Inl (Blacklist (last accessed))
           else (case validate_inclusion_list_constraint se b (xo_post x) (xo_reads x) il of
                   (Inl e, _) \<Rightarrow> Inl e | (Inr _, reads') \<Rightarrow> Inr (f reads'))) = Inr eb
      \<longleftrightarrow> (app \<longrightarrow> (\<forall>a \<in> set (xo_accounts x). a \<notin> set disallow))
        \<and> (\<exists>reads'. validate_inclusion_list_constraint se b (xo_post x) (xo_reads x) il = (Inr (), reads')
             \<and> eb = f reads')" for x f
    unfolding acc [symmetric] Let_def
    by (cases "validate_inclusion_list_constraint se b (xo_post x) (xo_reads x) il")
      (auto simp: filter_empty_conv split: sum.splits)
  show ?thesis
    unfolding execute_block_def res_bind_eq_Inr bal inner map_err_eq_Inr by blast
qed

lemma blacklisted_block_iff:
  "blacklisted_block disallow app b msg = Inr () \<and> (app \<longrightarrow> (\<forall>a \<in> set accessed. a \<notin> set disallow))
     \<longleftrightarrow> (app \<longrightarrow> avoids disallow b msg accessed)"
  by (auto simp: blacklisted_block_def avoids_def blacklisted_transactions_iff)

text \<open>Acceptance as the sequence of checks, with the execution still whole.\<close>

lemma validate_message_against_block_Inr:
  "validate_message_against_block se b msg app il base_ix va = (Inr (), va') \<longleftrightarrow>
     (\<exists>parent eb. header_agrees b msg
      \<and> se_validate_header se b = Inr () \<and> se_validate_block_pre_execution se b = Inr ()
      \<and> blacklisted_block (va_disallow va) app b msg = Inr ()
      \<and> parent_in_window se (va_validation_window va) (hd_parent_hash (blk_header (rb_block b))) parent
      \<and> se_validate_header_against_parent se b parent = Inr ()
      \<and> execute_block se (va_disallow va) b app il (cached_reads se va (sh_hash parent)) = Inr eb
      \<and> se_validate_block_post_execution se b (eb_output eb) (eb_block_access_list_hash eb) = Inr ()
      \<and> (case base_ix of Some ix \<Rightarrow> ensure_merged_payment se b (eb_output eb) msg ix
         | None \<Rightarrow> ensure_payment se b (eb_output eb) msg) = Inr ()
      \<and> se_hashed_state_root se (eb_state_provider eb) (bo_state (eb_output eb))
          = Inr (hd_state_root (blk_header (rb_block b)))
      \<and> va' = update_cached_reads se (sh_hash parent) (eb_request_cache eb) va)"
proof -
  let ?chain = "res_bind (validate_message_against_header b msg) (\<lambda>_.
     res_bind (map_err Consensus (se_validate_header se b)) (\<lambda>_.
     res_bind (map_err Consensus (se_validate_block_pre_execution se b)) (\<lambda>_.
     res_bind (blacklisted_block (va_disallow va) app b msg) (\<lambda>_.
     res_bind (map_err GetParent (get_parent_header se (va_validation_window va)
         (hd_parent_hash (blk_header (rb_block b))))) (\<lambda>parent.
     res_bind (map_err Consensus (se_validate_header_against_parent se b parent)) (\<lambda>_.
     res_bind (execute_block se (va_disallow va) b app il (cached_reads se va (sh_hash parent)))
       (\<lambda>eb. Inr (sh_hash parent, eb))))))))"
  define chain where "chain = ?chain"
  have c: "chain = Inr (ph, eb) \<longleftrightarrow> (\<exists>parent. header_agrees b msg
      \<and> se_validate_header se b = Inr () \<and> se_validate_block_pre_execution se b = Inr ()
      \<and> blacklisted_block (va_disallow va) app b msg = Inr ()
      \<and> parent_in_window se (va_validation_window va) (hd_parent_hash (blk_header (rb_block b))) parent
      \<and> se_validate_header_against_parent se b parent = Inr ()
      \<and> execute_block se (va_disallow va) b app il (cached_reads se va (sh_hash parent)) = Inr eb
      \<and> ph = sh_hash parent)" for ph eb
    unfolding chain_def by (auto simp: res_bind_eq_Inr validate_message_against_header_iff get_parent_header_Inr)
  have "validate_message_against_block se b msg app il base_ix va = (Inr (), va') \<longleftrightarrow>
      (\<exists>ph eb. chain = Inr (ph, eb)
      \<and> se_validate_block_post_execution se b (eb_output eb) (eb_block_access_list_hash eb) = Inr ()
      \<and> (case base_ix of Some ix \<Rightarrow> ensure_merged_payment se b (eb_output eb) msg ix
         | None \<Rightarrow> ensure_payment se b (eb_output eb) msg) = Inr ()
      \<and> se_hashed_state_root se (eb_state_provider eb) (bo_state (eb_output eb))
          = Inr (hd_state_root (blk_header (rb_block b)))
      \<and> va' = update_cached_reads se ph (eb_request_cache eb) va)"
    unfolding validate_message_against_block_def Let_def chain_def [symmetric]
    by (cases chain) (auto simp: res_bind_eq_Inr split: if_splits)
  then show ?thesis unfolding c by blast
qed

text \<open>
  C30. A submission is accepted exactly when its header agrees with the bid, every consensus
  check of the header, the body and the parent passes, the parent is the latest block or
  within the validation window, the state of the parent is there and the block executes on
  it, the rebuilt access list, when there is one, fits the gas limit, no disallowed address
  occurs in the block or its execution when the blacklist applies, the inclusion list holds,
  the consensus check of the execution's output passes, the proposer is paid and the state
  root, computed on that state, is the header's. Then the reads of the execution are cached
  under the parent.
\<close>

theorem accepted_submission:
  "validate_message_against_block se b msg app il base_ix va = (Inr (), va') \<longleftrightarrow>
     header_agrees b msg
   \<and> se_validate_header se b = Inr () \<and> se_validate_block_pre_execution se b = Inr ()
   \<and> (\<exists>parent provider x reads'.
        parent_in_window se (va_validation_window va) (hd_parent_hash (blk_header (rb_block b))) parent
      \<and> se_validate_header_against_parent se b parent = Inr ()
      \<and> se_state_by_block_hash se (hd_parent_hash (blk_header (rb_block b))) = Inr provider
      \<and> se_execute_one se provider (cached_reads se va (sh_hash parent)) b = Inr x
      \<and> (\<forall>check bal. xo_bal x = Some (check, bal) \<longrightarrow>
           check (hd_gas_limit (blk_header (rb_block b))) = Inr ())
      \<and> (app \<longrightarrow> avoids (va_disallow va) b msg (xo_accounts x))
      \<and> validate_inclusion_list_constraint se b (xo_post x) (xo_reads x) il = (Inr (), reads')
      \<and> se_validate_block_post_execution se b \<lparr>bo_receipts = xo_receipts x, bo_state = xo_bundle x\<rparr>
          (map_option snd (xo_bal x)) = Inr ()
      \<and> (case base_ix of
           Some ix \<Rightarrow> ensure_merged_payment se b \<lparr>bo_receipts = xo_receipts x, bo_state = xo_bundle x\<rparr> msg ix
         | None \<Rightarrow> ensure_payment se b \<lparr>bo_receipts = xo_receipts x, bo_state = xo_bundle x\<rparr> msg) = Inr ()
      \<and> se_hashed_state_root se provider (xo_bundle x) = Inr (hd_state_root (blk_header (rb_block b)))
      \<and> va' = update_cached_reads se (sh_hash parent) reads' va)"
  unfolding validate_message_against_block_Inr execute_block_Inr blacklisted_block_iff [symmetric]
  by (rule iffI; elim exE conjE; intro exI conjI; (assumption | rule refl)?)
    (simp_all cong: option.case_cong)

section \<open>Payments\<close>

definition withdrawn :: "withdrawal list option \<Rightarrow> address \<Rightarrow> nat" where
  "withdrawn ws recipient =
     (case ws of None \<Rightarrow> 0
      | Some l \<Rightarrow> (\<Sum>w \<leftarrow> l. if wd_address w = recipient then unat (wd_amount w) * 1000000000 else 0))"

lemma unat_amount_wei: "unat (amount_wei w) = unat (wd_amount w) * 1000000000"
proof -
  have "unat (wd_amount w) < 2 ^ 64" using unsigned_less [of "wd_amount w"] by simp
  then have "unat (wd_amount w) * 1000000000 < 2 ^ 256" by simp
  then show ?thesis
    by (simp add: amount_wei_def unat_word_ariths unsigned_ucast_eq take_bit_nat_eq_self)
qed

lemma add_withdrawals_exact:
  assumes "unat before + withdrawn ws recipient < 2 ^ 256"
  shows "unat (add_withdrawals ws recipient before) = unat before + withdrawn ws recipient"
proof (cases ws)
  case (Some l)
  have "unat before + (\<Sum>w \<leftarrow> l. if wd_address w = recipient then unat (wd_amount w) * 1000000000 else 0) < 2 ^ 256
    \<Longrightarrow> unat (foldl (\<lambda>n w. if wd_address w = recipient then n + amount_wei w else n) before l) =
      unat before + (\<Sum>w \<leftarrow> l. if wd_address w = recipient then unat (wd_amount w) * 1000000000 else 0)"
  proof (induction l arbitrary: before)
    case (Cons w l)
    show ?case
    proof (cases "wd_address w = recipient")
      case True
      then have "unat (before + amount_wei w) = unat before + unat (amount_wei w)"
        using Cons.prems by (intro unat_add_small) (simp add: unat_amount_wei)
      with True Cons show ?thesis by (simp add: unat_amount_wei)
    qed (use Cons in simp)
  qed simp
  with assms Some show ?thesis by (simp add: add_withdrawals_def withdrawn_def)
qed (simp add: add_withdrawals_def withdrawn_def)

text \<open>The bid is within what the proposer's balance can hold.\<close>

definition bid_fits :: "RecoveredBlock \<Rightarrow> BlockExecutionOutput \<Rightarrow> BidTrace \<Rightarrow> bool" where
  "bid_fits b out msg \<longleftrightarrow>
     unat (fst (recipient_balances (bo_state out) (bt_proposer_fee_recipient msg)))
       + withdrawn (blk_withdrawals (rb_block b)) (bt_proposer_fee_recipient msg) + unat (bt_value msg)
       < 2 ^ 256"

text \<open>The proposer's balance grew by the bid beyond its withdrawals.\<close>

definition balance_grew :: "RecoveredBlock \<Rightarrow> BlockExecutionOutput \<Rightarrow> BidTrace \<Rightarrow> bool" where
  "balance_grew b out msg \<longleftrightarrow>
     unat (fst (recipient_balances (bo_state out) (bt_proposer_fee_recipient msg)))
       + withdrawn (blk_withdrawals (rb_block b)) (bt_proposer_fee_recipient msg) + unat (bt_value msg)
     \<le> unat (snd (recipient_balances (bo_state out) (bt_proposer_fee_recipient msg)))"

lemma paid_in_state_iff: "bid_fits b out msg \<Longrightarrow> paid_in_state b out msg \<longleftrightarrow> balance_grew b out msg"
proof -
  assume fits: "bid_fits b out msg"
  obtain before after where ba:
    "recipient_balances (bo_state out) (bt_proposer_fee_recipient msg) = (before, after)" by fastforce
  let ?w = "withdrawn (blk_withdrawals (rb_block b)) (bt_proposer_fee_recipient msg)"
  let ?b = "add_withdrawals (blk_withdrawals (rb_block b)) (bt_proposer_fee_recipient msg) before"
  have "unat ?b = unat before + ?w"
    using fits by (intro add_withdrawals_exact) (simp add: bid_fits_def ba)
  then have "unat (?b + bt_value msg) = unat before + ?w + unat (bt_value msg)"
    using fits by (subst unat_add_small) (simp_all add: bid_fits_def ba)
  then show ?thesis
    by (simp add: paid_in_state_def balance_grew_def ba word_le_nat_alt)
qed

text \<open>The last transaction succeeded and transfers exactly the bid, with no tip to the builder.\<close>

definition last_pays ::
    "('prov, 'reads, 'post, 'evm) sim_env \<Rightarrow> RecoveredBlock \<Rightarrow> BlockExecutionOutput \<Rightarrow> BidTrace \<Rightarrow> bool" where
  "last_pays se b out msg \<longleftrightarrow>
     (\<exists>receipt tx. last_opt (bo_receipts out) = Some receipt
       \<and> last_opt (blk_transactions (rb_block b)) = Some tx
       \<and> rc_success receipt \<and> tx_chain_id tx = Some (se_chain_id se)
       \<and> (paid_directly tx (bt_proposer_fee_recipient msg)
          \<or> paid_via_forwarder se tx (bt_proposer_fee_recipient msg))
       \<and> tx_value tx = bt_value msg \<and> \<not> pays_tip se b tx)"

text \<open>
  C31. For a bid that fits the proposer's balance, the payment check passes exactly when the
  proposer's balance grew by the bid beyond its withdrawals, or the last transaction
  succeeded and transfers exactly the bid to the proposer, directly or through the deployed
  forwarder, without a tip. A merged block passes exactly when the balance grew or the
  payments recognised at the last and at the base payment index, added up, reach the bid.
\<close>

theorem payment_exact:
  assumes "bid_fits b out msg"
  shows "(ensure_payment se b out msg = Inr () \<longleftrightarrow> balance_grew b out msg \<or> last_pays se b out msg)
    \<and> (ensure_merged_payment se b out msg ix = Inr () \<longleftrightarrow>
         balance_grew b out msg
       \<or> blk_transactions (rb_block b) \<noteq> []
          \<and> bt_value msg \<le>
             (let last_ix = length (blk_transactions (rb_block b)) - 1;
                  pay = recognized_payment_at se b out (bt_proposer_fee_recipient msg)
              in if ix = last_ix then pay last_ix else pay last_ix + pay ix))"
proof -
  have last: "(case (last_opt (bo_receipts out), last_opt (blk_transactions (rb_block b))) of
      (Some receipt, Some tx) \<Rightarrow>
        if \<not> rc_success receipt then Inl ProposerPayment
        else if tx_chain_id tx \<noteq> Some (se_chain_id se) then Inl ProposerPayment
        else if \<not> paid_directly tx (bt_proposer_fee_recipient msg)
             \<and> \<not> paid_via_forwarder se tx (bt_proposer_fee_recipient msg) then Inl ProposerPayment
        else if tx_value tx \<noteq> bt_value msg then Inl ProposerPayment
        else if pays_tip se b tx then Inl ProposerPayment
        else Inr ()
    | _ \<Rightarrow> Inl ProposerPayment) = Inr () \<longleftrightarrow> last_pays se b out msg"
    by (auto simp: last_pays_def split: option.splits if_splits)
  have "ensure_payment se b out msg = Inr () \<longleftrightarrow> balance_grew b out msg \<or> last_pays se b out msg"
    unfolding ensure_payment_def paid_in_state_iff [OF assms] using last by simp
  then show ?thesis
    by (auto simp: ensure_merged_payment_def paid_in_state_iff [OF assms] Let_def)
qed

text \<open>
  C32. Without that bound the check accepts an unpaid block: the sum of the proposer's balance
  and the bid wraps, so a bid of \<open>2 ^ 256\<close> minus a balance that the block leaves unchanged
  counts as paid.
\<close>

theorem unpaid_bid_accepted:
  assumes "recipient_balances (bo_state out) (bt_proposer_fee_recipient msg) = (held, held)"
    and "withdrawn (blk_withdrawals (rb_block b)) (bt_proposer_fee_recipient msg) = 0"
    and "bt_value msg = - held" and "held \<noteq> 0"
  shows "ensure_payment se b out msg = Inr () \<and> ensure_merged_payment se b out msg ix = Inr ()
    \<and> \<not> balance_grew b out msg"
proof -
  have fits: "unat held + withdrawn (blk_withdrawals (rb_block b)) (bt_proposer_fee_recipient msg) < 2 ^ 256"
    using assms(2) unsigned_less [of held] by simp
  have "add_withdrawals (blk_withdrawals (rb_block b)) (bt_proposer_fee_recipient msg) held = held"
    using add_withdrawals_exact [OF fits] assms(2) by (simp add: word_unat_eq_iff)
  then have "paid_in_state b out msg" using assms(1,3) by (simp add: paid_in_state_def)
  moreover have "unat (bt_value msg) \<noteq> 0" using assms(3,4) by (simp add: unat_eq_0)
  ultimately show ?thesis
    using assms(1) by (simp add: ensure_payment_def ensure_merged_payment_def balance_grew_def)
qed

section \<open>The inclusion list\<close>

text \<open>
  \<open>Evm::transact\<close> executes without committing, so an attempt does not change what a later
  attempt returns.
\<close>

definition transact_uncommitted :: "('prov, 'reads, 'post, 'evm) sim_env \<Rightarrow> bool" where
  "transact_uncommitted se \<longleftrightarrow>
     (\<forall>evm tx tx'. fst (se_transact se (snd (se_transact se evm tx)) tx') = fst (se_transact se evm tx'))"

text \<open>A listed transaction that is missing from the block must decode and fail on top of it.\<close>

definition may_miss ::
    "('prov, 'reads, 'post, 'evm) sim_env \<Rightarrow> 'evm \<Rightarrow> InclusionListTxWithMetadata \<Rightarrow> bool" where
  "may_miss se evm req \<longleftrightarrow>
     (\<exists>tx. se_recover_raw_transaction se (il_bytes req) = Inr tx \<and> \<not> fst (se_transact se evm tx))"

lemma may_miss_later:
  assumes "transact_uncommitted se"
  shows "may_miss se (snd (se_transact se evm tx)) req = may_miss se evm req"
  using assms by (simp add: may_miss_def transact_uncommitted_def)

lemma inclusion_list_loop_iff:
  assumes "transact_uncommitted se"
  shows "fst (inclusion_list_loop se included evm reqs) = Inr () \<longleftrightarrow>
    (\<forall>req \<in> set reqs. il_hash req \<in> set included \<or> may_miss se evm req)"
proof (induction reqs arbitrary: evm)
  case (Cons req reqs)
  show ?case
  proof (cases "il_hash req \<in> set included")
    case True
    then show ?thesis using Cons by simp
  next
    case False
    show ?thesis
    proof (cases "se_recover_raw_transaction se (il_bytes req)")
      case (Inr tx)
      obtain r evm' where t: "se_transact se evm tx = (r, evm')" by fastforce
      then have "may_miss se evm' = may_miss se evm"
        using may_miss_later [OF assms, of evm tx] by (auto simp: fun_eq_iff)
      moreover have "may_miss se evm req \<longleftrightarrow> \<not> r" using Inr t by (simp add: may_miss_def)
      ultimately show ?thesis using False Inr t Cons.IH by (cases r) simp_all
    qed (use False in \<open>simp add: may_miss_def\<close>)
  qed
qed simp

lemma find_hash:
  "map_option il_hash (find (\<lambda>t. il_hash t = k) reqs) = (if k \<in> il_hash ` set reqs then Some k else None)"
  by (induction reqs) auto

lemma set_included_hashes:
  "set (included_hashes b il) = il_hash ` set (il_txs il) \<inter> tx_hash ` set (blk_transactions (rb_block b))"
proof -
  have "set (List.map_filter (\<lambda>tx. if tx_hash tx \<in> H then Some (tx_hash tx) else None) txs) =
      H \<inter> tx_hash ` set txs" for H and txs :: "TransactionSigned list"
    by (induction txs) (auto simp: List.map_filter_simps)
  then show ?thesis by (simp add: included_hashes_def find_hash)
qed

lemma all_included:
  assumes "distinct (map il_hash (il_txs il))"
  shows "length (included_hashes b il) = length (il_txs il) \<longleftrightarrow>
    (\<forall>req \<in> set (il_txs il). il_hash req \<in> tx_hash ` set (blk_transactions (rb_block b)))"
proof -
  let ?H = "il_hash ` set (il_txs il)" and ?T = "tx_hash ` set (blk_transactions (rb_block b))"
  have "distinct (included_hashes b il)" by (simp add: included_hashes_def)
  then have "length (included_hashes b il) = card (?H \<inter> ?T)"
    by (simp add: set_included_hashes flip: distinct_card)
  moreover have "length (il_txs il) = card ?H"
    using assms by (metis distinct_card length_map list.set_map)
  ultimately have "length (included_hashes b il) = length (il_txs il) \<longleftrightarrow> ?H \<inter> ?T = ?H"
    by (metis List.finite_set card_subset_eq finite_imageI inf_le1)
  then show ?thesis by auto
qed

text \<open>
  C33. The inclusion list holds exactly when every listed transaction is in the block, or an EVM
  starts on the block's post-state and every listed transaction that is not in the block
  decodes and cannot be executed there; a list with a transaction that could be executed,
  even one that would revert, rejects the block.
\<close>

theorem inclusion_list_exact:
  assumes "transact_uncommitted se" and "distinct (map il_hash (il_txs il))"
  shows "fst (validate_inclusion_list_constraint se b post reads (Some il)) = Inr () \<longleftrightarrow>
      (\<forall>req \<in> set (il_txs il). il_hash req \<in> tx_hash ` set (blk_transactions (rb_block b)))
    \<or> (\<exists>evm. se_evm_for_block se post (blk_header (rb_block b)) = Inr evm
        \<and> (\<forall>req \<in> set (il_txs il).
             il_hash req \<in> tx_hash ` set (blk_transactions (rb_block b)) \<or> may_miss se evm req))"
proof (cases "\<forall>req \<in> set (il_txs il). il_hash req \<in> tx_hash ` set (blk_transactions (rb_block b))")
  case True
  then show ?thesis
    using all_included [OF assms(2), of b] by (simp add: validate_inclusion_list_constraint_def)
next
  case False
  then have ne: "il_txs il \<noteq> []" by auto
  have len: "length (included_hashes b il) \<noteq> length (il_txs il)"
    using False all_included [OF assms(2), of b] by simp
  show ?thesis
  proof (cases "se_evm_for_block se post (blk_header (rb_block b))")
    case (Inl e)
    then show ?thesis using False ne len by (simp add: validate_inclusion_list_constraint_def)
  next
    case (Inr evm)
    have "fst (validate_inclusion_list_constraint se b post reads (Some il)) =
        fst (inclusion_list_loop se (included_hashes b il) evm (il_txs il))"
      using ne len Inr
      by (cases "inclusion_list_loop se (included_hashes b il) evm (il_txs il)")
        (simp add: validate_inclusion_list_constraint_def)
    then show ?thesis
      using Inr False by (auto simp: inclusion_list_loop_iff [OF assms(1)] set_included_hashes)
  qed
qed

section \<open>A concrete submission\<close>

text \<open>
  A chain of one header, with hash 0, an execution on its state that credits account 9 with
  50 and an access list that fits a gas limit below 10, and a block of one transaction whose
  header agrees with a bid of 50 to account 9.
\<close>

definition example_bundle :: BundleState where
  "example_bundle = \<lparr>bs_state = [(9, \<lparr>ba_info = Some \<lparr>ai_balance = 150, ai_nonce = 0, ai_code_hash = 0\<rparr>,
      ba_original_info = Some \<lparr>ai_balance = 100, ai_nonce = 0, ai_code_hash = 0\<rparr>,
      ba_storage = Map.empty, ba_was_destroyed = False\<rparr>)], bs_contracts = Map.empty\<rparr>"

definition example_sim :: "(b256, unit, unit, unit) sim_env" where
  "example_sim = \<lparr>se_chain_id = 1,
     se_validate_header = (\<lambda>_. Inr ()), se_validate_block_pre_execution = (\<lambda>_. Inr ()),
     se_validate_header_against_parent = (\<lambda>_ _. Inr ()),
     se_validate_block_post_execution = (\<lambda>_ _ _. Inr ()),
     se_latest_header = Inr (Some \<lparr>sh_header = header_at 7, sh_hash = 0\<rparr>),
     se_sealed_header_by_hash = (\<lambda>_. Inr None),
     se_state_by_block_hash = Inr, se_hashed_state_root = (\<lambda>p _. Inr p),
     se_execute_one = (\<lambda>p _ _. if p \<noteq> 0 then Inl (ExecutionInternal [])
       else Inr \<lparr>xo_receipts = [], xo_bundle = example_bundle,
         xo_bal = Some (\<lambda>limit. if limit < 10 then Inr () else Inl (OtherConsensus []), 0),
         xo_accounts = [5, 9], xo_post = (), xo_reads = ()\<rparr>),
     se_evm_for_block = (\<lambda>_ _. Inr ()),
     se_recover_raw_transaction = (\<lambda>bs. Inr (default_tx (from_be bs))),
     se_transact = (\<lambda>_ tx. (tx_hash tx = 3, ())), se_evm_reads = (\<lambda>_. ()),
     se_reads_default = (), se_reads_extend = (\<lambda>_ _. ()),
     se_forwarder_account = Inr None, se_effective_tip_per_gas = (\<lambda>_ _. None),
     se_abi = \<lparr>abi_exec_transaction = (\<lambda>_. None), abi_multi_send = (\<lambda>_. None)\<rparr>\<rparr>"

definition example_submission :: RecoveredBlock where
  "example_submission = \<lparr>rb_block = \<lparr>blk_header = header_at 8, blk_transactions = [default_tx 1],
     blk_withdrawals = None\<rparr>, rb_hash = 4, rb_senders = [6]\<rparr>"

definition example_bid :: BidTrace where
  "example_bid = \<lparr>bt_parent_hash = 0, bt_block_hash = 4, bt_proposer_fee_recipient = 9,
     bt_gas_limit = 0, bt_gas_used = 0, bt_value = 50\<rparr>"

definition example_api :: "unit validation_api" where
  "example_api = \<lparr>va_disallow = [13], va_validation_window = 3, va_cached_state = (0, ())\<rparr>"

lemmas example_sim_defs = example_sim_def example_submission_def example_bid_def example_api_def
  example_bundle_def header_at_def default_header_def default_tx_def

theorem accepted_submission_witness:
  "(\<exists>va'. validate_message_against_block example_sim example_submission example_bid True None None
      example_api = (Inr (), va'))
   \<and> (\<forall>va'. validate_message_against_block
      (example_sim\<lparr>se_state_by_block_hash := (\<lambda>_. Inr (rb_hash example_submission))\<rparr>)
      example_submission example_bid True None None example_api \<noteq> (Inr (), va'))"
proof
  have "ensure_payment example_sim example_submission \<lparr>bo_receipts = [], bo_state = example_bundle\<rparr>
      example_bid = Inr ()"
    by (simp add: ensure_payment_def paid_in_state_def recipient_balances_def bundle_account_def
        add_withdrawals_def example_sim_defs)
  then show "\<exists>va'. validate_message_against_block example_sim example_submission example_bid True None None
      example_api = (Inr (), va')"
    unfolding accepted_submission
    by (simp add: header_agrees_def parent_in_window_def avoids_def
        validate_inclusion_list_constraint_def example_sim_defs)
  show "\<forall>va'. validate_message_against_block
      (example_sim\<lparr>se_state_by_block_hash := (\<lambda>_. Inr (rb_hash example_submission))\<rparr>)
      example_submission example_bid True None None example_api \<noteq> (Inr (), va')"
    unfolding accepted_submission by (simp add: example_sim_defs)
qed

definition example_output :: BlockExecutionOutput where
  "example_output = \<lparr>bo_receipts = [], bo_state = example_bundle\<rparr>"

theorem payment_exact_witness:
  "ensure_payment example_sim example_submission example_output example_bid = Inr ()
   \<and> bid_fits example_submission example_output example_bid"
proof -
  have fits: "bid_fits example_submission example_output example_bid"
    by (simp add: bid_fits_def recipient_balances_def bundle_account_def withdrawn_def
        example_output_def example_sim_defs)
  have "balance_grew example_submission example_output example_bid"
    by (simp add: balance_grew_def recipient_balances_def bundle_account_def withdrawn_def
        example_output_def example_sim_defs)
  with fits show ?thesis using payment_exact [OF fits, of example_sim 0] by blast
qed

definition example_unchanged :: BlockExecutionOutput where
  "example_unchanged = \<lparr>bo_receipts = [], bo_state = \<lparr>bs_state =
     [(9, \<lparr>ba_info = Some \<lparr>ai_balance = 100, ai_nonce = 1, ai_code_hash = 0\<rparr>,
       ba_original_info = Some \<lparr>ai_balance = 100, ai_nonce = 0, ai_code_hash = 0\<rparr>,
       ba_storage = Map.empty, ba_was_destroyed = False\<rparr>)], bs_contracts = Map.empty\<rparr>\<rparr>"

theorem unpaid_bid_accepted_witness:
  "ensure_payment example_sim example_submission example_unchanged (example_bid\<lparr>bt_value := - 100\<rparr>) = Inr ()
   \<and> \<not> balance_grew example_submission example_unchanged (example_bid\<lparr>bt_value := - 100\<rparr>)"
  using unpaid_bid_accepted [of example_unchanged "example_bid\<lparr>bt_value := - 100\<rparr>" 100 example_submission
      example_sim 0]
  by (simp add: example_unchanged_def recipient_balances_def bundle_account_def withdrawn_def
      example_submission_def example_bid_def)

theorem inclusion_list_exact_witness:
  "fst (validate_inclusion_list_constraint example_sim example_submission () ()
     (Some \<lparr>il_txs = [\<lparr>il_hash = 1, il_bytes = [1]\<rparr>, \<lparr>il_hash = 2, il_bytes = [2]\<rparr>]\<rparr>)) = Inr ()"
proof -
  let ?il = "\<lparr>il_txs = [\<lparr>il_hash = 1, il_bytes = [1]\<rparr>, \<lparr>il_hash = 2, il_bytes = [2]\<rparr>]\<rparr> :: InclusionListWithMetadata"
  have pure: "transact_uncommitted example_sim" by (simp add: transact_uncommitted_def example_sim_def)
  have dist: "distinct (map il_hash (il_txs ?il))" by simp
  have "may_miss example_sim () \<lparr>il_hash = 2, il_bytes = [2]\<rparr>"
    by (simp add: may_miss_def example_sim_def from_be_def be_nat_def)
  moreover have "tx_hash ` set (blk_transactions (rb_block example_submission)) = {1}"
    by (simp add: example_submission_def)
  moreover have "se_evm_for_block example_sim () h = Inr ()" for h by (simp add: example_sim_def)
  ultimately show ?thesis
    using inclusion_list_exact [OF pure dist, of example_submission "()" "()"] by simp
qed

end
