(* ===== verification/Blacklist.thy ===== *)
theory Blacklist
  imports SimValidation
begin

text \<open>
  The disallow list (\<open>blacklist.rs\<close>) and the task that refreshes it (\<open>ValidationApi::new\<close>).
  The list is a \<open>DashSet\<close>: a list without duplicates whose order the code never relies on.
  Address parsing and SHA-256 are parameters.
\<close>

section \<open>The list\<close>

datatype DisallowListPayload = Bare "string list" | Wrapped "string list"

definition strip_0x :: "string \<Rightarrow> string" where
  "strip_0x hex = (if take 2 hex = ''0x'' then drop 2 hex else hex)"

definition parse_disallow_list :: "(string \<Rightarrow> address option) \<Rightarrow> string list \<Rightarrow> address list" where
  "parse_disallow_list parse entries = List.map_filter (\<lambda>hex. parse (strip_0x hex)) entries"

definition into_addresses :: "(string \<Rightarrow> address option) \<Rightarrow> DisallowListPayload \<Rightarrow> address list" where
  "into_addresses parse payload =
     (case payload of
        Bare entries \<Rightarrow> parse_disallow_list parse entries
      | Wrapped entries \<Rightarrow> parse_disallow_list parse entries)"

definition hash_disallow_list :: "(bytes \<Rightarrow> string) \<Rightarrow> address list \<Rightarrow> string" where
  "hash_disallow_list sha256 disallow = sha256 (concat (map (to_be 20) (sort disallow)))"

definition changed_disallow_hash ::
    "(bytes \<Rightarrow> string) \<Rightarrow> address list \<Rightarrow> string option \<Rightarrow> string option" where
  "changed_disallow_hash sha256 disallow previous =
     (let hash = hash_disallow_list sha256 disallow in
      if previous \<noteq> Some hash then Some hash else None)"

section \<open>The refresh task\<close>

datatype fetch = FetchFailed string | HttpStatus string | BadPayload string | Fetched DisallowListPayload

text \<open>
  The task's variables and the gauges it sets. \<open>rf_hash_gauge\<close> is the labelled gauge of
  fingerprints, a failure is the message it logs.
\<close>

record refresher =
  rf_disallow :: "address list"
  rf_size :: nat
  rf_loaded :: bool
  rf_loaded_gauge :: nat
  rf_current_hash :: "string option"
  rf_hash_gauge :: "string \<rightharpoonup> nat"
  rf_failures :: "string list"

definition refresher_new :: refresher where
  "refresher_new = \<lparr>rf_disallow = [], rf_size = 0, rf_loaded = False, rf_loaded_gauge = 0,
     rf_current_hash = None, rf_hash_gauge = Map.empty, rf_failures = []\<rparr>"

text \<open>\<open>dash.clear()\<close>, then one insert per address: the lists a reader may see on the way.\<close>

fun insert_all :: "address list \<Rightarrow> address list \<Rightarrow> address list list" where
  "insert_all dash [] = [dash]"
| "insert_all dash (a # as) = dash # insert_all (List.insert a dash) as"

definition refresh_views :: "address list \<Rightarrow> address list \<Rightarrow> address list list" where
  "refresh_views dash addrs = dash # insert_all [] addrs"

definition publish_hash :: "string option \<Rightarrow> refresher \<Rightarrow> refresher" where
  "publish_hash changed rf =
     (case changed of
        None \<Rightarrow> rf
      | Some new_hash \<Rightarrow>
          (let gauge = (case rf_current_hash rf of
                          None \<Rightarrow> rf_hash_gauge rf
                        | Some prev \<Rightarrow> (rf_hash_gauge rf)(prev \<mapsto> 0))
           in rf\<lparr>rf_hash_gauge := gauge(new_hash \<mapsto> 1), rf_current_hash := Some new_hash\<rparr>))"

definition failure_message :: "bool \<Rightarrow> string \<Rightarrow> string" where
  "failure_message loaded reason =
     (if loaded then reason
      else reason @ ''; no disallow list is in force, this simulator applies no address filtering'')"

definition fail :: "string \<Rightarrow> refresher \<Rightarrow> refresher" where
  "fail reason rf = rf\<lparr>rf_failures := rf_failures rf @ [failure_message (rf_loaded rf) reason]\<rparr>"

definition refresh ::
    "(string \<Rightarrow> address option) \<Rightarrow> (bytes \<Rightarrow> string) \<Rightarrow> fetch \<Rightarrow> refresher \<Rightarrow> refresher" where
  "refresh parse sha256 answer rf =
     (case answer of
        Fetched payload \<Rightarrow>
          (let dash = last (refresh_views (rf_disallow rf) (into_addresses parse payload));
               rf1 = rf\<lparr>rf_disallow := dash, rf_size := length dash, rf_loaded := True, rf_loaded_gauge := 1\<rparr>
           in publish_hash (changed_disallow_hash sha256 dash (rf_current_hash rf1)) rf1)
      | BadPayload e \<Rightarrow> fail (''could not read the disallow list: '' @ e) rf
      | HttpStatus status \<Rightarrow> fail (''blacklist fetch failed: HTTP '' @ status) rf
      | FetchFailed e \<Rightarrow> fail (''blacklist fetch failed: '' @ e) rf)"

section \<open>What the task keeps\<close>

lemma last_insert_all: "last (insert_all dash as) = fold List.insert as dash"
  by (induction as arbitrary: dash) (auto simp: neq_Nil_conv elim: insert_all.elims)

lemma set_fold_insert: "set (fold List.insert as dash) = set as \<union> set dash"
  by (induction as arbitrary: dash) auto

lemma distinct_fold_insert: "distinct dash \<Longrightarrow> distinct (fold List.insert as dash)"
  by (induction as arbitrary: dash) auto

lemma last_refresh_views:
  "last (refresh_views dash addrs) = fold List.insert addrs []"
proof -
  have "insert_all [] addrs \<noteq> []" by (cases addrs) simp_all
  then show ?thesis by (simp add: refresh_views_def last_insert_all)
qed

text \<open>The fingerprint is a function of the set of addresses.\<close>

lemma hash_disallow_list_set:
  "distinct xs \<Longrightarrow> distinct ys \<Longrightarrow> set xs = set ys \<Longrightarrow>
     hash_disallow_list sha256 xs = hash_disallow_list sha256 ys"
  unfolding hash_disallow_list_def by (metis sorted_list_of_set_sort_remdups remdups_id_iff_distinct)

definition refresher_inv :: "(bytes \<Rightarrow> string) \<Rightarrow> refresher \<Rightarrow> bool" where
  "refresher_inv sha256 rf \<longleftrightarrow>
     distinct (rf_disallow rf) \<and> rf_size rf = length (rf_disallow rf)
   \<and> rf_loaded_gauge rf = (if rf_loaded rf then 1 else 0)
   \<and> rf_current_hash rf =
       (if rf_loaded rf then Some (hash_disallow_list sha256 (rf_disallow rf)) else None)
   \<and> (\<not> rf_loaded rf \<longrightarrow> rf_disallow rf = [])
   \<and> (\<forall>h. rf_hash_gauge rf h = Some 1 \<longleftrightarrow> rf_current_hash rf = Some h)"

lemma refresh_inv:
  assumes "refresher_inv sha256 rf"
  shows "refresher_inv sha256 (refresh parse sha256 answer rf)"
proof (cases answer)
  case (Fetched payload)
  let ?dash = "fold List.insert (into_addresses parse payload) []"
  have "distinct ?dash" by (simp add: distinct_fold_insert)
  then show ?thesis
    using assms Fetched
    by (auto simp: refresh_def last_refresh_views Let_def changed_disallow_hash_def publish_hash_def
        refresher_inv_def split: option.splits if_splits)
qed (use assms in \<open>simp_all add: refresh_def fail_def refresher_inv_def\<close>)

lemma refresher_new_inv: "refresher_inv sha256 refresher_new"
  by (simp add: refresher_inv_def refresher_new_def)

inductive refresh_step ::
    "(string \<Rightarrow> address option) \<Rightarrow> (bytes \<Rightarrow> string) \<Rightarrow> refresher \<Rightarrow> refresher \<Rightarrow> bool" for parse sha256 where
  "refresh_step parse sha256 rf (refresh parse sha256 answer rf)"

interpretation refreshing: transition_system "\<lambda>rf. rf = refresher_new" "refresh_step parse sha256"
  "refresher_inv sha256" for parse sha256
  by unfold_locales
    (auto simp: refresher_new_inv elim!: refresh_step.cases intro: refresh_inv)

text \<open>
  C35. In every run of the refresh task the published fingerprint is that of the list in force,
  and only its gauge is one; none is published before a list has loaded. A fetch that
  succeeds puts exactly the parsed addresses in force, whatever their order and duplicates;
  one that fails keeps the list.
\<close>

theorem refresh_exact:
  assumes "(refresh_step parse sha256)\<^sup>*\<^sup>* refresher_new rf"
  shows "rf_current_hash rf = (if rf_loaded rf then Some (hash_disallow_list sha256 (rf_disallow rf)) else None)
    \<and> (\<forall>h. rf_hash_gauge rf h = Some 1 \<longleftrightarrow> rf_current_hash rf = Some h)
    \<and> rf_size rf = card (set (rf_disallow rf))
    \<and> set (rf_disallow (refresh parse sha256 answer rf)) =
        (case answer of Fetched payload \<Rightarrow> set (into_addresses parse payload) | _ \<Rightarrow> set (rf_disallow rf))
    \<and> (\<forall>p. set (into_addresses parse p) = set (into_addresses parse payload) \<longrightarrow>
         rf_current_hash (refresh parse sha256 (Fetched p) rf) =
         rf_current_hash (refresh parse sha256 (Fetched payload) rf))"
proof -
  have inv: "refresher_inv sha256 rf" using assms by (blast intro: refreshing.reachable_inv)
  have "set (rf_disallow (refresh parse sha256 answer rf)) =
      (case answer of Fetched payload \<Rightarrow> set (into_addresses parse payload) | _ \<Rightarrow> set (rf_disallow rf))"
    by (auto simp: refresh_def last_refresh_views Let_def publish_hash_def set_fold_insert fail_def
        split: fetch.split option.split)
  moreover have hash: "rf_current_hash (refresh parse sha256 (Fetched p) rf) =
      Some (hash_disallow_list sha256 (fold List.insert (into_addresses parse p) []))" for p
    by (auto simp: refresh_def last_refresh_views Let_def changed_disallow_hash_def publish_hash_def
        split: option.split)
  moreover have "rf_current_hash (refresh parse sha256 (Fetched p) rf) =
      rf_current_hash (refresh parse sha256 (Fetched payload) rf)"
    if "set (into_addresses parse p) = set (into_addresses parse payload)" for p
  proof -
    have "hash_disallow_list sha256 (fold List.insert (into_addresses parse p) []) =
        hash_disallow_list sha256 (fold List.insert (into_addresses parse payload) [])"
      using that by (intro hash_disallow_list_set) (simp_all add: distinct_fold_insert set_fold_insert)
    then show ?thesis by (simp only: hash)
  qed
  moreover have "rf_size rf = card (set (rf_disallow rf))"
    using inv by (simp add: refresher_inv_def distinct_card)
  ultimately show ?thesis using inv unfolding refresher_inv_def by blast
qed

text \<open>Entries are decimal here: one digit is one address.\<close>

definition example_parse :: "string \<Rightarrow> address option" where
  "example_parse s = (case s of [c] \<Rightarrow> Some (of_nat (of_char c)) | _ \<Rightarrow> None)"

theorem refresh_exact_witness:
  "set (rf_disallow (refresh example_parse (\<lambda>_. ''h'') (Fetched (Wrapped [''0xa'', ''b'', ''b'', ''zz''])) refresher_new))
     = {97, 98}"
  using refresh_exact [of example_parse "\<lambda>_. ''h''" refresher_new
      "Fetched (Wrapped [''0xa'', ''b'', ''b'', ''zz''])" "Bare []"]
  by (simp add: into_addresses_def parse_disallow_list_def strip_0x_def example_parse_def
      List.map_filter_simps)

text \<open>
  C36. While the list is replaced a reader sees it empty: every refresh passes through a list
  under which a block with a disallowed sender passes the blacklist check, although the
  address is in the list before and after.
\<close>

theorem refresh_window:
  assumes "a \<in> set dash" and "a \<in> set addrs" and "(a, tx) \<in> set (zip (rb_senders b) (blk_transactions (rb_block b)))"
  shows "\<exists>view \<in> set (refresh_views dash addrs). blacklisted_block view True b msg = Inr ()
    \<and> blacklisted_block dash True b msg \<noteq> Inr ()
    \<and> blacklisted_block (last (refresh_views dash addrs)) True b msg \<noteq> Inr ()"
proof -
  have bad: "blacklisted_block view True b msg \<noteq> Inr ()" if "a \<in> set view" for view
    using that assms(3) by (auto simp: blacklisted_block_def blacklisted_transactions_iff split: if_splits)
  have "[] \<in> set (refresh_views dash addrs)" by (cases addrs) (simp_all add: refresh_views_def)
  moreover have "blacklisted_block [] True b msg = Inr ()" by (simp add: blacklisted_block_def)
  moreover have "a \<in> set (last (refresh_views dash addrs))"
    using assms(2) by (simp add: last_refresh_views set_fold_insert)
  ultimately show ?thesis using bad assms(1) by blast
qed

theorem refresh_window_witness:
  "\<exists>view \<in> set (refresh_views [6] [6]). blacklisted_block view True example_submission example_bid = Inr ()"
  using refresh_window [of 6 "[6]" "[6]" "default_tx 1" example_submission example_bid]
  by (auto simp: example_submission_def)

end
