(* ===== verification/Inclusion.thy ===== *)
theory Inclusion
  imports Prelude
begin

text \<open>
  The inclusion list (\<open>inclusion/inclusion_producer.rs\<close>, \<open>inclusion/api.rs\<close>). The pool is the
  function its \<open>get\<close> computes when an event is handled. A score is the bit pattern of an
  \<open>f64\<close>; its arithmetic is a parameter, its \<open>total_cmp\<close> is modelled. A \<open>BTreeSet\<close> is the
  list of its elements in order.
\<close>

unbundle bit_operations_syntax

section \<open>Scores\<close>

text \<open>The \<open>f64\<close> conversion from an integer, product and quotient, on bit patterns.\<close>

record f64_ops =
  f64_of :: "nat \<Rightarrow> u64"
  f64_mul :: "u64 \<Rightarrow> u64 \<Rightarrow> u64"
  f64_div :: "u64 \<Rightarrow> u64 \<Rightarrow> u64"

text \<open>\<open>f64::total_cmp\<close> compares the bits as signed integers, with the negative ones flipped.\<close>

definition total_cmp_key :: "u64 \<Rightarrow> int" where
  "total_cmp_key w = (if bit w 63 then sint (w XOR 0x7FFFFFFFFFFFFFFF) else sint w)"

record OrderedTx =
  ot_score :: u64
  ot_tx_hash :: b256

text \<open>\<open>Ord::cmp\<close> is reversed: a higher score comes first.\<close>

definition before :: "OrderedTx \<Rightarrow> OrderedTx \<Rightarrow> bool" where
  "before x y \<longleftrightarrow> total_cmp_key (ot_score x) > total_cmp_key (ot_score y)"

definition same_rank :: "OrderedTx \<Rightarrow> OrderedTx \<Rightarrow> bool" where
  "same_rank x y \<longleftrightarrow> total_cmp_key (ot_score x) = total_cmp_key (ot_score y)"

text \<open>\<open>BTreeSet::insert\<close> keeps an element that compares equal.\<close>

fun bt_insert :: "OrderedTx \<Rightarrow> OrderedTx list \<Rightarrow> OrderedTx list" where
  "bt_insert x [] = [x]"
| "bt_insert x (y # ys) =
     (if before x y then x # y # ys
      else if same_rank x y then y # ys
      else y # bt_insert x ys)"

definition bt_extend :: "OrderedTx list \<Rightarrow> OrderedTx list \<Rightarrow> OrderedTx list" where
  "bt_extend xs s = fold bt_insert xs s"

section \<open>The producer\<close>

definition MAX_LIST_BYTES :: nat where
  "MAX_LIST_BYTES = 8 * 1024"

record ValidPoolTransaction =
  vp_hash :: b256
  vp_blob_count :: "u64 option"
  vp_gas_limit :: u64
  vp_priority_fee_or_price :: u128
  vp_timestamp :: instant
  vp_encoded_length :: nat
  vp_encoded :: bytes

text \<open>\<open>elapsed\<close> saturates at zero; a duration is counted in nanoseconds.\<close>

definition score_tx :: "f64_ops \<Rightarrow> instant \<Rightarrow> ValidPoolTransaction \<Rightarrow> u64" where
  "score_tx fo now tx =
     f64_div fo
       (f64_mul fo (f64_of fo ((now - vp_timestamp tx) div 1000)) (f64_of fo (unat (vp_priority_fee_or_price tx))))
       (f64_of fo (unat (vp_gas_limit tx)))"

datatype FullTransactionEvent =
    PendingTx b256
  | QueuedTx b256
  | MinedTx b256
  | DiscardedTx b256
  | InvalidTx b256
  | ReplacedTx b256
  | PropagatedTx b256

record producer =
  pr_ordered_txs :: "OrderedTx list"
  pr_pending_txs :: "b256 \<rightharpoonup> ValidPoolTransaction"
  pr_published :: "bytes list option"

definition producer_new :: producer where
  "producer_new = \<lparr>pr_ordered_txs = [], pr_pending_txs = Map.empty, pr_published = None\<rparr>"

definition handle_tx_event ::
    "(b256 \<Rightarrow> ValidPoolTransaction option) \<Rightarrow> f64_ops \<Rightarrow> instant \<Rightarrow> FullTransactionEvent
      \<Rightarrow> producer \<Rightarrow> producer" where
  "handle_tx_event pool fo now event p =
     (let remove = (\<lambda>h. p\<lparr>pr_pending_txs := (pr_pending_txs p)(h := None)\<rparr>) in
      case event of
        PendingTx h \<Rightarrow>
          (case pool h of
             Some tx \<Rightarrow>
               if vp_blob_count tx = Some 0 \<or> vp_blob_count tx = None then
                 p\<lparr>pr_ordered_txs :=
                      bt_insert \<lparr>ot_score = score_tx fo now tx, ot_tx_hash = vp_hash tx\<rparr> (pr_ordered_txs p),
                   pr_pending_txs := (pr_pending_txs p)(vp_hash tx \<mapsto> tx)\<rparr>
               else p
           | None \<Rightarrow> p)
      | QueuedTx h \<Rightarrow> remove h
      | MinedTx h \<Rightarrow> remove h
      | DiscardedTx h \<Rightarrow> remove h
      | InvalidTx h \<Rightarrow> remove h
      | ReplacedTx h \<Rightarrow> remove h
      | PropagatedTx _ \<Rightarrow> p)"

text \<open>The \<open>pop_first\<close> loop: what it adds back and what it lists, given the size so far.\<close>

fun take_listed ::
    "(b256 \<rightharpoonup> ValidPoolTransaction) \<Rightarrow> nat \<Rightarrow> OrderedTx list \<Rightarrow> OrderedTx list \<times> ValidPoolTransaction list" where
  "take_listed pending n [] = ([], [])"
| "take_listed pending n (o' # os) =
     (case pending (ot_tx_hash o') of
        None \<Rightarrow> take_listed pending n os
      | Some tx \<Rightarrow>
          if n + vp_encoded_length tx > MAX_LIST_BYTES
          then (case take_listed pending n os of (back, listed) \<Rightarrow> (o' # back, listed))
          else (case take_listed pending (n + vp_encoded_length tx) os of
                  (back, listed) \<Rightarrow> (o' # back, tx # listed)))"

definition build_inclusion_list :: "producer \<Rightarrow> producer" where
  "build_inclusion_list p =
     (case take_listed (pr_pending_txs p) 0 (pr_ordered_txs p) of
        (back, listed) \<Rightarrow>
          p\<lparr>pr_ordered_txs := bt_extend back [], pr_published := Some (map vp_encoded listed)\<rparr>)"

text \<open>A commit builds a list, a reorg does not; a closed stream ends the task.\<close>

datatype producer_event =
    PoolEvent "b256 \<Rightarrow> ValidPoolTransaction option" f64_ops instant FullTransactionEvent
  | Commit
  | Reorg

definition producer_step :: "producer_event \<Rightarrow> producer \<Rightarrow> producer" where
  "producer_step e p = (case e of
     PoolEvent pool fo now ev \<Rightarrow> handle_tx_event pool fo now ev p
   | Commit \<Rightarrow> build_inclusion_list p
   | Reorg \<Rightarrow> p)"

fun inclusion_producer :: "producer_event option list \<Rightarrow> producer \<Rightarrow> producer" where
  "inclusion_producer [] p = p"
| "inclusion_producer (None # rest) p = p"
| "inclusion_producer (Some e # rest) p = inclusion_producer rest (producer_step e p)"

section \<open>The API\<close>

definition inclusion_list :: "bytes list option \<Rightarrow> string + bytes list" where
  "inclusion_list published = ok_or published ''list not ready''"

text \<open>
  The subscription's task: for each change it sees it reads the latest value and sends it
  when there is one and it serializes; a failed accept or a closed publisher ends it.
\<close>

fun inclusion_messages :: "(bytes list \<Rightarrow> bool) \<Rightarrow> bytes list option option list \<Rightarrow> bytes list list" where
  "inclusion_messages serializes [] = []"
| "inclusion_messages serializes (None # rest) = []"
| "inclusion_messages serializes (Some v # rest) =
     (case v of
        Some l \<Rightarrow> if serializes l then l # inclusion_messages serializes rest
                  else inclusion_messages serializes rest
      | None \<Rightarrow> inclusion_messages serializes rest)"

definition subscribe_inclusion_list ::
    "bool \<Rightarrow> (bytes list \<Rightarrow> bool) \<Rightarrow> bytes list option option list \<Rightarrow> bytes list list" where
  "subscribe_inclusion_list accepted serializes changes =
     (if accepted then inclusion_messages serializes changes else [])"

section \<open>The order\<close>

definition ranked :: "OrderedTx list \<Rightarrow> bool" where
  "ranked s \<longleftrightarrow> sorted_wrt before s"

lemma bt_insert_set: "set (bt_insert x s) \<subseteq> insert x (set s)" "set s \<subseteq> set (bt_insert x s)"
  by (induction s) auto

lemma bt_insert_ranked: "ranked s \<Longrightarrow> ranked (bt_insert x s)"
proof (induction s)
  case (Cons y ys)
  show ?case
  proof (cases "before x y \<or> same_rank x y")
    case True
    then show ?thesis using Cons.prems by (auto simp: ranked_def before_def)
  next
    case False
    then have "before y x" by (auto simp: before_def same_rank_def)
    then show ?thesis
      using False Cons bt_insert_set(1) [of x ys] by (auto simp: ranked_def)
  qed
qed (simp add: ranked_def)

lemma bt_insert_fresh: "(\<And>y. y \<in> set s \<Longrightarrow> \<not> same_rank x y) \<Longrightarrow> set (bt_insert x s) = insert x (set s)"
  by (induction s) auto

lemma bt_insert_taken: "ranked s \<Longrightarrow> y \<in> set s \<Longrightarrow> same_rank x y \<Longrightarrow> bt_insert x s = s"
  by (induction s) (auto simp: ranked_def before_def same_rank_def)

text \<open>Elements already in order are put back unchanged.\<close>

lemma bt_insert_last: "(\<And>y. y \<in> set s \<Longrightarrow> before y x) \<Longrightarrow> bt_insert x s = s @ [x]"
proof (induction s)
  case (Cons y ys)
  then have "before y x" by simp
  then have "\<not> before x y" "\<not> same_rank x y" by (auto simp: before_def same_rank_def)
  with Cons show ?case by simp
qed simp

lemma bt_extend_ranked: "ranked (s @ xs) \<Longrightarrow> bt_extend xs s = s @ xs"
proof (induction xs arbitrary: s)
  case (Cons x xs)
  then have "bt_insert x s = s @ [x]"
    by (intro bt_insert_last) (auto simp: ranked_def sorted_wrt_append)
  with Cons.IH [of "s @ [x]"] Cons.prems show ?case by (simp add: bt_extend_def)
qed (simp add: bt_extend_def)

lemma take_listed_back: "fst (take_listed pending n os) = filter (\<lambda>o'. pending (ot_tx_hash o') \<noteq> None) os"
  by (induction os arbitrary: n) (auto split: option.split prod.split simp: case_prod_unfold)

text \<open>
  The listed transactions: a reference for the greedy choice, in one pass over the pending
  transactions in order.
\<close>

fun greedy :: "nat \<Rightarrow> ValidPoolTransaction list \<Rightarrow> ValidPoolTransaction list" where
  "greedy room [] = []"
| "greedy room (tx # txs) =
     (if vp_encoded_length tx \<le> room then tx # greedy (room - vp_encoded_length tx) txs else greedy room txs)"

lemma take_listed_greedy:
  "n \<le> MAX_LIST_BYTES \<Longrightarrow> snd (take_listed pending n os) =
     greedy (MAX_LIST_BYTES - n) (List.map_filter (\<lambda>o'. pending (ot_tx_hash o')) os)"
  by (induction os arbitrary: n)
    (auto simp: List.map_filter_simps case_prod_unfold split: option.split)

lemma greedy_fits: "sum_list (map vp_encoded_length (greedy room txs)) \<le> room"
  by (induction room txs rule: greedy.induct) auto

lemma greedy_subseq: "subseq (greedy room txs) txs"
  by (induction room txs rule: greedy.induct) auto

lemma greedy_append:
  "greedy room (us @ vs) = greedy room us @ greedy (room - sum_list (map vp_encoded_length (greedy room us))) vs"
  by (induction room us rule: greedy.induct) auto

definition pending_in_order :: "producer \<Rightarrow> ValidPoolTransaction list" where
  "pending_in_order p = List.map_filter (\<lambda>o'. pr_pending_txs p (ot_tx_hash o')) (pr_ordered_txs p)"

definition producer_inv :: "producer \<Rightarrow> bool" where
  "producer_inv p \<longleftrightarrow>
     ranked (pr_ordered_txs p) \<and> (\<forall>h tx. pr_pending_txs p h = Some tx \<longrightarrow> vp_hash tx = h)"

lemma ranked_filter: "ranked s \<Longrightarrow> ranked (filter P s)"
  by (simp add: ranked_def sorted_wrt_filter)

lemma build_inclusion_list_eq:
  assumes "ranked (pr_ordered_txs p)"
  shows "build_inclusion_list p =
    p\<lparr>pr_ordered_txs := filter (\<lambda>o'. pr_pending_txs p (ot_tx_hash o') \<noteq> None) (pr_ordered_txs p),
      pr_published := Some (map vp_encoded (greedy MAX_LIST_BYTES (pending_in_order p)))\<rparr>"
proof -
  obtain again listed where t: "take_listed (pr_pending_txs p) 0 (pr_ordered_txs p) = (again, listed)" by fastforce
  then have "again = filter (\<lambda>o'. pr_pending_txs p (ot_tx_hash o') \<noteq> None) (pr_ordered_txs p)"
    using take_listed_back [of "pr_pending_txs p" 0 "pr_ordered_txs p"] by simp
  moreover have "listed = greedy MAX_LIST_BYTES (pending_in_order p)"
    using t take_listed_greedy [of 0 "pr_pending_txs p" "pr_ordered_txs p"] by (simp add: pending_in_order_def)
  moreover have "bt_extend again [] = again"
    using bt_extend_ranked [of "[]" again] ranked_filter [OF assms] calculation(1) by simp
  ultimately show ?thesis by (simp add: build_inclusion_list_def t)
qed

lemma producer_step_inv: "producer_inv p \<Longrightarrow> producer_inv (producer_step e p)"
proof (cases e)
  case (PoolEvent pool fo now ev)
  assume "producer_inv p"
  with PoolEvent show ?thesis
    by (cases ev)
      (auto simp: producer_step_def handle_tx_event_def producer_inv_def Let_def bt_insert_ranked
        split: option.split)
next
  case Commit
  assume "producer_inv p"
  with Commit show ?thesis
    by (simp add: producer_step_def producer_inv_def build_inclusion_list_eq ranked_filter)
qed (simp add: producer_step_def)

interpretation producing: transition_system "\<lambda>p. p = producer_new" "\<lambda>p q. \<exists>e. q = producer_step e p" producer_inv
  by unfold_locales (auto simp: producer_step_inv, simp add: producer_inv_def producer_new_def ranked_def)

text \<open>
  C37. After every commit the published list is the greedy choice, by falling score, among the
  transactions that are pending: at most 8 KiB of them in all, each left out only because it
  did not fit into what those before it left; the order keeps the pending transactions
  only, still sorted.
\<close>

theorem inclusion_list_greedy:
  assumes "(\<lambda>p q. \<exists>e. q = producer_step e p)\<^sup>*\<^sup>* producer_new p"
  shows "let listed = greedy MAX_LIST_BYTES (pending_in_order p); q = producer_step Commit p
    in inclusion_list (pr_published q) = Inr (map vp_encoded listed)
     \<and> sum_list (map vp_encoded_length listed) \<le> 8192
     \<and> subseq listed (pending_in_order p)
     \<and> (\<forall>us tx vs. pending_in_order p = us @ tx # vs \<and>
          8192 \<ge> sum_list (map vp_encoded_length (greedy 8192 us)) + vp_encoded_length tx \<longrightarrow>
          prefix (greedy 8192 us @ [tx]) listed)
     \<and> sorted_wrt before (pr_ordered_txs q)
     \<and> (\<forall>o' \<in> set (pr_ordered_txs q). pr_pending_txs q (ot_tx_hash o') \<noteq> None)"
proof -
  have inv: "producer_inv p" using assms by (rule producing.reachable_inv [OF refl])
  then have rk: "ranked (pr_ordered_txs p)" by (simp add: producer_inv_def)
  have fits: "prefix (greedy 8192 us @ [tx]) (greedy MAX_LIST_BYTES (pending_in_order p))"
    if "pending_in_order p = us @ tx # vs"
      "sum_list (map vp_encoded_length (greedy 8192 us)) + vp_encoded_length tx \<le> 8192" for us tx vs
  proof -
    have "vp_encoded_length tx \<le> 8192 - sum_list (map vp_encoded_length (greedy 8192 us))"
      using that(2) by linarith
    then show ?thesis using that(1) by (simp add: greedy_append MAX_LIST_BYTES_def)
  qed
  have "sum_list (map vp_encoded_length (greedy MAX_LIST_BYTES (pending_in_order p))) \<le> 8192"
    using greedy_fits [of MAX_LIST_BYTES] by (simp add: MAX_LIST_BYTES_def)
  with fits show ?thesis
    using ranked_filter [OF rk]
    unfolding Let_def producer_step_def producer_event.case build_inclusion_list_eq [OF rk]
    by (auto simp: inclusion_list_def greedy_subseq ranked_def)
qed

definition example_pool_tx :: ValidPoolTransaction where
  "example_pool_tx = \<lparr>vp_hash = 5, vp_blob_count = None, vp_gas_limit = 21000,
     vp_priority_fee_or_price = 1, vp_timestamp = 0, vp_encoded_length = 3, vp_encoded = [1, 2, 3]\<rparr>"

text \<open>An arithmetic that is exact on the integers of the example.\<close>

definition example_f64 :: f64_ops where
  "example_f64 = \<lparr>f64_of = of_nat, f64_mul = (*), f64_div = (\<lambda>x y. if y = 21000 then x else 0)\<rparr>"

lemma example_score [simp]:
  "score_tx example_f64 7000 example_pool_tx = 7" "score_tx example_f64 8000 example_pool_tx = 8"
  by (simp_all add: score_tx_def example_f64_def example_pool_tx_def)

lemma example_pool_tx_sel [simp]:
  "vp_hash example_pool_tx = 5" "vp_blob_count example_pool_tx = None"
  "vp_encoded_length example_pool_tx = 3" "vp_encoded example_pool_tx = [1, 2, 3]"
  by (simp_all add: example_pool_tx_def)

definition example_pool :: "b256 \<Rightarrow> ValidPoolTransaction option" where
  "example_pool h = (if h = 5 then Some example_pool_tx else None)"

theorem inclusion_list_greedy_witness:
  "inclusion_list (pr_published (producer_step Commit
     (producer_step (PoolEvent example_pool example_f64 7000 (PendingTx 5)) producer_new))) = Inr [[1, 2, 3]]"
proof -
  let ?p = "producer_step (PoolEvent example_pool example_f64 7000 (PendingTx 5)) producer_new"
  have "(\<lambda>p q. \<exists>e. q = producer_step e p)\<^sup>*\<^sup>* producer_new ?p" by blast
  from inclusion_list_greedy [OF this]
  have "inclusion_list (pr_published (producer_step Commit ?p)) =
      Inr (map vp_encoded (greedy MAX_LIST_BYTES (pending_in_order ?p)))" unfolding Let_def by blast
  moreover have "pending_in_order ?p = [example_pool_tx]"
    by (simp add: pending_in_order_def producer_step_def handle_tx_event_def example_pool_def
        producer_new_def List.map_filter_simps)
  ultimately show ?thesis by (simp add: MAX_LIST_BYTES_def)
qed

section \<open>Where the order loses and repeats transactions\<close>

text \<open>
  C38. The order compares scores only. A pending transaction whose score equals that of another
  is not entered, so no commit lists it while that is so; and a transaction that was queued
  and is pending again with another score is entered a second time and listed twice.
\<close>

theorem order_by_score_only:
  assumes "(\<lambda>p q. \<exists>e. q = producer_step e p)\<^sup>*\<^sup>* producer_new p"
    and "pool h = Some tx" and "vp_blob_count tx = None"
    and "y \<in> set (pr_ordered_txs p)"
    and "total_cmp_key (score_tx fo now tx) = total_cmp_key (ot_score y)"
    and "total_cmp_key (score_tx fo t2 tx) \<noteq> total_cmp_key (score_tx fo t1 tx)"
    and "h = vp_hash tx" and "vp_encoded_length tx + vp_encoded_length tx \<le> 8192"
  shows "pr_ordered_txs (producer_step (PoolEvent pool fo now (PendingTx h)) p) = pr_ordered_txs p
    \<and> pr_pending_txs (producer_step (PoolEvent pool fo now (PendingTx h)) p) h = Some tx
    \<and> pr_published (inclusion_producer
         [Some (PoolEvent pool fo t1 (PendingTx h)), Some (PoolEvent pool fo t1 (QueuedTx h)),
          Some (PoolEvent pool fo t2 (PendingTx h)), Some Commit] producer_new)
       = Some [vp_encoded tx, vp_encoded tx]"
proof -
  have "producer_inv p" using assms(1) by (rule producing.reachable_inv [OF refl])
  then have rk: "ranked (pr_ordered_txs p)" by (simp add: producer_inv_def)
  have "same_rank \<lparr>ot_score = score_tx fo now tx, ot_tx_hash = vp_hash tx\<rparr> y"
    using assms(5) by (simp add: same_rank_def)
  then have kept: "bt_insert \<lparr>ot_score = score_tx fo now tx, ot_tx_hash = vp_hash tx\<rparr> (pr_ordered_txs p) = pr_ordered_txs p"
    by (rule bt_insert_taken [OF rk assms(4)])
  let ?a = "\<lparr>ot_score = score_tx fo t1 tx, ot_tx_hash = vp_hash tx\<rparr>"
  let ?b = "\<lparr>ot_score = score_tx fo t2 tx, ot_tx_hash = vp_hash tx\<rparr>"
  let ?p = "\<lparr>pr_ordered_txs = bt_insert ?b [?a], pr_pending_txs = [h \<mapsto> tx], pr_published = None\<rparr>"
  have run: "inclusion_producer
      [Some (PoolEvent pool fo t1 (PendingTx h)), Some (PoolEvent pool fo t1 (QueuedTx h)),
       Some (PoolEvent pool fo t2 (PendingTx h)), Some Commit] producer_new = build_inclusion_list ?p"
    using assms(2,3,7) by (simp add: producer_step_def handle_tx_event_def Let_def producer_new_def)
  have "ranked (bt_insert ?b [?a])" by (intro bt_insert_ranked) (simp add: ranked_def)
  then have "pr_published (build_inclusion_list ?p) =
      Some (map vp_encoded (greedy MAX_LIST_BYTES (pending_in_order ?p)))"
    by (subst build_inclusion_list_eq) simp_all
  moreover have "pending_in_order ?p = [tx, tx]"
    using assms(6,7) by (simp add: pending_in_order_def before_def same_rank_def List.map_filter_simps)
  ultimately have "pr_published (build_inclusion_list ?p) = Some [vp_encoded tx, vp_encoded tx]"
    using assms(8) by (simp add: MAX_LIST_BYTES_def)
  with run kept assms(2,3,7) show ?thesis
    by (simp add: producer_step_def [of "PoolEvent pool fo now _"] handle_tx_event_def)
qed

theorem order_by_score_only_witness:
  "pr_published (inclusion_producer
     [Some (PoolEvent example_pool example_f64 7000 (PendingTx 5)), Some (PoolEvent example_pool example_f64 7000 (QueuedTx 5)),
      Some (PoolEvent example_pool example_f64 8000 (PendingTx 5)), Some Commit] producer_new)
   = Some [[1, 2, 3], [1, 2, 3]]"
proof -
  let ?p = "producer_step (PoolEvent example_pool example_f64 7000 (PendingTx 5)) producer_new"
  have reach: "(\<lambda>p q. \<exists>e. q = producer_step e p)\<^sup>*\<^sup>* producer_new ?p" by blast
  have mem: "\<lparr>ot_score = 7, ot_tx_hash = 5\<rparr> \<in> set (pr_ordered_txs ?p)"
    by (simp add: producer_step_def handle_tx_event_def example_pool_def producer_new_def)
  have keys: "total_cmp_key (score_tx example_f64 8000 example_pool_tx) \<noteq>
      total_cmp_key (score_tx example_f64 7000 example_pool_tx)" by (simp add: total_cmp_key_def)
  have eq: "total_cmp_key (score_tx example_f64 7000 example_pool_tx) =
      total_cmp_key (ot_score \<lparr>ot_score = 7, ot_tx_hash = 5\<rparr>)" by simp
  have tx: "example_pool 5 = Some example_pool_tx" "vp_blob_count example_pool_tx = None"
    "5 = vp_hash example_pool_tx" "vp_encoded_length example_pool_tx + vp_encoded_length example_pool_tx \<le> 8192"
    "vp_encoded example_pool_tx = [1, 2, 3]"
    by (simp_all add: example_pool_def)
  note order_by_score_only [of ?p example_pool 5 example_pool_tx "\<lparr>ot_score = 7, ot_tx_hash = 5\<rparr>"
      example_f64 7000 8000 7000, OF reach tx(1,2) mem eq keys tx(3,4)]
  then show ?thesis by (simp add: tx(5) del: inclusion_producer.simps)
qed

end
