(* ===== verification/Spec2Isabelle.thy ===== *)
theory Spec2Isabelle
  imports TestFlashblocks Utilities ProcessorBuild PubSub Subscriber EthRpc Blacklist Inclusion BenchDriver
begin

text \<open>
  Verification of the ethgas node.

  The program. The ethgas node is a reth execution client that also follows a builder's stream
  of flashblocks, the pieces of the block being built. A subscriber
  (\<open>flashblocks/src/subscription.rs\<close>) reads them from a websocket and hands them to the shared
  state (\<open>state.rs\<close>), which queues them, together with the canonical blocks the node imports,
  for the state processor (\<open>processor.rs\<close>). The processor checks their position in the stream
  (\<open>validation.rs\<close>), keeps early ones in a cache (\<open>cache.rs\<close>), assembles the block they describe
  (\<open>block_assembler.rs\<close>), executes its transactions and publishes an immutable snapshot
  (\<open>pending_blocks.rs\<close>) that RPC methods read (\<open>rpc/eth.rs\<close>, \<open>rpc/ethgas.rs\<close>, \<open>rpc/pubsub.rs\<close>)
  and that the node's \<open>eth\<close> API overlays on canonical state for the \<open>pending\<close> tag
  (\<open>runner/src\<close>). An optional simulator (\<open>simulator/src\<close>) validates block submissions of
  builders and publishes an inclusion list. The crates are wired by extensions that install
  hooks on reth's node builder (\<open>runner/src\<close>, \<open>flashblocks-node/src\<close>, \<open>bin/node/src\<close>).

  The theories and the code they model. Paths are below \<open>src/crates/execution\<close> unless they
  start with \<open>bin\<close>.
  \<^item> Prelude: machine integers as words that wrap, results as sums, shared references with an
    identity (\<open>Arc::ptr_eq\<close>), and the locale \<open>transition_system\<close> (an initial state, a step and an
    invariant it keeps), which every state machine below interprets on its own relation.
  \<^item> Payload, Chain, Errors, Metrics: the wire types of \<open>flashblocks/src/payload.rs\<close>, the data of
    other crates the node passes around, \<open>error.rs\<close> and \<open>metrics.rs\<close>.
  \<^item> Cache: \<open>cache.rs\<close>, with the locale \<open>flashblock_store\<close> for what its clients rely on. Drains are
    exact and sorted, an insertion is drained once, the window of six blocks is kept; the
    last block of the window evicts the first.
  \<^item> Sequencing: \<open>validation.rs\<close>. Each sequence verdict with what it reports, and the streams it
    lets through; the reorg verdict as a prefix order, the canonical oracle, the
    reconciliation strategy on true numbers.
  \<^item> Fee: \<open>fee.rs\<close>, \<open>config.rs\<close> and \<open>rpc/ethgas.rs\<close>. When the builder's fee is served and what the
    fee methods answer.
  \<^item> Pending: \<open>pending_blocks.rs\<close>. The builder as a state machine whose snapshots are well
    formed; what the reads return; the deltas between snapshots as a stream (the locale
    \<open>delta_stream\<close>, interpreted for hashes and for logs).
  \<^item> Assembler: \<open>block_assembler.rs\<close>. Exactly when assembly fails and with which error, and where
    each field of the block comes from.
  \<^item> Processor: \<open>processor.rs\<close>, every operation with its counters. ProcessorSafety: what every run
    keeps; a published or broadcast snapshot is traced back to the step that published it and
    was usable at the tip that step read last, none is broadcast twice, and what each
    flashblock that does not advance the chain leaves alone. ProcessorBuild: what a built snapshot
    contains as a function of its flashblocks, with its logs numbered through each block,
    and that the next flashblock extends it. ProcessorExample: a concrete environment in
    which the witnesses evaluate.
  \<^item> ProcessorTask: the processor's loop cut into steps with one access to a shared cell each;
    run alone the steps are \<open>on_update\<close>, and what each keeps whatever other tasks do.
  \<^item> FbState: \<open>state.rs\<close>, the receiving functions and their parts. Tasks: the feed's task, the
    canonical task and the processor's, interleaved step by step; every interleaving keeps
    the snapshots usable and the broadcasts distinct, the compare and swap drops only the
    snapshot that was judged, and a dropped one can be published again; each update of the
    processor bounds how far behind a published snapshot lies, and the processor alone always
    empties its queue.
  \<^item> PubSub: \<open>rpc/pubsub.rs\<close> and \<open>rpc/types.rs\<close>. Subscription caps, the delivery loops and their
    deadlines.
  \<^item> Subscriber: \<open>subscription.rs\<close>. Decoding with UTF-8 and size checks, the connection loop,
    pings and backoff; mailbox, counters, sleeps and connection as functions of the events.
  \<^item> Overlay: \<open>runner/src/pending_provider.rs\<close>, \<open>runner/src/pending_state.rs\<close>,
    \<open>flashblocks-node/src/pending_state.rs\<close> and the deciding part of \<open>runner/src/eth_api.rs\<close>. Reading
    the bundle in place equals reading a copy; the cached overlay is the snapshot's.
  \<^item> EthRpc: \<open>rpc/eth.rs\<close>. Every overridden method; the balance answers and the overlay agree on
    the snapshot they serve, logs are merged without duplicates, and the
    answer of \<open>eth_sendRawTransactionSync\<close> is determined by what its receivers saw.
  \<^item> Payment, SimValidation, Blacklist, Inclusion: \<open>simulator/src/payment.rs\<close>, \<open>validation\<close>,
    \<open>blacklist.rs\<close> with the refresh task of \<open>ValidationApi::new\<close>, and \<open>inclusion\<close>. Exactly when a
    submission is accepted, when a payment passes, when the inclusion list constraint holds,
    what the disallow list is after any refreshes, and which transactions are listed.
  \<^item> Utilities: \<open>utilities/cli/src\<close>, beside \<open>execution\<close>. The names of the logging types are read
    back, what each verbosity gives, the backtrace variable and the version metadata.
  \<^item> Wiring: \<open>bin/node/src\<close>, \<open>runner/src/builder.rs\<close>, \<open>runner/src/runner.rs\<close> and the two
    extensions. Who answers which method on the launched node, and what starts.
  \<^item> BenchDriver: \<open>flashblocks-node/examples/bench_driver.rs\<close>. The load driver; a block it
    produces in closed form, and that the node's sequence check accepts its stream.
  \<^item> TestChain: \<open>utilities/test-utils\<close> and the engine and harness of \<open>runner/src/test_utils\<close>. On an
    engine that behaves as documented, \<open>advance_chain\<close> extends the chain by the blocks asked for; the
    wait for persistence polls at most 200 times. TestFlashblocks: \<open>test_utils/node.rs\<close> and
    \<open>flashblocks-node/src/test_harness.rs\<close>. A harness node installs the RPC modules of the node
    binary, and the flashblocks of the test builder pass the node's sequence check.
  \<^item> This theory: the running node, all its tasks interleaved, from messages of the upstream to
    what \<open>eth_getBlockByNumber("pending")\<close> and calls on \<open>pending\<close> see. The channel between the
    reading task and the one that hands flashblocks on holds 100; the queue of the processor
    is unbounded, as in the code.

  How code becomes definitions. A struct is a record, an enum a datatype, a function that may
  fail returns a sum with the error on the left, a panic is \<open>None\<close>. \<open>u64\<close>, \<open>u128\<close>, \<open>U256\<close>, hashes and
  addresses are words. A map that is only looked up is a function to an option, one that is
  iterated an association list. State is passed explicitly; a task that runs beside others
  is a step relation. An \<open>Arc\<close> carries a number that tells allocations apart, so that pointer
  comparisons are comparisons of identities. What a clock, a socket or another task does in
  between is an argument.

  Code of other crates is a parameter: the execution engine, state providers, tries, the
  chain specification, payload decoding, consensus rules, JSON, brotli, KZG, ABI decoding,
  the transaction pool, reth's module registry and \<open>f64\<close> arithmetic are fields of records that
  the definitions take. A theorem that needs their documented behaviour names it as a
  hypothesis (\<open>converts_faithfully\<close>, \<open>decodes_faithfully\<close>, \<open>registry_ok\<close>, ...), and its witness
  instantiates them.

  Bounds and fuel. The only fuel is that of \<open>wait_for_room\<close>, which polls a sink until a
  deadline: \<open>poll_fuel\<close> is one poll per interval of the timeout and two more, and the wait is
  shown to return with it. Every other loop recurses on its input; the multisend reader has
  a termination proof on the bytes left.

  Atomicity. A step of a task makes at most one access to a cell that another task writes:
  the published snapshot, the last canonical number, the queue. Counters are not ordered
  with the cells. ProcessorSafety treats whole updates of the processor, with notifications
  and drops between them; Tasks and the running node below treat the steps.
  Sender recovery runs in parallel in the code and in order here; when several senders
  cannot be recovered the code reports any of them, the model the first.

  Not modelled: logging and duration histograms, reth and the other crates beyond the
  parameters above, command-line parsing by clap, the methods of \<open>EthgasEthApi\<close> that only forward
  to reth, the standard subscription kinds that are proxied to reth, the process entry with
  its allocator and signal handling, the macros of \<open>utilities/cli\<close> (they only call what
  Utilities models), the shutdown of a test node and its tracing, generated contract bindings,
  and the tests.
\<close>

section \<open>The running node\<close>

text \<open>
  The subscriber's reading task, the task that takes the flashblocks out of its mailbox, the
  canonical task and the processor's, interleaved in any order.
\<close>

record 'st node =
  nd_subscriber :: subscriber
  nd_received :: nat
  nd_tasks :: "'st tasks"
  nd_overlay :: "'st overlay_cache"

definition node_new :: "('sp, 'db, 'env, 'st) processor_env \<Rightarrow> u64 \<Rightarrow> 'st node" where
  "node_new pe depth = \<lparr>nd_subscriber = subscriber_new, nd_received = 0,
     nd_tasks = tasks_new (fs_new (processor_new pe None 0) depth), nd_overlay = None\<rparr>"

abbreviation nd_state :: "'st node \<Rightarrow> 'st FlashblocksState" where
  "nd_state n \<equiv> tk_state (nd_tasks n)"

definition receive_next :: "bool \<Rightarrow> 'st node \<Rightarrow> 'st node" where
  "receive_next syncing n =
     (if nd_received n < length (sb_mailbox (nd_subscriber n))
      then n\<lparr>nd_received := nd_received n + 1,
             nd_tasks := feed_admit syncing (sb_mailbox (nd_subscriber n) ! nd_received n) (nd_tasks n)\<rparr>
      else n)"

text \<open>
  A request of the \<open>eth\<close> API for the pending state: under the lock of the overlay cache, with one
  load of the published snapshot.
\<close>

definition answer_pending :: "'st node \<Rightarrow> PendingOverlay option \<times> 'st node" where
  "answer_pending n =
     (case pending_overlay (get_pending_blocks (nd_state n)) (nd_overlay n) of
        (overlay, cache) \<Rightarrow> (overlay, n\<lparr>nd_overlay := cache\<rparr>))"

text \<open>
  The reading task goes on while the channel has taken what it decoded: with
  \<open>MAILBOX_SIZE\<close> flashblocks in the channel it decodes one more and waits in \<open>send\<close>.
\<close>

definition mailbox_backlog :: "'st node \<Rightarrow> nat" where
  "mailbox_backlog n = length (sb_mailbox (nd_subscriber n)) - nd_received n"

definition reader_ready :: "'st node \<Rightarrow> feed_event \<Rightarrow> bool" where
  "reader_ready n e \<longleftrightarrow> feed_enabled (nd_subscriber n) e \<and> mailbox_backlog n \<le> MAILBOX_SIZE"

inductive node_step ::
    "wire_codec \<Rightarrow> ('sp, 'db, 'env, 'st) processor_env \<Rightarrow> 'st node \<Rightarrow> 'st node \<Rightarrow> bool"
  for wc pe where
  node_feed: "reader_ready n e \<Longrightarrow> node_step wc pe n (n\<lparr>nd_subscriber := feed_step wc (nd_subscriber n) e\<rparr>)"
| node_receive: "tk_feed (nd_tasks n) = Listening \<Longrightarrow> node_step wc pe n (receive_next syncing n)"
| node_pending: "node_step wc pe n (snd (answer_pending n))"
| node_inner: "inner_step pe (nd_tasks n) tk \<Longrightarrow> node_step wc pe n (n\<lparr>nd_tasks := tk\<rparr>)"

definition queued_flashblocks :: "StateUpdate list \<Rightarrow> FlashBlock list" where
  "queued_flashblocks us = List.map_filter (\<lambda>u. case u of Flashblock fb \<Rightarrow> Some fb | Canonical _ \<Rightarrow> None) us"

text \<open>The flashblock that passed the gates and is not queued yet.\<close>

definition in_hand :: "feeding \<Rightarrow> FlashBlock list" where
  "in_hand f = (case f of Listening \<Rightarrow> [] | Admitted fb \<Rightarrow> [fb] | Priced fb \<Rightarrow> [fb])"

definition waiting_flashblocks :: "'st tasks \<Rightarrow> FlashBlock list" where
  "waiting_flashblocks tk = queued_flashblocks (fs_queue (tk_state tk)) @ in_hand (tk_feed tk)"

definition node_inv ::
    "wire_codec \<Rightarrow> ('sp, 'db, 'env, 'st) processor_env \<Rightarrow> 'st node \<Rightarrow> bool" where
  "node_inv wc pe n \<longleftrightarrow>
     tasks_inv pe (fst ` set_option (nd_overlay n)) (nd_tasks n)
   \<and> cache_faithful (nd_overlay n)
   \<and> feed_inv (nd_subscriber n)
   \<and> nd_received n \<le> length (sb_mailbox (nd_subscriber n)) \<and> mailbox_backlog n \<le> MAILBOX_SIZE + 1
   \<and> subseq (waiting_flashblocks (nd_tasks n)) (take (nd_received n) (sb_mailbox (nd_subscriber n)))
   \<and> (\<forall>fb \<in> set (sb_mailbox (nd_subscriber n)). \<exists>e shape. decoded wc e = Some (fb, shape))"

lemma queued_snoc [simp]:
  "queued_flashblocks (us @ [Flashblock fb]) = queued_flashblocks us @ [fb]"
  "queued_flashblocks (us @ [Canonical b]) = queued_flashblocks us"
  by (simp_all add: queued_flashblocks_def List.map_filter_def)

lemma queued_next: "subseq (queued_flashblocks us) (queued_flashblocks (u # us))"
  by (cases u) (auto simp: queued_flashblocks_def List.map_filter_simps)

lemma in_hand_simps [simp]: "in_hand Listening = []" "in_hand (Admitted fb) = [fb]" "in_hand (Priced fb) = [fb]"
  by (simp_all add: in_hand_def)

lemma admit_waiting:
  "tk_feed tk = Listening \<Longrightarrow>
     waiting_flashblocks (feed_admit syncing fb tk) \<in> {waiting_flashblocks tk, waiting_flashblocks tk @ [fb]}"
  by (simp add: waiting_flashblocks_def feed_admit_def admit_flashblock_def)

lemma continue_waiting: "waiting_flashblocks (feed_continue now tk) = waiting_flashblocks tk"
  by (simp add: waiting_flashblocks_def feed_continue_def store_inclusion_fee_def Let_def split: feeding.split)

lemma canonical_waiting:
  "waiting_flashblocks (canonical_notify block tk) = waiting_flashblocks tk"
  "waiting_flashblocks (canonical_continue tk) = waiting_flashblocks tk"
  by (simp_all add: waiting_flashblocks_def canonical_notify_def canonical_continue_def split: receiving.split)

lemma processor_waiting:
  "subseq (waiting_flashblocks (processor_take tk)) (waiting_flashblocks tk)"
  "waiting_flashblocks (processor_continue pe tk) = waiting_flashblocks tk"
proof -
  show "subseq (waiting_flashblocks (processor_take tk)) (waiting_flashblocks tk)"
    by (cases "fs_queue (tk_state tk)")
      (simp_all add: processor_take_def waiting_flashblocks_def queued_next list_emb_append_mono)
qed (simp add: processor_continue_def waiting_flashblocks_def case_prod_beta)

lemma inner_waiting: "inner_step pe tk tk' \<Longrightarrow> subseq (waiting_flashblocks tk') (waiting_flashblocks tk)"
  by (induction rule: inner_step.induct)
    (simp_all add: continue_waiting canonical_waiting processor_waiting waiting_flashblocks_def [of "tk_state_update _ _"]
      bind_sync_state_def, simp add: waiting_flashblocks_def)

lemma node_step_tasks:
  assumes "node_step wc pe n n'"
  shows "nd_overlay n' = nd_overlay n \<and> (tasks_step pe)\<^sup>=\<^sup>= (nd_tasks n) (nd_tasks n')
    \<or> n' = snd (answer_pending n)"
  using assms by cases (simp_all add: receive_next_def tasks_step.intros)

text \<open>What a request for the pending state answers, and that its cache stays what it was built for.\<close>

lemma answer_pending_exact:
  assumes "tasks_inv pe (fst ` set_option (nd_overlay n)) (nd_tasks n)" and "cache_faithful (nd_overlay n)"
  shows "fst (answer_pending n) = Option.bind (get_pending_blocks (nd_state n)) (\<lambda>a. overlay_of (arc_val a))"
    and "tasks_inv pe (fst ` set_option (nd_overlay (snd (answer_pending n)))) (nd_tasks n)"
    and "cache_faithful (nd_overlay (snd (answer_pending n)))"
proof -
  let ?held = "fst ` set_option (nd_overlay n)" and ?p = "get_pending_blocks (nd_state n)"
  obtain r cache where p: "pending_overlay ?p (nd_overlay n) = (r, cache)" by fastforce
  have "arcs_coherent (?held \<union> set_option ?p)"
    using assms(1) unfolding tasks_inv_def task_inv_def
    by (auto simp: arcs_in_use_def get_pending_blocks_def elim: arcs_coherent_mono)
  note a = pending_overlay_faithful [OF assms(2) this p]
  then show "fst (answer_pending n) = Option.bind ?p (\<lambda>a. overlay_of (arc_val a))"
    "cache_faithful (nd_overlay (snd (answer_pending n)))" by (simp_all add: answer_pending_def p)
  have o: "nd_overlay (snd (answer_pending n)) = cache" by (simp add: answer_pending_def p)
  have "fst ` set_option cache \<subseteq> ?held \<union> set_option ?p" using a by simp
  then show "tasks_inv pe (fst ` set_option (nd_overlay (snd (answer_pending n)))) (nd_tasks n)"
    using assms(1) unfolding tasks_inv_def
    by (elim task_inv_frame) (auto simp: o arcs_in_use_def get_pending_blocks_def)
qed

lemma receive_waiting:
  fixes n :: "'st node"
  defines "box \<equiv> sb_mailbox (nd_subscriber n)"
  assumes "tk_feed (nd_tasks n) = Listening" and "nd_received n < length box"
    and s: "subseq (waiting_flashblocks (nd_tasks n)) (take (nd_received n) box)"
  shows "subseq (waiting_flashblocks (nd_tasks (receive_next syncing n))) (take (nd_received n + 1) box)"
proof -
  let ?w = "waiting_flashblocks (nd_tasks n)" and ?fb = "box ! nd_received n"
  have "subseq (?w @ [?fb]) (take (nd_received n) box @ [?fb])"
    using s by (rule list_emb_append_mono) simp
  moreover have "subseq ?w (take (nd_received n) box @ [?fb])"
    using s by (rule subseq_rev_drop_many)
  ultimately show ?thesis
    using assms(2,3) admit_waiting [of "nd_tasks n" syncing ?fb]
    by (auto simp: receive_next_def take_Suc_conv_app_nth box_def)
qed

lemma node_step_inv:
  assumes "node_inv wc pe n" and "node_step wc pe n n'"
  shows "node_inv wc pe n'"
proof -
  have t: "tasks_inv pe (fst ` set_option (nd_overlay n')) (nd_tasks n') \<and> cache_faithful (nd_overlay n')"
    using assms(1) node_step_tasks [OF assms(2)] answer_pending_exact [of pe n]
    by (auto simp: node_inv_def answer_pending_def split: prod.splits intro: tasks_step_inv)
  let ?box = "sb_mailbox (nd_subscriber n)"
  from assms(2) show ?thesis
  proof cases
    case (node_feed e)
    obtain more where more: "sb_mailbox (feed_step wc (nd_subscriber n) e) = ?box @ more"
      "\<forall>fb \<in> set more. \<exists>e shape. decoded wc e = Some (fb, shape)" "feed_inv (feed_step wc (nd_subscriber n) e)"
      "length more \<le> 1"
      using feed_step_effect [of "nd_subscriber n" wc e] assms(1)
      by (cases "decoded wc e") (auto simp: node_inv_def split: prod.splits)
    with t assms(1) node_feed show ?thesis by (auto simp: node_inv_def mailbox_backlog_def reader_ready_def)
  next
    case (node_receive syncing)
    show ?thesis
    proof (cases "nd_received n < length ?box")
      case True
      with node_receive t assms(1) receive_waiting [of n syncing] show ?thesis
        by (auto simp: node_inv_def receive_next_def mailbox_backlog_def)
    qed (use assms(1) node_receive in \<open>simp add: receive_next_def\<close>)
  next
    case node_pending
    then show ?thesis using t assms(1) by (auto simp: node_inv_def answer_pending_def mailbox_backlog_def split: prod.splits)
  next
    case (node_inner tk)
    then show ?thesis
      using t assms(1) inner_waiting [of pe "nd_tasks n" tk]
      by (auto simp: node_inv_def mailbox_backlog_def intro: subseq_order.trans)
  qed
qed

lemma nothing_waiting [simp]:
  "sb_mailbox subscriber_new = []" "waiting_flashblocks (tasks_new (fs_new p d)) = []"
  by (simp_all add: subscriber_new_def fs_new_def tasks_new_def waiting_flashblocks_def queued_flashblocks_def
      List.map_filter_simps)

lemma node_new_inv: "node_inv wc pe (node_new pe depth)"
  by (simp add: node_inv_def node_new_def subscriber_new_inv tasks_new_inv cache_faithful_def mailbox_backlog_def)

interpretation running: transition_system
  "\<lambda>n. \<exists>depth. n = node_new pe depth" "node_step wc pe" "node_inv wc pe"
  for pe :: "('sp, 'db, 'env, 'st) processor_env" and wc
  by unfold_locales (auto simp: node_new_inv node_step_inv)

text \<open>
  C5. End to end: whatever the upstream sends, however the canonical chain moves and however the
  node's tasks interleave, \<open>eth_getBlockByNumber("pending")\<close> answers with the latest block of
  the published snapshot, which was built and usable at a canonical tip the processor read,
  or, without one, as reth answers; the state the \<open>eth\<close> API executes \<open>pending\<close> on is the
  overlay of that same snapshot, whatever its cache holds; no snapshot is broadcast twice;
  what waits for the processor are flashblocks the feed decoded, in the order they were
  received; and at most 101 decoded flashblocks wait to be taken from the channel, the last of
  them with the reading task.
\<close>

theorem node_end_to_end:
  assumes "(node_step wc pe)\<^sup>*\<^sup>* (node_new pe depth) n"
  shows "(case get_pending_blocks (nd_state n) of
        Some a \<Rightarrow> rpc_block_by_number ea (Some (arc_val a)) m PendingTag full =
                    (Inr (Some (get_latest_block (arc_val a) full)), increment rpc_get_block_by_number m)
                 \<and> was_usable pe (ps_reads (fs_shared (nd_state n))) a
      | None \<Rightarrow> rpc_block_by_number ea (None :: 'st PendingBlocks option) m PendingTag full =
                    (eth_err (ea_rpc_block ea PendingTag full), increment rpc_get_block_by_number m))
    \<and> fst (answer_pending n) = Option.bind (get_pending_blocks (nd_state n)) (\<lambda>a. overlay_of (arc_val a))
    \<and> distinct (ps_sent (fs_shared (nd_state n)))
    \<and> subseq (waiting_flashblocks (nd_tasks n)) (sb_mailbox (nd_subscriber n))
    \<and> (\<forall>fb \<in> set (waiting_flashblocks (nd_tasks n)). \<exists>e shape. decoded wc e = Some (fb, shape))
    \<and> length (sb_mailbox (nd_subscriber n)) \<le> nd_received n + 101"
proof -
  have inv: "node_inv wc pe n" using assms by (blast intro: running.reachable_inv)
  then have ti: "task_inv pe (fst ` set_option (nd_overlay n) \<union> judged_arcs (tk_canonical (nd_tasks n)))
      (tk_processor (nd_tasks n)) (fs_shared (nd_state n))"
    by (simp add: node_inv_def tasks_inv_def)
  have overlay: "fst (answer_pending n) = Option.bind (get_pending_blocks (nd_state n)) (\<lambda>a. overlay_of (arc_val a))"
    using inv answer_pending_exact(1) [of pe n] by (simp add: node_inv_def)
  from ti have usable: "was_usable pe (ps_reads (fs_shared (nd_state n))) a"
    if "get_pending_blocks (nd_state n) = Some a" for a
    using that by (simp add: task_inv_def arcs_in_use_def get_pending_blocks_def)
  from ti have "distinct (map arc_id (ps_sent (fs_shared (nd_state n))))"
    by (simp add: task_inv_def strict_sorted_iff)
  then have once: "distinct (ps_sent (fs_shared (nd_state n)))" by (simp add: distinct_map)
  have order: "subseq (waiting_flashblocks (nd_tasks n)) (sb_mailbox (nd_subscriber n))"
    using inv by (metis append_take_drop_id node_inv_def subseq_rev_drop_many)
  then have "\<exists>e shape. decoded wc e = Some (fb, shape)"
    if "fb \<in> set (waiting_flashblocks (nd_tasks n))" for fb
    using inv that by (metis node_inv_def set_nths_subset subseq_conv_nths subset_iff)
  moreover have "length (sb_mailbox (nd_subscriber n)) \<le> nd_received n + 101"
    using inv unfolding node_inv_def mailbox_backlog_def MAILBOX_SIZE_def by linarith
  ultimately show ?thesis
    using usable once order overlay
    by (auto simp: rpc_block_by_number_def is_pending_tag_def api_get_block_def Let_def split: option.split)
qed

text \<open>A codec that reads the example's flashblock from any text, and the node that receives it.\<close>

definition example_codec :: wire_codec where
  "example_codec = \<lparr>wc_from_str = (\<lambda>_. Inr JNull),
     wc_payload = (\<lambda>_. Inr \<lparr>pv_payload_id = fb_payload_id example_first, pv_index = fb_index example_first,
       pv_base = fb_base example_first, pv_diff = fb_diff example_first, pv_metadata = JNull\<rparr>),
     wc_metadata = (\<lambda>_. Inr (fb_metadata example_first)), wc_brotli = (\<lambda>_ _. Inl [])\<rparr>"

definition example_connected :: subscriber where
  "example_connected = feed_step example_codec subscriber_new (Connect True)"

definition example_node :: "nat node" where
  "example_node = \<lparr>nd_subscriber = feed_step example_codec example_connected (Subscriber.Received (Inr (Text [0x7B]))),
     nd_received = 1, nd_tasks = example_tasks, nd_overlay = None\<rparr>"

lemma example_connected_state:
  "feed_inv example_connected" "sb_connected example_connected" "sb_mailbox example_connected = []"
  using feed_step_effect [OF subscriber_new_inv, of example_codec "Connect True"]
  by (simp_all add: example_connected_def feed_step_def on_connect_def decoded_def)

lemma example_mailbox:
  "sb_mailbox (feed_step example_codec example_connected (Subscriber.Received (Inr (Text [0x7B])))) = [example_first]"
proof -
  have "decoded example_codec (Subscriber.Received (Inr (Text [0x7B]))) = Some (example_first, wire_shape_of JNull)"
    by (simp add: decoded_def try_decode_plaintext_message_def ensure_within_size_limit_def
        MAX_DECODED_FLASHBLOCK_BYTES_def parse_flashblock_json_def example_codec_def map_err_def Let_def res_ok_def)
  then show ?thesis
    using feed_step_effect [OF example_connected_state(1), of example_codec "Subscriber.Received (Inr (Text [0x7B]))"]
    by (simp add: example_connected_state(3))
qed

lemma node_inner_steps:
  assumes "(inner_step pe)\<^sup>*\<^sup>* (nd_tasks n) tk"
  shows "(node_step wc pe)\<^sup>*\<^sup>* n (n\<lparr>nd_tasks := tk\<rparr>)"
  using assms
proof (induction rule: rtranclp_induct)
  case (step tk tk')
  then have "node_step wc pe (n\<lparr>nd_tasks := tk\<rparr>) (n\<lparr>nd_tasks := tk'\<rparr>)"
    using node_step.node_inner [of pe "n\<lparr>nd_tasks := tk\<rparr>" tk' wc] by simp
  with step.IH show ?case by simp
qed simp

lemma example_node_reached: "(node_step example_codec example_env)\<^sup>*\<^sup>* (node_new example_env 3) example_node"
proof -
  let ?e = "Subscriber.Received (Inr (Text [0x7B]))" and ?fs = "fs_new example_start 3"
  let ?sub = "feed_step example_codec example_connected ?e" and ?new = "node_new example_env 3"
  let ?n0 = "?new\<lparr>nd_subscriber := example_connected\<rparr>" and ?n1 = "?new\<lparr>nd_subscriber := ?sub\<rparr>"
  let ?n2 = "receive_next False ?n1"
  have ready: "reader_ready ?new (Connect True)" "reader_ready ?n0 ?e"
    by (simp_all add: reader_ready_def feed_enabled_def mailbox_backlog_def node_new_def subscriber_new_def
        example_connected_state)
  have steps: "node_step example_codec example_env ?new ?n0" "node_step example_codec example_env ?n0 ?n1"
    "node_step example_codec example_env ?n1 ?n2"
    using node_step.node_feed [OF ready(1), of example_codec example_env]
      node_step.node_feed [OF ready(2), of example_codec example_env]
    by (simp_all add: node_new_def node_step.node_receive tasks_new_def example_connected_def)
  have n2: "?n2 = \<lparr>nd_subscriber = ?sub, nd_received = 1, nd_tasks = feed_admit False example_first (tasks_new ?fs), nd_overlay = None\<rparr>"
    by (simp add: receive_next_def node_new_def example_mailbox example_start_def)
  have "(inner_step example_env)\<^sup>*\<^sup>* (feed_admit False example_first (tasks_new ?fs))
      (tasks_new (on_flashblock_received False 0 example_first ?fs))"
    using feed_admitted [of "tasks_new ?fs" example_env False example_first 0] by (simp add: tasks_new_def)
  also have "(inner_step example_env)\<^sup>*\<^sup>* (tasks_new (on_flashblock_received False 0 example_first ?fs)) example_tasks"
    using process_uninterrupted [of "tasks_new (on_flashblock_received False 0 example_first ?fs)" example_env]
    by (simp add: tasks_new_def example_tasks_def example_system_def)
  finally have "(node_step example_codec example_env)\<^sup>*\<^sup>* ?n2 (?n2\<lparr>nd_tasks := example_tasks\<rparr>)"
    by (intro node_inner_steps) (simp add: n2)
  then have "(node_step example_codec example_env)\<^sup>*\<^sup>* ?n2 example_node" by (simp add: n2 example_node_def)
  with steps show ?thesis by (meson converse_rtranclp_into_rtranclp)
qed

theorem node_end_to_end_witness:
  "\<exists>a. get_pending_blocks (nd_state example_node) = Some a
     \<and> rpc_block_by_number example_eth_api (Some (arc_val a)) metrics_default PendingTag False =
         (Inr (Some (get_latest_block (arc_val a) False)), increment rpc_get_block_by_number metrics_default)
     \<and> was_usable example_env (ps_reads (fs_shared (nd_state example_node))) a"
proof -
  obtain a where a: "get_pending_blocks (nd_state example_node) = Some a"
    using example_published by (auto simp: example_node_def example_tasks_def tasks_new_def)
  with node_end_to_end [OF example_node_reached, of example_eth_api metrics_default False] show ?thesis
    by (auto split: option.splits)
qed

section \<open>A call reads the pending state twice\<close>

text \<open>A provider at block 7 whose environment of a header is that header.\<close>

definition header_provider :: "(unit, unit, unit, unit, unit, SealedHeader, unit) node_provider" where
  "header_provider = \<lparr>np_pending_block_num_hash = Inr None,
     np_block_number = (\<lambda>_. Inr (Some 7)), np_state_by_block_hash = (\<lambda>_. Inr empty_anchor),
     np_pending_block_and_receipts = Inr None, np_latest_header = Inr None,
     np_cached_block_and_receipts = (\<lambda>_. Inr None), np_evm_env_for_header = Inr,
     np_evm_env_at = (\<lambda>at. Inl ''no block'')\<rparr>"

text \<open>
  C6. The environment and the state of a call can come from different snapshots: there is a run
  in which \<open>evm_env_at\<close> answers \<open>pending\<close> with the environment of the published snapshot's
  latest header, and before \<open>local_pending_state\<close> resolves the same tag the snapshot is
  dropped, so the call in that environment runs on the provider's own pending state.
\<close>

theorem pending_call_torn:
  "\<exists>n n' a. (node_step example_codec example_env)\<^sup>*\<^sup>* (node_new example_env 3) n
     \<and> (node_step example_codec example_env)\<^sup>*\<^sup>* n n'
     \<and> get_pending_blocks (nd_state n) = Some a
     \<and> evm_env_at header_provider (fst (answer_pending n)) (IdNumber PendingTag)
         = Inr (\<lparr>sh_header = sh_header (pb_latest_header (arc_val a)),
                 sh_hash = sh_hash (pb_latest_header (arc_val a))\<rparr>, IdNumber PendingTag)
     \<and> local_pending_state example_ops header_provider (fst (answer_pending n)) \<noteq> Inr None
     \<and> local_pending_state example_ops header_provider (fst (answer_pending n')) = Inr None"
proof -
  obtain a where a: "get_pending_blocks example_system = Some a" "earliest_block_number (arc_val a) = 8"
    and anchor: "pb_anchor (arc_val a) \<noteq> None"
    by (rule example_published)
  let ?dropped = "canonical_continue (example_judged example_tasks)"
  let ?n' = "example_node\<lparr>nd_tasks := ?dropped\<rparr>"
  have tk: "tk_canonical example_tasks = Waiting" "tk_state example_tasks = example_system"
    by (simp_all add: example_tasks_def tasks_new_def)
  have "(inner_step example_env)\<^sup>*\<^sup>* example_tasks ?dropped"
    using example_judged_reached [OF tk(1)] inner_step.canonical by (rule rtranclp.rtrancl_into_rtrancl)
  then have later: "(node_step example_codec example_env)\<^sup>*\<^sup>* example_node ?n'"
    by (intro node_inner_steps) (simp add: example_node_def)
  have "get_pending_blocks (tk_state ?dropped) = None"
    using a tk(2) example_system_shared by (intro example_dropped) simp_all
  then have none: "fst (answer_pending ?n') = None" by (simp add: answer_pending_def pending_overlay_def)
  obtain h where h: "pb_anchor (arc_val a) = Some h" using anchor by blast
  then have ov: "fst (answer_pending example_node) =
      Some (from_bundle h (pb_latest_header (arc_val a)) (pb_bundle_state (arc_val a)))"
    using a tk(2) by (simp add: answer_pending_def pending_overlay_def example_node_def Let_def)
  have p: "get_pending_blocks (nd_state example_node) = Some a"
    using a tk(2) by (simp add: example_node_def)
  show ?thesis
    using example_node_reached later p
    by (intro exI [of _ example_node] exI [of _ ?n'] exI [of _ a])
      (simp add: ov none evm_env_at_def local_pending_state_def served_overlay_def is_pending_def
        header_provider_def engine_newer_def from_bundle_def)
qed

end
